(* ===== verification/Peat_Prelude.thy ===== *)
theory Peat_Prelude
  imports
    Main
    "HOL-Library.AList"
    "HOL-Library.Char_ord"
    "HOL-Library.List_Lexorder"
    "HOL-Library.Multiset"
    "HOL-Library.Word"
begin

text \<open>
  Shared vocabulary of the development: machine integer types, the model of
  \<open>std::collections::HashMap\<close>, the generic lemmas on lists and options that the
  components share, and the algebra of last-write-wins entries.

  \<^item> \<open>String\<close> is \<open>string\<close>, the list of its UTF-8 bytes; Rust compares strings by bytes, which
    is the lexicographic order of \<open>HOL-Library.List_Lexorder\<close> over \<open>HOL-Library.Char_ord\<close>.
  \<^item> \<open>u64\<close>, \<open>u32\<close>, \<open>u16\<close> and \<open>u8\<close> are words of that width. \<open>usize\<close> counts of elements held in
    memory are \<open>nat\<close>.
  \<^item> \<open>Instant\<close> and \<open>SystemTime\<close> readings are arguments of the operations that take them.
  \<^item> A \<open>HashMap\<close> is an association list with distinct keys. The list order stands for the
    iteration order of the map, which Rust leaves unspecified: every theorem quantifies over
    all lists, hence over all iteration orders.
\<close>

type_synonym u8 = "8 word"
type_synonym u16 = "16 word"
type_synonym u32 = "32 word"
type_synonym u64 = "64 word"

named_theorems hm_simps \<open>rewrite rules for the hash map operations\<close>
named_theorems frame_simps \<open>fields an operation does not write\<close>


lemma unat_of_nat_u32: "n < 2 ^ 32 \<Longrightarrow> unat (of_nat n :: u32) = n"
  by (simp add: unat_of_nat take_bit_nat_eq_self)

lemma unat_of_nat_u64: "n < 2 ^ 64 \<Longrightarrow> unat (of_nat n :: u64) = n"
  by (simp add: unat_of_nat take_bit_nat_eq_self)


lemma word_less_Suc: "x \<noteq> - 1 \<Longrightarrow> x < (x :: 'a::len word) + 1"
  by (simp add: not_le [symmetric] inc_less_eq_self_iff_eq)

lemma unat_inc_less:
  assumes "x < (y :: 'a::len word)"
  shows "unat (x + 1) = unat x + 1"
proof -
  have "x \<noteq> - 1"
    using assms word_order.extremum_strict by blast
  then have "1 + x \<noteq> 0"
    by (metis add.commute eq_neg_iff_add_eq_0)
  from unatSuc [OF this] show ?thesis
    by (simp add: add.commute)
qed

text \<open>
  A monotonic \<open>Instant\<close> is a number of nanoseconds; \<open>Instant::elapsed\<close> never goes below zero.
  Unsigned saturating subtraction and the decimal rendering of an unsigned integer.
\<close>

type_synonym instant = nat

definition from_secs :: "nat \<Rightarrow> nat" where
  "from_secs n = n * 1000000000"

definition from_millis :: "nat \<Rightarrow> nat" where
  "from_millis n = n * 1000000"

definition elapsed :: "instant \<Rightarrow> instant \<Rightarrow> nat" where
  "elapsed now since = now - since"

definition saturating_sub :: "'a::len word \<Rightarrow> 'a word \<Rightarrow> 'a word" where
  "saturating_sub a b = (if b \<le> a then a - b else 0)"

lemma unat_saturating_sub: "unat (saturating_sub a b) = unat a - unat b"
  by (auto simp: saturating_sub_def unat_sub word_le_nat_alt)

fun display_nat :: "nat \<Rightarrow> string" where
  "display_nat n =
     (if n < 10 then [char_of (48 + n)] else display_nat (n div 10) @ [char_of (48 + n mod 10)])"

declare display_nat.simps [simp del]


subsection \<open>Hash maps\<close>

type_synonym ('k, 'v) hash_map = "('k \<times> 'v) list"

definition hm_get :: "('k, 'v) hash_map \<Rightarrow> 'k \<Rightarrow> 'v option" where
  "hm_get m k = map_of m k"

definition hm_insert :: "'k \<Rightarrow> 'v \<Rightarrow> ('k, 'v) hash_map \<Rightarrow> ('k, 'v) hash_map" where
  "hm_insert k v m = AList.update k v m"

definition hm_remove :: "'k \<Rightarrow> ('k, 'v) hash_map \<Rightarrow> ('k, 'v) hash_map" where
  "hm_remove k m = AList.delete k m"

definition hm_retain :: "('k \<Rightarrow> 'v \<Rightarrow> bool) \<Rightarrow> ('k, 'v) hash_map \<Rightarrow> ('k, 'v) hash_map" where
  "hm_retain P m = filter (\<lambda>(k, v). P k v) m"

definition hm_map_values :: "('k \<Rightarrow> 'v \<Rightarrow> 'w) \<Rightarrow> ('k, 'v) hash_map \<Rightarrow> ('k, 'w) hash_map" where
  "hm_map_values f m = map (\<lambda>(k, v). (k, f k v)) m"

definition hm_contains_key :: "('k, 'v) hash_map \<Rightarrow> 'k \<Rightarrow> bool" where
  "hm_contains_key m k = (hm_get m k \<noteq> None)"

definition hm_wf :: "('k, 'v) hash_map \<Rightarrow> bool" where
  "hm_wf m = distinct (map fst m)"

text \<open>The interface of a key-value table, and what every client of one may use.\<close>

locale key_value =
  fixes empty_kv :: 'm
    and lookup :: "'m \<Rightarrow> 'k \<Rightarrow> 'v option"
    and insert_kv :: "'k \<Rightarrow> 'v \<Rightarrow> 'm \<Rightarrow> 'm"
    and remove_kv :: "'k \<Rightarrow> 'm \<Rightarrow> 'm"
    and invar :: "'m \<Rightarrow> bool"
  assumes lookup_empty: "lookup empty_kv k = None"
    and lookup_insert: "lookup (insert_kv k v m) = (lookup m)(k \<mapsto> v)"
    and lookup_remove: "lookup (remove_kv k m) = (lookup m)(k := None)"
    and invar_empty: "invar empty_kv"
    and invar_insert: "invar m \<Longrightarrow> invar (insert_kv k v m)"
    and invar_remove: "invar m \<Longrightarrow> invar (remove_kv k m)"
begin

lemma lookup_insert_same: "lookup (insert_kv k v m) k = Some v"
  by (simp add: lookup_insert)

lemma lookup_insert_other: "k' \<noteq> k \<Longrightarrow> lookup (insert_kv k v m) k' = lookup m k'"
  by (simp add: lookup_insert)

lemma insert_overwrites:
  "lookup (insert_kv k v (insert_kv k w m)) = lookup (insert_kv k v m)"
  by (simp add: lookup_insert)

lemma insert_commutes:
  "k \<noteq> k' \<Longrightarrow> lookup (insert_kv k v (insert_kv k' w m)) = lookup (insert_kv k' w (insert_kv k v m))"
  by (simp add: lookup_insert fun_upd_twist)

lemma remove_insert: "lookup (remove_kv k (insert_kv k v m)) = (lookup m)(k := None)"
  by (simp add: lookup_insert lookup_remove)

lemma invar_fold_insert: "invar m \<Longrightarrow> invar (fold (\<lambda>x. insert_kv (f x) (g x)) xs m)"
  by (induction xs arbitrary: m) (simp_all add: invar_insert)

end

interpretation hm: key_value "[]" hm_get hm_insert hm_remove hm_wf
proof unfold_locales
  show "hm_get [] k = None" for k
    by (simp add: hm_get_def)
  show "hm_get (hm_insert k v m) = (hm_get m)(k \<mapsto> v)" for k v m
    by (simp add: hm_get_def [abs_def] hm_insert_def update_conv')
  show "hm_get (hm_remove k m) = (hm_get m)(k := None)" for k m
    by (simp add: hm_get_def [abs_def] hm_remove_def delete_conv')
  show "hm_wf []"
    by (simp add: hm_wf_def)
  show "hm_wf m \<Longrightarrow> hm_wf (hm_insert k v m)" for k v m
    by (simp add: hm_wf_def hm_insert_def distinct_update)
  show "hm_wf m \<Longrightarrow> hm_wf (hm_remove k m)" for k m
    by (simp add: hm_wf_def hm_remove_def distinct_delete)
qed

lemmas hm_rules [simp, hm_simps] =
  hm.lookup_empty hm.lookup_insert hm.lookup_remove hm.invar_empty hm.invar_insert hm.invar_remove

lemma hm_get_Cons [hm_simps]: "hm_get ((k', v) # m) k = (if k = k' then Some v else hm_get m k)"
  by (simp add: hm_get_def)

lemma hm_wf_Cons: "hm_wf ((k, v) # m) \<longleftrightarrow> k \<notin> fst ` set m \<and> hm_wf m"
  by (simp add: hm_wf_def)

lemma hm_get_None_iff: "hm_get m k = None \<longleftrightarrow> k \<notin> fst ` set m"
  by (simp add: hm_get_def map_of_eq_None_iff)

lemma hm_get_Some_iff: "hm_wf m \<Longrightarrow> hm_get m k = Some v \<longleftrightarrow> (k, v) \<in> set m"
  by (simp add: hm_get_def hm_wf_def)

lemma hm_get_SomeD: "hm_get m k = Some v \<Longrightarrow> (k, v) \<in> set m"
  by (simp add: hm_get_def map_of_SomeD)

lemma hm_wf_retain [simp]: "hm_wf m \<Longrightarrow> hm_wf (hm_retain P m)"
  by (simp add: hm_wf_def hm_retain_def distinct_map_filter)

lemma hm_get_retain [hm_simps]:
  "hm_wf m \<Longrightarrow> hm_get (hm_retain P m) k =
     (case hm_get m k of None \<Rightarrow> None | Some v \<Rightarrow> if P k v then Some v else None)"
proof (induction m)
  case Nil
  then show ?case by (simp add: hm_retain_def)
next
  case (Cons kv m)
  obtain k' v' where kv: "kv = (k', v')" by (cases kv)
  with Cons.prems have wf: "hm_wf m" and fresh: "hm_get m k' = None"
    by (simp_all add: hm_wf_Cons hm_get_None_iff)
  from Cons.IH [OF wf] fresh show ?case
    by (auto simp: kv hm_retain_def hm_get_Cons)
qed

lemma hm_keys_map_values [simp]: "map fst (hm_map_values f m) = map fst m"
  by (simp add: hm_map_values_def o_def case_prod_beta)

lemma hm_wf_map_values [simp]: "hm_wf (hm_map_values f m) = hm_wf m"
  by (simp add: hm_wf_def)

lemma hm_get_map_values [hm_simps]: "hm_get (hm_map_values f m) k = map_option (f k) (hm_get m k)"
  by (induction m) (auto simp: hm_map_values_def hm_get_Cons)

lemma hm_wf_fold_insert:
  "hm_wf m \<Longrightarrow> hm_wf (fold (\<lambda>x. hm_insert (f x) (g x)) xs m)"
  by (rule hm.invar_fold_insert)


subsection \<open>Last-write-wins entries\<close>

text \<open>
  The routing table keeps, for each key, a value with the timestamp of the write that set it.
  An assignment is accepted when its timestamp is strictly newer than the stored one, a removal
  when it is not older. \<open>lww_join\<close> is the entry two replicas should agree on.
\<close>

definition lww_newer :: "u64 \<Rightarrow> ('v \<times> u64) option \<Rightarrow> bool" where
  "lww_newer t e = (case e of None \<Rightarrow> True | Some (_, ts) \<Rightarrow> ts < t)"

definition lww_not_older :: "u64 \<Rightarrow> ('v \<times> u64) option \<Rightarrow> bool" where
  "lww_not_older t e = (case e of None \<Rightarrow> True | Some (_, ts) \<Rightarrow> ts \<le> t)"

definition lww_join :: "('v \<times> u64) option \<Rightarrow> ('v \<times> u64) option \<Rightarrow> ('v \<times> u64) option" where
  "lww_join a b = (case b of None \<Rightarrow> a | Some (v, t) \<Rightarrow> if lww_newer t a then b else a)"

definition lww_tie :: "('v \<times> u64) option \<Rightarrow> ('v \<times> u64) option \<Rightarrow> bool" where
  "lww_tie a b = (\<exists>v w t. a = Some (v, t) \<and> b = Some (w, t) \<and> v \<noteq> w)"

lemma lww_join_None [simp]: "lww_join a None = a" "lww_join None b = b"
  by (simp_all add: lww_join_def lww_newer_def split: option.splits)

lemma lww_join_Some [simp]:
  "lww_join (Some (v, t)) (Some (w, t')) = (if t < t' then Some (w, t') else Some (v, t))"
  by (simp add: lww_join_def lww_newer_def)

lemma lww_join_idem [simp]: "lww_join a a = a"
  by (cases a) auto

lemma lww_join_assoc: "lww_join (lww_join a b) c = lww_join a (lww_join b c)"
  by (cases a; cases b; cases c) auto

lemma lww_join_commute: "\<not> lww_tie a b \<Longrightarrow> lww_join a b = lww_join b a"
  by (cases a; cases b) (auto simp: lww_tie_def)

lemma lww_join_tie: "lww_tie a b \<Longrightarrow> lww_join a b = a"
  by (auto simp: lww_tie_def)

lemma lww_join_ts:
  "lww_join a b = Some (v, t) \<Longrightarrow>
     (\<forall>w s. a = Some (w, s) \<longrightarrow> s \<le> t) \<and> (\<forall>w s. b = Some (w, s) \<longrightarrow> s \<le> t)"
  by (cases a; cases b) (auto split: if_splits)

lemma fold_lww_join_permute:
  assumes "\<And>x y. x \<in> set xs \<Longrightarrow> y \<in> set xs \<Longrightarrow> \<not> lww_tie (f x) (f y)"
    and "mset xs = mset ys"
  shows "fold (\<lambda>b e. lww_join e (f b)) xs = fold (\<lambda>b e. lww_join e (f b)) ys"
proof (rule fold_multiset_equiv [OF _ assms(2)])
  fix x y
  assume "x \<in> set xs" "y \<in> set xs"
  then have "lww_join (f x) (f y) = lww_join (f y) (f x)"
    by (intro lww_join_commute assms(1))
  then show "(\<lambda>e. lww_join e (f x)) \<circ> (\<lambda>e. lww_join e (f y)) =
             (\<lambda>e. lww_join e (f y)) \<circ> (\<lambda>e. lww_join e (f x))"
    by (simp add: fun_eq_iff lww_join_assoc)
qed

text \<open>
  The contract of one last-write-wins map inside a larger state: \<open>entry\<close> reads it, \<open>assign\<close> and
  \<open>remove\<close> are the operations the code exports, each returning the new state and whether the
  write was applied.
\<close>

locale lww_map =
  fixes entry :: "'s \<Rightarrow> 'k \<Rightarrow> ('v \<times> u64) option"
    and assign :: "'s \<Rightarrow> 'k \<Rightarrow> 'v \<Rightarrow> u64 \<Rightarrow> 's \<times> bool"
    and remove :: "'s \<Rightarrow> 'k \<Rightarrow> u64 \<Rightarrow> 's \<times> bool"
  assumes entry_assign:
      "entry (fst (assign s k v t)) =
         (if lww_newer t (entry s k) then (entry s)(k \<mapsto> (v, t)) else entry s)"
    and assign_applied: "snd (assign s k v t) = lww_newer t (entry s k)"
    and entry_remove:
      "entry (fst (remove s k t)) =
         (if lww_not_older t (entry s k) then (entry s)(k := None) else entry s)"
    and remove_applied: "snd (remove s k t) = lww_not_older t (entry s k)"
begin

lemma assign_joins:
  "entry (fst (assign s k v t)) = (entry s)(k := lww_join (entry s k) (Some (v, t)))"
  by (auto simp: entry_assign lww_join_def)

lemma assign_idem: "entry (fst (assign (fst (assign s k v t)) k v t)) = entry (fst (assign s k v t))"
  by (simp add: assign_joins lww_join_assoc)

lemma assign_commute:
  assumes "k \<noteq> k' \<or> t \<noteq> t' \<or> v = v'"
  shows "entry (fst (assign (fst (assign s k v t)) k' v' t')) =
         entry (fst (assign (fst (assign s k' v' t')) k v t))"
proof (cases "k = k'")
  case True
  with assms have "\<not> lww_tie (Some (v, t)) (Some (v', t'))"
    by (auto simp: lww_tie_def)
  from lww_join_commute [OF this] True show ?thesis
    by (simp add: assign_joins lww_join_assoc)
next
  case False
  then show ?thesis
    by (auto simp: assign_joins fun_upd_twist)
qed

lemma assign_monotone:
  assumes "entry s k' = Some (w, ts)"
  shows "\<exists>w' ts'. entry (fst (assign s k v t)) k' = Some (w', ts') \<and> ts \<le> ts'"
  using assms by (auto simp: entry_assign lww_newer_def)

lemma assign_then_remove:
  "snd (assign s k v t) \<Longrightarrow> entry (fst (remove (fst (assign s k v t)) k t)) k = None"
  by (simp add: entry_remove entry_assign assign_applied lww_not_older_def)

lemma absorb_entry:
  assumes "distinct (map fst m)"
  shows "entry (fold (\<lambda>(k, v, t) s. fst (assign s k v t)) m s) k = lww_join (entry s k) (map_of m k)"
  using assms
proof (induction m arbitrary: s)
  case Nil
  then show ?case by simp
next
  case (Cons e m)
  obtain k' v' t' where e: "e = (k', v', t')" by (cases e)
  with Cons.prems have fresh: "map_of m k' = None" and wf: "distinct (map fst m)"
    by (simp_all add: map_of_eq_None_iff)
  from Cons.IH [OF wf, of "fst (assign s k' v' t')"] fresh show ?case
    by (simp add: e assign_joins)
qed

end


text \<open>
  The contract of a replicated state with a grow-only set of elements and one last-write-wins
  register: what \<open>merge\<close> does to the elements and to the register. The register is read as an
  entry so that \<open>lww_join\<close> is its merge.
\<close>

locale replicated =
  fixes merge :: "'s \<Rightarrow> 's \<Rightarrow> 's"
    and elems :: "'s \<Rightarrow> 'e set"
    and reg :: "'s \<Rightarrow> 'r \<times> u64"
  assumes elems_merge: "elems (merge a b) = elems a \<union> elems b"
    and reg_merge: "Some (reg (merge a b)) = lww_join (Some (reg a)) (Some (reg b))"
begin

lemma elems_merge_all: "elems (fold (\<lambda>b a. merge a b) bs a) = elems a \<union> \<Union> (elems ` set bs)"
  by (induction bs arbitrary: a) (auto simp: elems_merge)

lemma reg_merge_all:
  "Some (reg (fold (\<lambda>b a. merge a b) bs a)) = fold (\<lambda>b e. lww_join e (Some (reg b))) bs (Some (reg a))"
  by (induction bs arbitrary: a) (simp_all add: reg_merge)

lemma stamp_monotone: "snd (reg a) \<le> snd (reg (merge a b))" "snd (reg b) \<le> snd (reg (merge a b))"
  using reg_merge [of a b] by (cases "reg a"; cases "reg b"; auto split: if_splits)+

lemma merge_all_permute:
  assumes "mset bs = mset cs"
    and "\<And>x y. x \<in> set bs \<Longrightarrow> y \<in> set bs \<Longrightarrow> \<not> lww_tie (Some (reg x)) (Some (reg y))"
  shows "elems (fold (\<lambda>b a. merge a b) bs a) = elems (fold (\<lambda>b a. merge a b) cs a)"
    and "reg (fold (\<lambda>b a. merge a b) bs a) = reg (fold (\<lambda>b a. merge a b) cs a)"
proof -
  from assms(1) have "set bs = set cs" by (metis set_mset_mset)
  then show "elems (fold (\<lambda>b a. merge a b) bs a) = elems (fold (\<lambda>b a. merge a b) cs a)"
    by (simp add: elems_merge_all)
  have "Some (reg (fold (\<lambda>b a. merge a b) bs a)) = Some (reg (fold (\<lambda>b a. merge a b) cs a))"
    unfolding reg_merge_all
    by (subst fold_lww_join_permute [OF _ assms(1), of "\<lambda>b. Some (reg b)"]) (use assms(2) in simp_all)
  then show "reg (fold (\<lambda>b a. merge a b) bs a) = reg (fold (\<lambda>b a. merge a b) cs a)" by simp
qed

lemma removal_undone: "e \<in> elems b \<Longrightarrow> e \<in> elems (merge a b)"
  by (simp add: elems_merge)

end


subsection \<open>Lists\<close>

text \<open>\<open>Vec\<close> used as a set: pushing an element that is not there yet.\<close>

definition push_new :: "'a \<Rightarrow> 'a list \<Rightarrow> 'a list" where
  "push_new x xs = (if x \<in> set xs then xs else xs @ [x])"

lemma set_push_new [simp]: "set (push_new x xs) = insert x (set xs)"
  by (auto simp: push_new_def)

lemma distinct_push_new [simp]: "distinct xs \<Longrightarrow> distinct (push_new x xs)"
  by (simp add: push_new_def)

lemma set_fold_push_new [simp]: "set (fold push_new ys xs) = set xs \<union> set ys"
  by (induction ys arbitrary: xs) auto

lemma distinct_fold_push_new [simp]: "distinct xs \<Longrightarrow> distinct (fold push_new ys xs)"
  by (induction ys arbitrary: xs) auto

lemma fold_push_new_absorb: "set ys \<subseteq> set xs \<Longrightarrow> fold push_new ys xs = xs"
  by (induction ys) (auto simp: push_new_def)

text \<open>The same with a key: an element is pushed unless one with its key is there already.\<close>

definition push_new_by :: "('a \<Rightarrow> 'b) \<Rightarrow> 'a \<Rightarrow> 'a list \<Rightarrow> 'a list" where
  "push_new_by f x xs = (if f x \<in> f ` set xs then xs else xs @ [x])"

lemma keys_push_new_by: "map f (push_new_by f x xs) = push_new (f x) (map f xs)"
  by (simp add: push_new_by_def push_new_def)

lemma keys_fold_push_new_by: "map f (fold (push_new_by f) ys xs) = fold push_new (map f ys) (map f xs)"
  by (induction ys arbitrary: xs) (simp_all add: keys_push_new_by)

lemma set_push_new_by_sub: "set (push_new_by f x xs) \<subseteq> insert x (set xs)"
  and set_push_new_by_sup: "set xs \<subseteq> set (push_new_by f x xs)"
  by (auto simp: push_new_by_def)

lemma set_fold_push_new_by_sub: "set (fold (push_new_by f) ys xs) \<subseteq> set xs \<union> set ys"
proof (induction ys arbitrary: xs)
  case Nil
  then show ?case by simp
next
  case (Cons y ys)
  from Cons.IH [of "push_new_by f y xs"] set_push_new_by_sub [of f y xs] show ?case
    by auto
qed

lemma fold_push_new_by_keeps: "set xs \<subseteq> set (fold (push_new_by f) ys xs)"
proof (induction ys arbitrary: xs)
  case Nil
  then show ?case by simp
next
  case (Cons y ys)
  from Cons.IH [of "push_new_by f y xs"] set_push_new_by_sup [of xs f y] show ?case
    by auto
qed

lemma fold_push_new_by_absorb: "f ` set ys \<subseteq> f ` set xs \<Longrightarrow> fold (push_new_by f) ys xs = xs"
  by (induction ys) (auto simp: push_new_by_def)

text \<open>The loops of the source that push what is not there yet.\<close>

lemma merge_push_new:
  "fold (\<lambda>m ms. if m \<in> set ms then ms else ms @ [m]) ys xs = fold push_new ys xs"
  by (simp add: push_new_def [abs_def])

lemma merge_push_new_ex:
  "fold (\<lambda>m ms. if list_ex (\<lambda>x. x = m) ms then ms else ms @ [m]) ys xs = fold push_new ys xs"
  by (simp add: push_new_def [abs_def] list_ex_iff)

lemma merge_push_new_by:
  "fold (\<lambda>x xs. if list_ex (\<lambda>c. f c = f x) xs then xs else xs @ [x]) ys xs = fold (push_new_by f) ys xs"
proof -
  have "list_ex (\<lambda>c. f c = f x) xs \<longleftrightarrow> f x \<in> f ` set xs" for x xs
    unfolding list_ex_iff image_iff by metis
  then show ?thesis by (simp add: push_new_by_def [abs_def])
qed

text \<open>\<open>iter().position(..)\<close> followed by \<open>remove(pos)\<close> drops the first occurrence: \<open>remove1\<close>.\<close>

text \<open>
  \<open>sort_by\<close> and \<open>sort_by_key\<close> are stable. A descending stable sort keeps equal elements in their
  original order, so it is the reverse of the ascending sort of the reversed list.
\<close>

definition sort_desc_by :: "('a \<Rightarrow> 'b::linorder) \<Rightarrow> 'a list \<Rightarrow> 'a list" where
  "sort_desc_by f xs = rev (sort_key f (rev xs))"

lemma set_sort_desc_by [simp]: "set (sort_desc_by f xs) = set xs"
  by (simp add: sort_desc_by_def)

lemma mset_sort_desc_by [simp]: "mset (sort_desc_by f xs) = mset xs"
  by (simp add: sort_desc_by_def)

lemma sort_desc_by_Nil [simp]: "sort_desc_by f xs = [] \<longleftrightarrow> xs = []"
  by (metis mset_sort_desc_by mset_zero_iff)

lemma sort_desc_by_stable: "filter (\<lambda>x. f x = k) (sort_desc_by f xs) = filter (\<lambda>x. f x = k) xs"
  by (simp add: sort_desc_by_def rev_filter [symmetric] sort_key_stable)

lemma sorted_sort_desc_by: "sorted_wrt (\<lambda>x y. f y \<le> f x) (sort_desc_by f xs)"
proof -
  have "sorted_wrt (\<lambda>x y. f x \<le> f y) (sort_key f (rev xs))"
    using sorted_sort_key [of f "rev xs"] by (simp add: sorted_wrt_map)
  then show ?thesis
    by (simp add: sort_desc_by_def sorted_wrt_rev)
qed

lemma sort_desc_by_const:
  assumes "\<forall>x \<in> set xs. f x = k"
  shows "sort_desc_by f xs = xs"
proof -
  have "filter (\<lambda>x. f x = k) (sort_desc_by f xs) = sort_desc_by f xs"
    and "filter (\<lambda>x. f x = k) xs = xs"
    using assms by (simp_all add: filter_id_conv)
  then show ?thesis
    by (metis sort_desc_by_stable)
qed

lemma hd_sort_desc_by:
  assumes "xs \<noteq> []"
  shows "hd (sort_desc_by f xs) \<in> set xs" and "\<forall>x \<in> set xs. f x \<le> f (hd (sort_desc_by f xs))"
proof -
  obtain y ys where ys: "sort_desc_by f xs = y # ys"
    using assms by (metis list.exhaust sort_desc_by_Nil)
  then have s: "set xs = insert y (set ys)"
    by (metis list.simps(15) set_sort_desc_by)
  then show "hd (sort_desc_by f xs) \<in> set xs"
    by (simp add: ys)
  have "\<forall>x \<in> set ys. f x \<le> f y"
    using sorted_sort_desc_by [of f xs] by (simp add: ys)
  then show "\<forall>x \<in> set xs. f x \<le> f (hd (sort_desc_by f xs))"
    by (simp add: ys s)
qed

lemma sort_desc_by_first:
  assumes "xs \<noteq> []"
  shows "\<exists>pre suf. xs = pre @ hd (sort_desc_by f xs) # suf \<and> (\<forall>x \<in> set pre. f x < f (hd (sort_desc_by f xs)))"
proof -
  let ?w = "hd (sort_desc_by f xs)"
  let ?top = "filter (\<lambda>x. f x = f ?w)"
  obtain ys where "sort_desc_by f xs = ?w # ys"
    using assms by (metis list.collapse sort_desc_by_Nil)
  then have "?top (sort_desc_by f xs) = ?w # ?top ys"
    by (metis (mono_tags, lifting) filter.simps(2))
  then have "?top xs = ?w # ?top ys"
    by (simp add: sort_desc_by_stable)
  then obtain pre suf where xs: "xs = pre @ ?w # suf" and pre: "\<forall>x \<in> set pre. f x \<noteq> f ?w"
    by (auto simp: filter_eq_Cons_iff)
  then have "set pre \<subseteq> set xs" by (metis Un_upper1 set_append)
  with pre hd_sort_desc_by(2) [OF assms, of f] have "\<forall>x \<in> set pre. f x < f ?w"
    by (meson order_le_imp_less_or_eq subsetD)
  with xs show ?thesis by blast
qed

lemma sort_desc_by_mono:
  assumes "\<And>x y. x \<in> set xs \<Longrightarrow> y \<in> set xs \<Longrightarrow> f x \<le> f y \<longleftrightarrow> g x \<le> g y"
  shows "sort_desc_by f xs = sort_desc_by g xs"
proof -
  have eq: "(f x = f y) = (g x = g y)" if "x \<in> set xs" "y \<in> set xs" for x y
    using assms that by (metis order_antisym order_refl)
  have "sort_key f (rev xs) = sort_key g (rev xs)"
  proof (rule properties_for_sort_key)
    show "filter (\<lambda>x. f k = f x) (sort_key g (rev xs)) = filter (\<lambda>x. f k = f x) (rev xs)"
      if "k \<in> set (sort_key g (rev xs))" for k
    proof -
      have "filter (\<lambda>x. f k = f x) ys = filter (\<lambda>x. g x = g k) ys" if "set ys = set xs" for ys
        using eq [of k] \<open>k \<in> set (sort_key g (rev xs))\<close> that by (intro filter_cong) auto
      then show ?thesis by (simp add: sort_key_stable)
    qed
    have "sorted_wrt (\<lambda>x y. g x \<le> g y) (sort_key g (rev xs))"
      using sorted_sort_key [of g "rev xs"] by (simp add: sorted_wrt_map)
    then have "sorted_wrt (\<lambda>x y. f x \<le> f y) (sort_key g (rev xs))"
      by (rule sorted_wrt_mono_rel [rotated]) (simp add: assms)
    then show "sorted (map f (sort_key g (rev xs)))" by (simp add: sorted_wrt_map)
  qed simp
  then show ?thesis by (simp add: sort_desc_by_def)
qed

text \<open>
  \<open>slice::sort_by\<close> with a comparison function: the stable insertion sort. Rust leaves the result
  open when the function is no total order; where it is one, the result is that of \<open>sort_desc_by\<close>.
\<close>

datatype ordering = OrdLess | OrdEqual | OrdGreater

definition cmp :: "'a::linorder \<Rightarrow> 'a \<Rightarrow> ordering" where
  "cmp a b = (if a < b then OrdLess else if a = b then OrdEqual else OrdGreater)"

fun insert_by :: "('a \<Rightarrow> 'a \<Rightarrow> ordering) \<Rightarrow> 'a \<Rightarrow> 'a list \<Rightarrow> 'a list" where
  "insert_by c x [] = [x]"
| "insert_by c x (y # ys) = (if c x y = OrdGreater then y # insert_by c x ys else x # y # ys)"

definition sort_by :: "('a \<Rightarrow> 'a \<Rightarrow> ordering) \<Rightarrow> 'a list \<Rightarrow> 'a list" where
  "sort_by c xs = foldr (insert_by c) xs []"

lemma set_insert_by [simp]: "set (insert_by c x ys) = insert x (set ys)"
  by (induction ys) auto

lemma insert_by_insort:
  assumes "\<And>y. y \<in> set ys \<Longrightarrow> c x y = cmp (f x) (f y)" "sorted (map f ys)"
  shows "insert_by c x ys = insort_key f x ys"
  using assms
proof (induction ys)
  case (Cons y ys)
  then show ?case by (auto simp: cmp_def)
qed simp

lemma set_sort_by [simp]: "set (sort_by c xs) = set xs"
  by (induction xs) (simp_all add: sort_by_def)

text \<open>A comparison function that agrees with the order of a key sorts by that key.\<close>

lemma sort_by_sort_key:
  assumes "\<And>x y. x \<in> set xs \<Longrightarrow> y \<in> set xs \<Longrightarrow> c x y = cmp (f x) (f y)"
  shows "sort_by c xs = sort_key f xs"
  using assms
proof (induction xs)
  case (Cons x xs)
  then have "sort_by c xs = sort_key f xs" by simp
  moreover have "insert_by c x (sort_key f xs) = insort_key f x (sort_key f xs)"
    using Cons.prems by (intro insert_by_insort) simp_all
  ultimately show ?case by (simp add: sort_by_def)
qed (simp add: sort_by_def)

lemma mset_insert_by [simp]: "mset (insert_by c x ys) = add_mset x (mset ys)"
  by (induction ys) auto

lemma mset_sort_by [simp]: "mset (sort_by c xs) = mset xs"
  by (induction xs) (simp_all add: sort_by_def)

lemma insert_by_desc:
  assumes "\<And>y. y \<in> set ys \<Longrightarrow> c x y = cmp (f y) (f x)"
  shows "filter (\<lambda>z. k = f z) (insert_by c x ys) = filter (\<lambda>z. k = f z) (x # ys)"
    and "sorted_wrt (\<lambda>x y. f y \<le> f x) ys \<Longrightarrow> sorted_wrt (\<lambda>x y. f y \<le> f x) (insert_by c x ys)"
  using assms by (induction ys) (auto simp: cmp_def split: if_splits)

lemma sort_by_sort_desc:
  assumes "\<And>x y. x \<in> set xs \<Longrightarrow> y \<in> set xs \<Longrightarrow> c x y = cmp (f y) (f x)"
  shows "sort_by c xs = sort_desc_by f xs"
proof -
  have "(\<forall>k. filter (\<lambda>z. k = f z) (sort_by c xs) = filter (\<lambda>z. k = f z) xs)
      \<and> sorted_wrt (\<lambda>x y. f y \<le> f x) (sort_by c xs)"
    using assms
  proof (induction xs)
    case (Cons x xs)
    then have "\<And>y. y \<in> set (sort_by c xs) \<Longrightarrow> c x y = cmp (f y) (f x)" by simp
    note step = insert_by_desc [of "sort_by c xs" c x f, OF this]
    from Cons step show ?case by (simp add: sort_by_def)
  qed (simp add: sort_by_def)
  then have "sort_key f (rev xs) = rev (sort_by c xs)"
    by (intro properties_for_sort_key) (simp_all add: rev_filter [symmetric] sorted_map sorted_wrt_rev)
  then show ?thesis by (simp add: sort_desc_by_def)
qed

definition starts_with :: "string \<Rightarrow> string \<Rightarrow> bool" where
  "starts_with s p \<longleftrightarrow> take (length p) s = p"

lemma filter_fst_distinct: "distinct (map fst m) \<Longrightarrow> distinct (map fst (filter P m))"
  by (simp add: distinct_map_filter)

end
