(* ===== verification/Peat_Schema.thy ===== *)
theory Peat_Schema
  imports Peat_Prelude
begin

text \<open>
  The wire types of \<open>peat-schema/proto\<close> that several components share, as prost generates them:
  a message is a record, an optional message field an \<open>option\<close>, an enum field its \<open>i32\<close> number
  (an \<open>int\<close>). A \<open>float\<close> that is only carried is its 32-bit pattern.
\<close>

type_synonym f32_bits = "32 word"

record timestamp =
  seconds :: u64
  nanos :: u32

definition secs_or_0 :: "timestamp option \<Rightarrow> u64" where
  "secs_or_0 t = (case t of None \<Rightarrow> 0 | Some ts \<Rightarrow> seconds ts)"

definition timestamp_at :: "u64 \<Rightarrow> timestamp option" where
  "timestamp_at now = Some \<lparr>seconds = now, nanos = 0\<rparr>"

lemma secs_timestamp_at [simp]: "secs_or_0 (timestamp_at now) = now"
  by (simp add: secs_or_0_def timestamp_at_def)

datatype capability_type =
  CapUnspecified | CapSensor | CapCompute | CapCommunication | CapMobility | CapPayload | CapEmergent

fun capability_type_of_int :: "int \<Rightarrow> capability_type option" where
  "capability_type_of_int n =
     (if n = 0 then Some CapUnspecified else if n = 1 then Some CapSensor
      else if n = 2 then Some CapCompute else if n = 3 then Some CapCommunication
      else if n = 4 then Some CapMobility else if n = 5 then Some CapPayload
      else if n = 6 then Some CapEmergent else None)"

fun capability_type_to_int :: "capability_type \<Rightarrow> int" where
  "capability_type_to_int CapUnspecified = 0"
| "capability_type_to_int CapSensor = 1"
| "capability_type_to_int CapCompute = 2"
| "capability_type_to_int CapCommunication = 3"
| "capability_type_to_int CapMobility = 4"
| "capability_type_to_int CapPayload = 5"
| "capability_type_to_int CapEmergent = 6"

record capability =
  cap_id :: string
  cap_name :: string
  cap_type :: int
  cap_confidence :: f32_bits
  cap_metadata_json :: string
  cap_registered_at :: "timestamp option"

definition get_capability_type :: "capability \<Rightarrow> capability_type" where
  "get_capability_type c =
     (case capability_type_of_int (cap_type c) of None \<Rightarrow> CapUnspecified | Some t \<Rightarrow> t)"

definition set_capability_type :: "capability_type \<Rightarrow> capability \<Rightarrow> capability" where
  "set_capability_type t c = c\<lparr>cap_type := capability_type_to_int t\<rparr>"

lemma capability_type_roundtrip: "get_capability_type (set_capability_type t c) = t"
  by (cases t) (simp_all add: get_capability_type_def set_capability_type_def)

end
