(* ===== verification/Peat_Error.thy ===== *)
theory Peat_Error
  imports Peat_Prelude
begin

text \<open>
  The error type of \<open>peat-protocol/src/error.rs\<close>. A boxed \<open>source\<close> error is represented by its
  rendered text, and so is the \<open>serde_json::Error\<close> of a serialization error; no operation of the
  crate inspects either.
\<close>

datatype peat_error =
    EDiscovery string "string option"
  | ECellFormation string "string option" "string option"
  | EHierarchicalOp string string "string option"
  | EComposition string "string option" "string option"
  | EStorage string "string option" "string option" "string option"
  | ENetwork string "string option" "string option"
  | ESerialization string
  | EInvalidTransition string string string
  | ENotFound string string
  | EConfiguration string "string option" "string option"
  | ETimeout string u64
  | EDitto string "string option" "string option"
  | EInternal string
  | EInvalidInput string
  | EConflictDetected string
  | ESecurity string
  | EEventOp string string "string option"

datatype error_severity = SevCritical | SevError | SevWarning | SevInfo

record error_context =
  ec_key :: "string option"
  ec_operation :: "string option"
  ec_peer_id :: "string option"
  ec_cell_id :: "string option"
  ec_capability :: "string option"
  ec_duration_ms :: "u64 option"

definition error_context_default :: error_context where
  "error_context_default =
     \<lparr>ec_key = None, ec_operation = None, ec_peer_id = None, ec_cell_id = None,
      ec_capability = None, ec_duration_ms = None\<rparr>"

fun is_recoverable :: "peat_error \<Rightarrow> bool" where
  "is_recoverable (ETimeout _ _) = True"
| "is_recoverable (ENetwork _ _ _) = True"
| "is_recoverable (EStorage _ (Some op) _ _) = (op = ''query'' \<or> op = ''retrieve'')"
| "is_recoverable _ = False"

fun severity :: "peat_error \<Rightarrow> error_severity" where
  "severity (EInternal _) = SevCritical"
| "severity (EConfiguration _ _ _) = SevCritical"
| "severity (EInvalidTransition _ _ _) = SevError"
| "severity (ETimeout _ _) = SevWarning"
| "severity (ENetwork _ _ _) = SevWarning"
| "severity (ENotFound _ _) = SevInfo"
| "severity _ = SevError"

fun error_context_of :: "peat_error \<Rightarrow> error_context" where
  "error_context_of (EStorage _ operation key _) =
     error_context_default\<lparr>ec_key := key, ec_operation := operation\<rparr>"
| "error_context_of (ENetwork _ peer_id _) = error_context_default\<lparr>ec_peer_id := peer_id\<rparr>"
| "error_context_of (ECellFormation _ cell_id _) = error_context_default\<lparr>ec_cell_id := cell_id\<rparr>"
| "error_context_of (EComposition _ capability _) =
     error_context_default\<lparr>ec_capability := capability\<rparr>"
| "error_context_of (ETimeout operation duration_ms) =
     error_context_default\<lparr>ec_operation := Some operation, ec_duration_ms := Some duration_ms\<rparr>"
| "error_context_of _ = error_context_default"

lemma recoverable_not_critical: "is_recoverable e \<Longrightarrow> severity e \<noteq> SevCritical"
  by (cases e rule: is_recoverable.cases) simp_all

end
