(* ===== verification/Routing_Table.thy ===== *)
theory Routing_Table
  imports Peat_Prelude
begin

text \<open>
  The routing table of \<open>peat-protocol/src/hierarchy/routing_table.rs\<close>: which cell a node is in,
  which zone a cell is in, which node leads a cell. Each of the three maps is a last-write-wins
  map, and each interprets the contract \<open>lww_map\<close>; the replica merge and the cell merge and
  split operations are built from them.
\<close>


subsection \<open>State\<close>

record routing_table =
  node_to_cell :: "(string, string \<times> u64) hash_map"
  cell_to_zone :: "(string, string \<times> u64) hash_map"
  cell_leaders :: "(string, string \<times> u64) hash_map"

record routing_table_stats =
  node_count :: nat
  cell_count :: nat
  leader_count :: nat

definition new_routing_table :: routing_table where
  "new_routing_table = \<lparr>node_to_cell = [], cell_to_zone = [], cell_leaders = []\<rparr>"


subsection \<open>Operations\<close>

text \<open>The guard shared by the six writes: \<open>if let Some((_, existing_ts)) = map.get(key)\<close>.\<close>

definition assign_node :: "routing_table \<Rightarrow> string \<Rightarrow> string \<Rightarrow> u64 \<Rightarrow> routing_table \<times> bool" where
  "assign_node self node_id cell_id timestamp =
     (if (case hm_get (node_to_cell self) node_id of
            Some (_, existing_ts) \<Rightarrow> timestamp \<le> existing_ts
          | None \<Rightarrow> False)
      then (self, False)
      else (self\<lparr>node_to_cell := hm_insert node_id (cell_id, timestamp) (node_to_cell self)\<rparr>, True))"

definition remove_node :: "routing_table \<Rightarrow> string \<Rightarrow> u64 \<Rightarrow> routing_table \<times> bool" where
  "remove_node self node_id timestamp =
     (if (case hm_get (node_to_cell self) node_id of
            Some (_, existing_ts) \<Rightarrow> timestamp < existing_ts
          | None \<Rightarrow> False)
      then (self, False)
      else (self\<lparr>node_to_cell := hm_remove node_id (node_to_cell self)\<rparr>, True))"

definition assign_cell :: "routing_table \<Rightarrow> string \<Rightarrow> string \<Rightarrow> u64 \<Rightarrow> routing_table \<times> bool" where
  "assign_cell self cell_id zone_id timestamp =
     (if (case hm_get (cell_to_zone self) cell_id of
            Some (_, existing_ts) \<Rightarrow> timestamp \<le> existing_ts
          | None \<Rightarrow> False)
      then (self, False)
      else (self\<lparr>cell_to_zone := hm_insert cell_id (zone_id, timestamp) (cell_to_zone self)\<rparr>, True))"

definition remove_cell :: "routing_table \<Rightarrow> string \<Rightarrow> u64 \<Rightarrow> routing_table \<times> bool" where
  "remove_cell self cell_id timestamp =
     (if (case hm_get (cell_to_zone self) cell_id of
            Some (_, existing_ts) \<Rightarrow> timestamp < existing_ts
          | None \<Rightarrow> False)
      then (self, False)
      else (self\<lparr>cell_to_zone := hm_remove cell_id (cell_to_zone self)\<rparr>, True))"

definition set_cell_leader :: "routing_table \<Rightarrow> string \<Rightarrow> string \<Rightarrow> u64 \<Rightarrow> routing_table \<times> bool" where
  "set_cell_leader self cell_id leader_node_id timestamp =
     (if (case hm_get (cell_leaders self) cell_id of
            Some (_, existing_ts) \<Rightarrow> timestamp \<le> existing_ts
          | None \<Rightarrow> False)
      then (self, False)
      else (self\<lparr>cell_leaders := hm_insert cell_id (leader_node_id, timestamp) (cell_leaders self)\<rparr>,
            True))"

definition remove_cell_leader :: "routing_table \<Rightarrow> string \<Rightarrow> u64 \<Rightarrow> routing_table \<times> bool" where
  "remove_cell_leader self cell_id timestamp =
     (if (case hm_get (cell_leaders self) cell_id of
            Some (_, existing_ts) \<Rightarrow> timestamp < existing_ts
          | None \<Rightarrow> False)
      then (self, False)
      else (self\<lparr>cell_leaders := hm_remove cell_id (cell_leaders self)\<rparr>, True))"

definition get_node_cell :: "routing_table \<Rightarrow> string \<Rightarrow> string option" where
  "get_node_cell self node_id = map_option fst (hm_get (node_to_cell self) node_id)"

definition get_cell_zone :: "routing_table \<Rightarrow> string \<Rightarrow> string option" where
  "get_cell_zone self cell_id = map_option fst (hm_get (cell_to_zone self) cell_id)"

definition get_node_zone :: "routing_table \<Rightarrow> string \<Rightarrow> string option" where
  "get_node_zone self node_id =
     (case get_node_cell self node_id of None \<Rightarrow> None | Some cell_id \<Rightarrow> get_cell_zone self cell_id)"

definition is_cell_leader :: "routing_table \<Rightarrow> string \<Rightarrow> string \<Rightarrow> bool" where
  "is_cell_leader self node_id cell_id =
     (case hm_get (cell_leaders self) cell_id of
        None \<Rightarrow> False
      | Some (leader_id, _) \<Rightarrow> leader_id = node_id)"

definition get_cell_leader :: "routing_table \<Rightarrow> string \<Rightarrow> string option" where
  "get_cell_leader self cell_id = map_option fst (hm_get (cell_leaders self) cell_id)"

text \<open>\<open>merge\<close>: three loops over the maps of the other table, in their iteration order.\<close>

definition merge_routing_table :: "routing_table \<Rightarrow> routing_table \<Rightarrow> routing_table" where
  "merge_routing_table self other =
     (let s1 = fold (\<lambda>(node_id, cell_id, timestamp) s. fst (assign_node s node_id cell_id timestamp))
                 (node_to_cell other) self;
          s2 = fold (\<lambda>(cell_id, zone_id, timestamp) s. fst (assign_cell s cell_id zone_id timestamp))
                 (cell_to_zone other) s1
      in fold (\<lambda>(cell_id, leader_id, timestamp) s. fst (set_cell_leader s cell_id leader_id timestamp))
           (cell_leaders other) s2)"

definition stats_routing_table :: "routing_table \<Rightarrow> routing_table_stats" where
  "stats_routing_table self =
     \<lparr>node_count = length (node_to_cell self), cell_count = length (cell_to_zone self),
      leader_count = length (cell_leaders self)\<rparr>"

definition get_cell_nodes :: "routing_table \<Rightarrow> string \<Rightarrow> string list" where
  "get_cell_nodes self cell_id =
     map fst (filter (\<lambda>(_, cid, _). cid = cell_id) (node_to_cell self))"

definition get_zone_cells :: "routing_table \<Rightarrow> string \<Rightarrow> string list" where
  "get_zone_cells self zone_id =
     map fst (filter (\<lambda>(_, zid, _). zid = zone_id) (cell_to_zone self))"

text \<open>The reassignment loop of \<open>merge_cells\<close> and \<open>split_cell\<close>, counting the applied writes.\<close>

definition reassign_nodes ::
    "string \<Rightarrow> u64 \<Rightarrow> string list \<Rightarrow> routing_table \<times> nat \<Rightarrow> routing_table \<times> nat" where
  "reassign_nodes cell_id timestamp nodes st =
     fold (\<lambda>node_id (s, n). case assign_node s node_id cell_id timestamp of
                              (s', applied) \<Rightarrow> (s', if applied then n + 1 else n))
       nodes st"

definition drop_cell :: "u64 \<Rightarrow> string \<Rightarrow> routing_table \<Rightarrow> routing_table" where
  "drop_cell timestamp cell_id s =
     fst (remove_cell_leader (fst (remove_cell s cell_id timestamp)) cell_id timestamp)"

definition merge_cells_rt ::
    "routing_table \<Rightarrow> string list \<Rightarrow> string \<Rightarrow> string option \<Rightarrow> u64 \<Rightarrow> routing_table \<times> nat" where
  "merge_cells_rt self source_cell_ids merged_cell_id zone_id timestamp =
     (let nodes_to_reassign =
            concat (map (\<lambda>cell_id. map fst (filter (\<lambda>(_, cid, _). cid = cell_id) (node_to_cell self)))
                      source_cell_ids);
          (s1, reassigned_count) = reassign_nodes merged_cell_id timestamp nodes_to_reassign (self, 0);
          s2 = (case zone_id of None \<Rightarrow> s1 | Some zid \<Rightarrow> fst (assign_cell s1 merged_cell_id zid timestamp));
          s3 = fold (drop_cell timestamp) source_cell_ids s2
      in (s3, reassigned_count))"

definition split_cell_rt ::
    "routing_table \<Rightarrow> string \<Rightarrow> string \<Rightarrow> string \<Rightarrow> string list \<Rightarrow> string list \<Rightarrow> string option \<Rightarrow> u64 \<Rightarrow>
     routing_table \<times> nat \<times> nat" where
  "split_cell_rt self source_cell_id cell_a_id cell_b_id nodes_for_a nodes_for_b zone_id timestamp =
     (let (s1, count_a) = reassign_nodes cell_a_id timestamp nodes_for_a (self, 0);
          (s2, count_b) = reassign_nodes cell_b_id timestamp nodes_for_b (s1, 0);
          s3 = (case zone_id of
                  None \<Rightarrow> s2
                | Some zid \<Rightarrow> fst (assign_cell (fst (assign_cell s2 cell_a_id zid timestamp))
                                     cell_b_id zid timestamp));
          s4 = drop_cell timestamp source_cell_id s3
      in (s4, count_a, count_b))"


subsection \<open>The three last-write-wins maps\<close>

definition node_entry :: "routing_table \<Rightarrow> string \<Rightarrow> (string \<times> u64) option" where
  "node_entry t = hm_get (node_to_cell t)"

definition cell_entry :: "routing_table \<Rightarrow> string \<Rightarrow> (string \<times> u64) option" where
  "cell_entry t = hm_get (cell_to_zone t)"

definition leader_entry :: "routing_table \<Rightarrow> string \<Rightarrow> (string \<times> u64) option" where
  "leader_entry t = hm_get (cell_leaders t)"

lemmas entry_defs = node_entry_def cell_entry_def leader_entry_def

interpretation nodes: lww_map node_entry assign_node remove_node
  by unfold_locales
     (auto simp: node_entry_def assign_node_def remove_node_def lww_newer_def lww_not_older_def
           split: option.splits)

interpretation cells: lww_map cell_entry assign_cell remove_cell
  by unfold_locales
     (auto simp: cell_entry_def assign_cell_def remove_cell_def lww_newer_def lww_not_older_def
           split: option.splits)

interpretation leaders: lww_map leader_entry set_cell_leader remove_cell_leader
  by unfold_locales
     (auto simp: leader_entry_def set_cell_leader_def remove_cell_leader_def lww_newer_def
           lww_not_older_def split: option.splits)

text \<open>Each write leaves the other two maps alone.\<close>

lemma assign_node_frame [simp, frame_simps]:
  "cell_entry (fst (assign_node t k v ts)) = cell_entry t"
  "leader_entry (fst (assign_node t k v ts)) = leader_entry t"
  by (auto simp: assign_node_def entry_defs)

lemma assign_cell_frame [simp, frame_simps]:
  "node_entry (fst (assign_cell t k v ts)) = node_entry t"
  "leader_entry (fst (assign_cell t k v ts)) = leader_entry t"
  by (auto simp: assign_cell_def entry_defs)

lemma set_cell_leader_frame [simp, frame_simps]:
  "node_entry (fst (set_cell_leader t k v ts)) = node_entry t"
  "cell_entry (fst (set_cell_leader t k v ts)) = cell_entry t"
  by (auto simp: set_cell_leader_def entry_defs)

lemma drop_cell_frame [simp, frame_simps]: "node_entry (drop_cell ts c t) = node_entry t"
  by (auto simp: drop_cell_def remove_cell_leader_def remove_cell_def entry_defs)

lemma fold_frame:
  assumes "\<And>x s. f (g x s) = f s"
  shows "f (fold g xs s) = f s"
  by (induction xs arbitrary: s) (simp_all add: assms)


subsection \<open>Well-formedness: the maps have one entry per key\<close>

definition rt_wf :: "routing_table \<Rightarrow> bool" where
  "rt_wf t \<longleftrightarrow> hm_wf (node_to_cell t) \<and> hm_wf (cell_to_zone t) \<and> hm_wf (cell_leaders t)"

lemma rt_wf_new: "rt_wf new_routing_table"
  by (simp add: rt_wf_def new_routing_table_def)

lemma rt_wf_writes:
  assumes "rt_wf t"
  shows "rt_wf (fst (assign_node t k v ts))" "rt_wf (fst (remove_node t k ts))"
    and "rt_wf (fst (assign_cell t k v ts))" "rt_wf (fst (remove_cell t k ts))"
    and "rt_wf (fst (set_cell_leader t k v ts))" "rt_wf (fst (remove_cell_leader t k ts))"
  using assms
  by (simp_all add: rt_wf_def assign_node_def remove_node_def assign_cell_def remove_cell_def
        set_cell_leader_def remove_cell_leader_def)

lemma rt_wf_fold: "(\<And>x s. rt_wf s \<Longrightarrow> rt_wf (g x s)) \<Longrightarrow> rt_wf s \<Longrightarrow> rt_wf (fold g xs s)"
  by (induction xs arbitrary: s) simp_all

lemma rt_wf_merge: "rt_wf a \<Longrightarrow> rt_wf (merge_routing_table a b)"
  by (simp add: merge_routing_table_def Let_def rt_wf_fold rt_wf_writes case_prod_beta)

lemma rt_wf_drop_cell: "rt_wf t \<Longrightarrow> rt_wf (drop_cell ts c t)"
  by (simp add: drop_cell_def rt_wf_writes)

lemma rt_wf_reassign: "rt_wf (fst st) \<Longrightarrow> rt_wf (fst (reassign_nodes c ts ns st))"
  unfolding reassign_nodes_def
  by (induction ns arbitrary: st)
     (auto simp: case_prod_beta rt_wf_writes(1) split: prod.splits
       dest: rt_wf_writes(1))

lemma rt_wf_merge_cells: "rt_wf t \<Longrightarrow> rt_wf (fst (merge_cells_rt t srcs c z ts))"
  using rt_wf_reassign [of "(t, 0)"]
  by (auto simp: merge_cells_rt_def Let_def case_prod_beta rt_wf_fold rt_wf_drop_cell
        rt_wf_writes split: option.splits)

lemma rt_wf_split_cell: "rt_wf t \<Longrightarrow> rt_wf (fst (split_cell_rt t src a b na nb z ts))"
  by (auto simp: split_cell_rt_def Let_def case_prod_beta rt_wf_drop_cell rt_wf_writes
        rt_wf_reassign split: option.splits)


subsection \<open>Merge\<close>

lemma absorb_frames [simp, frame_simps]:
  "cell_entry (fold (\<lambda>(k, v, t) s. fst (assign_node s k v t)) m s) = cell_entry s"
  "leader_entry (fold (\<lambda>(k, v, t) s. fst (assign_node s k v t)) m s) = leader_entry s"
  "node_entry (fold (\<lambda>(k, v, t) s. fst (assign_cell s k v t)) m s) = node_entry s"
  "leader_entry (fold (\<lambda>(k, v, t) s. fst (assign_cell s k v t)) m s) = leader_entry s"
  "node_entry (fold (\<lambda>(k, v, t) s. fst (set_cell_leader s k v t)) m s) = node_entry s"
  "cell_entry (fold (\<lambda>(k, v, t) s. fst (set_cell_leader s k v t)) m s) = cell_entry s"
  by (rule fold_frame; auto)+

lemma merge_entries:
  assumes "rt_wf b"
  shows merge_node_entry:
      "node_entry (merge_routing_table a b) k = lww_join (node_entry a k) (node_entry b k)"
    and merge_cell_entry:
      "cell_entry (merge_routing_table a b) k = lww_join (cell_entry a k) (cell_entry b k)"
    and merge_leader_entry:
      "leader_entry (merge_routing_table a b) k = lww_join (leader_entry a k) (leader_entry b k)"
  using assms
  by (simp_all add: merge_routing_table_def Let_def nodes.absorb_entry cells.absorb_entry
        leaders.absorb_entry rt_wf_def hm_wf_def entry_defs [of b] hm_get_def)

text \<open>Two tables route alike when they hold the same entries, in whatever order.\<close>

definition same_routes :: "routing_table \<Rightarrow> routing_table \<Rightarrow> bool" where
  "same_routes a b \<longleftrightarrow>
     node_entry a = node_entry b \<and> cell_entry a = cell_entry b \<and> leader_entry a = leader_entry b"

definition tie_free :: "routing_table \<Rightarrow> routing_table \<Rightarrow> bool" where
  "tie_free a b \<longleftrightarrow>
     (\<forall>k. \<not> lww_tie (node_entry a k) (node_entry b k) \<and> \<not> lww_tie (cell_entry a k) (cell_entry b k) \<and>
          \<not> lww_tie (leader_entry a k) (leader_entry b k))"

definition merge_all :: "routing_table \<Rightarrow> routing_table list \<Rightarrow> routing_table" where
  "merge_all t ts = fold (\<lambda>b a. merge_routing_table a b) ts t"

lemma merge_all_entries:
  assumes "\<forall>b \<in> set ts. rt_wf b"
  shows "node_entry (merge_all t ts) k = fold (\<lambda>b e. lww_join e (node_entry b k)) ts (node_entry t k)"
    and "cell_entry (merge_all t ts) k = fold (\<lambda>b e. lww_join e (cell_entry b k)) ts (cell_entry t k)"
    and "leader_entry (merge_all t ts) k =
           fold (\<lambda>b e. lww_join e (leader_entry b k)) ts (leader_entry t k)"
  using assms unfolding merge_all_def
  by (induction ts arbitrary: t) (simp_all add: merge_entries)

text \<open>
  C1. Convergence of the replicated routing table: merging the same tables in any order gives the
  same routes, provided no two of them hold different values for a key under the same timestamp.
\<close>

theorem merge_order_irrelevant:
  assumes "\<forall>b \<in> set ts. rt_wf b"
    and "\<forall>a \<in> set ts. \<forall>b \<in> set ts. tie_free a b"
    and "mset ts = mset us"
  shows "same_routes (merge_all t ts) (merge_all t us)"
proof -
  from assms(3) have "set us = set ts" by (metis set_mset_mset)
  with assms(1) have wf: "\<forall>b \<in> set us. rt_wf b" by simp
  have "fold (\<lambda>b e. lww_join e (f b k)) ts = fold (\<lambda>b e. lww_join e (f b k)) us"
    if "f = node_entry \<or> f = cell_entry \<or> f = leader_entry" for f and k
    using assms(2) that by (intro fold_lww_join_permute [OF _ assms(3)]) (auto simp: tie_free_def)
  then show ?thesis
    by (simp add: same_routes_def fun_eq_iff merge_all_entries [OF assms(1)] merge_all_entries [OF wf])
qed

text \<open>
  Merge is a join: idempotent, associative, and each entry of the result is the entry of one of
  the two tables, at a timestamp no older than either.
\<close>

theorem merge_is_lww_join:
  assumes "rt_wf a" "rt_wf b" "rt_wf c"
  shows "same_routes (merge_routing_table a a) a \<and>
         same_routes (merge_routing_table (merge_routing_table a b) c)
                     (merge_routing_table a (merge_routing_table b c)) \<and>
         (\<forall>n cell ts. node_entry (merge_routing_table a b) n = Some (cell, ts) \<longrightarrow>
            (node_entry a n = Some (cell, ts) \<or> node_entry b n = Some (cell, ts)) \<and>
            (\<forall>cell' ts'. node_entry a n = Some (cell', ts') \<or> node_entry b n = Some (cell', ts') \<longrightarrow>
               ts' \<le> ts))"
proof -
  have "node_entry a n = Some (cell, ts) \<or> node_entry b n = Some (cell, ts)"
    if "node_entry (merge_routing_table a b) n = Some (cell, ts)" for n cell ts
    using that by (cases "node_entry b n"; cases "node_entry a n")
      (auto simp: merge_entries assms split: if_splits)
  moreover have "ts' \<le> ts"
    if "node_entry (merge_routing_table a b) n = Some (cell, ts)"
      and "node_entry a n = Some (cell', ts') \<or> node_entry b n = Some (cell', ts')"
    for n cell ts cell' ts'
    using lww_join_ts [of "node_entry a n" "node_entry b n" cell ts] that
    by (auto simp: merge_entries assms)
  ultimately show ?thesis
    using assms by (auto simp: same_routes_def merge_entries rt_wf_merge lww_join_assoc)
qed


definition example_alpha :: routing_table where
  "example_alpha =
     \<lparr>node_to_cell = [(''n1'', ''alpha'', 5), (''n2'', ''alpha'', 7)],
      cell_to_zone = [(''alpha'', ''north'', 3)], cell_leaders = [(''alpha'', ''n1'', 4)]\<rparr>"

definition example_beta :: routing_table where
  "example_beta =
     \<lparr>node_to_cell = [(''n2'', ''beta'', 9), (''n3'', ''beta'', 2)],
      cell_to_zone = [(''beta'', ''north'', 1)], cell_leaders = [(''beta'', ''n3'', 6)]\<rparr>"

lemma example_wf: "rt_wf example_alpha" "rt_wf example_beta"
  by (simp_all add: rt_wf_def example_alpha_def example_beta_def hm_wf_def)

lemma example_tie_free:
  "tie_free example_alpha example_beta" "tie_free example_beta example_alpha"
  "tie_free example_alpha example_alpha" "tie_free example_beta example_beta"
  by (auto simp: tie_free_def lww_tie_def entry_defs example_alpha_def example_beta_def hm_get_Cons)

theorem merge_order_irrelevant_witness:
  "same_routes (merge_all new_routing_table [example_alpha, example_beta])
               (merge_all new_routing_table [example_beta, example_alpha])
   \<and> get_node_cell (merge_all new_routing_table [example_beta, example_alpha]) ''n2'' = Some ''beta''"
proof
  show "same_routes (merge_all new_routing_table [example_alpha, example_beta])
                    (merge_all new_routing_table [example_beta, example_alpha])"
    by (rule merge_order_irrelevant) (simp_all add: example_wf example_tie_free add_mset_commute)
  show "get_node_cell (merge_all new_routing_table [example_beta, example_alpha]) ''n2'' = Some ''beta''"
    by code_simp
qed

theorem merge_is_lww_join_witness:
  "same_routes (merge_routing_table example_alpha example_alpha) example_alpha
   \<and> node_entry (merge_routing_table example_alpha example_beta) ''n2'' = Some (''beta'', 9)"
proof
  show "same_routes (merge_routing_table example_alpha example_alpha) example_alpha"
    using merge_is_lww_join [OF example_wf(1,2,1)] by simp
  show "node_entry (merge_routing_table example_alpha example_beta) ''n2'' = Some (''beta'', 9)"
    by code_simp
qed

text \<open>
  The precondition of C1 is needed: two replicas that hold different values under the same
  timestamp each keep their own value, so merging in the two orders leaves them apart for good.
\<close>

theorem merge_tie_diverges:
  assumes "rt_wf a" "rt_wf b" "lww_tie (node_entry a n) (node_entry b n)"
  shows "node_entry (merge_routing_table a b) n \<noteq> node_entry (merge_routing_table b a) n
         \<and> node_entry (merge_routing_table (merge_routing_table a b) (merge_routing_table b a)) n
             = node_entry a n"
proof -
  from assms(3) have tie: "lww_tie (node_entry b n) (node_entry a n)"
    by (auto simp: lww_tie_def)
  have "node_entry a n \<noteq> node_entry b n"
    using assms(3) by (auto simp: lww_tie_def)
  then show ?thesis
    using assms tie by (simp add: merge_entries rt_wf_merge lww_join_tie)
qed

definition example_gamma :: routing_table where
  "example_gamma =
     \<lparr>node_to_cell = [(''n1'', ''gamma'', 5)], cell_to_zone = [], cell_leaders = []\<rparr>"

theorem merge_tie_diverges_witness:
  "node_entry (merge_routing_table example_alpha example_gamma) ''n1''
     \<noteq> node_entry (merge_routing_table example_gamma example_alpha) ''n1''"
proof -
  have "rt_wf example_gamma"
    by (simp add: rt_wf_def example_gamma_def hm_wf_def)
  moreover have "lww_tie (node_entry example_alpha ''n1'') (node_entry example_gamma ''n1'')"
    by (simp add: lww_tie_def entry_defs example_alpha_def example_gamma_def hm_get_Cons)
  ultimately show ?thesis
    using merge_tie_diverges [OF example_wf(1)] by blast
qed


subsection \<open>Removal leaves no tombstone\<close>

text \<open>
  A removal is not a last-write-wins write: it leaves nothing behind, so the next merge with a
  replica that still holds the node brings the old assignment back, however new the removal was.
\<close>

theorem removed_node_resurrected:
  assumes "rt_wf b" and "snd (remove_node t n ts_removed)" and "node_entry b n = Some (cell, ts_old)"
  shows "node_entry (fst (remove_node t n ts_removed)) n = None
         \<and> node_entry (merge_routing_table (fst (remove_node t n ts_removed)) b) n = Some (cell, ts_old)"
  using assms by (simp add: merge_entries nodes.entry_remove nodes.remove_applied)

theorem removed_node_resurrected_witness:
  "node_entry (merge_routing_table (fst (remove_node example_alpha ''n1'' 100)) example_alpha) ''n1''
     = Some (''alpha'', 5)"
proof -
  have "snd (remove_node example_alpha ''n1'' 100)" by code_simp
  moreover have "node_entry example_alpha ''n1'' = Some (''alpha'', 5)" by code_simp
  ultimately show ?thesis
    using removed_node_resurrected [OF example_wf(1)] by blast
qed


subsection \<open>Merging and splitting cells\<close>

lemma reassign_nodes_entry:
  "node_entry (fst (reassign_nodes c ts ns st)) x =
     (if x \<in> set ns \<and> lww_newer ts (node_entry (fst st) x) then Some (c, ts) else node_entry (fst st) x)"
proof (induction ns arbitrary: st)
  case Nil
  then show ?case by (simp add: reassign_nodes_def)
next
  case (Cons n ns)
  let ?st = "(fst (assign_node (fst st) n c ts), if snd (assign_node (fst st) n c ts) then snd st + 1 else snd st)"
  have step: "reassign_nodes c ts (n # ns) st = reassign_nodes c ts ns ?st"
    by (simp add: reassign_nodes_def case_prod_beta)
  show ?case
    unfolding step Cons.IH by (auto simp: nodes.entry_assign lww_newer_def)
qed

lemma reassign_nodes_count:
  "snd (reassign_nodes c ts ns st) = snd st + card {x \<in> set ns. lww_newer ts (node_entry (fst st) x)}"
proof (induction ns arbitrary: st)
  case Nil
  then show ?case by (simp add: reassign_nodes_def)
next
  case (Cons n ns)
  let ?new = "lww_newer ts (node_entry (fst st) n)"
  let ?A = "{x \<in> set (n # ns). lww_newer ts (node_entry (fst st) x)}"
  let ?st = "(fst (assign_node (fst st) n c ts), if ?new then snd st + 1 else snd st)"
  have step: "reassign_nodes c ts (n # ns) st = reassign_nodes c ts ns ?st"
    by (simp add: reassign_nodes_def case_prod_beta nodes.assign_applied)
  show ?case
  proof (cases ?new)
    case True
    then have "{x \<in> set ns. lww_newer ts (node_entry (fst ?st) x)} = ?A - {n}"
      by (auto simp: nodes.entry_assign lww_newer_def)
    moreover have "card ?A = Suc (card (?A - {n}))"
      using True by (intro card.remove) simp_all
    ultimately show ?thesis
      unfolding step Cons.IH using True by simp
  next
    case False
    then have "{x \<in> set ns. lww_newer ts (node_entry (fst ?st) x)} = ?A"
      by (auto simp: nodes.entry_assign)
    then show ?thesis
      unfolding step Cons.IH using False by simp
  qed
qed

lemma reassign_nodes_frame [simp, frame_simps]:
  "cell_entry (fst (reassign_nodes c ts ns st)) = cell_entry (fst st)"
  "leader_entry (fst (reassign_nodes c ts ns st)) = leader_entry (fst st)"
  unfolding reassign_nodes_def
  by (induction ns arbitrary: st) (simp_all add: case_prod_beta)

lemma set_get_cell_nodes:
  "rt_wf t \<Longrightarrow> set (get_cell_nodes t c) = {n. get_node_cell t n = Some c}"
  by (force simp: get_cell_nodes_def get_node_cell_def rt_wf_def hm_get_Some_iff)

lemma distinct_get_cell_nodes: "rt_wf t \<Longrightarrow> distinct (get_cell_nodes t c)"
  by (simp add: get_cell_nodes_def rt_wf_def hm_wf_def distinct_map_filter)

lemma get_node_cell_entry: "get_node_cell t n = map_option fst (node_entry t n)"
  by (simp add: get_node_cell_def node_entry_def)

lemma merge_cells_parts:
  "merge_cells_rt t srcs c z ts =
     (let nodes = concat (map (get_cell_nodes t) srcs);
          s1 = fst (reassign_nodes c ts nodes (t, 0));
          s2 = (case z of None \<Rightarrow> s1 | Some zid \<Rightarrow> fst (assign_cell s1 c zid ts))
      in (fold (drop_cell ts) srcs s2, snd (reassign_nodes c ts nodes (t, 0))))"
  by (simp add: merge_cells_rt_def get_cell_nodes_def [abs_def] Let_def case_prod_beta)

lemma merge_cells_node_entry:
  "node_entry (fst (merge_cells_rt t srcs c z ts)) =
     node_entry (fst (reassign_nodes c ts (concat (map (get_cell_nodes t) srcs)) (t, 0)))"
  by (simp add: merge_cells_parts Let_def fold_frame [where f = node_entry] split: option.splits)

text \<open>
  \<open>merge_cells\<close> moves exactly the nodes of the source cells into the merged cell and counts each
  once, when its timestamp is newer than the assignments of those nodes; all other nodes stay.
\<close>

theorem merge_cells_moves_members:
  assumes "rt_wf t"
    and fresh: "\<forall>n cell ts'. node_entry t n = Some (cell, ts') \<and> cell \<in> set srcs \<longrightarrow> ts' < ts"
  shows "(\<forall>n. get_node_cell (fst (merge_cells_rt t srcs merged zone ts)) n =
            (if get_node_cell t n \<in> Some ` set srcs then Some merged else get_node_cell t n))
         \<and> snd (merge_cells_rt t srcs merged zone ts) = card {n. get_node_cell t n \<in> Some ` set srcs}"
proof -
  let ?ns = "concat (map (get_cell_nodes t) srcs)"
  have ns: "set ?ns = {n. get_node_cell t n \<in> Some ` set srcs}"
    by (auto simp: set_get_cell_nodes [OF assms(1)])
  have newer: "lww_newer ts (node_entry t n)" if "n \<in> set ?ns" for n
    using that fresh unfolding ns by (auto simp: get_node_cell_entry lww_newer_def)
  have "get_node_cell (fst (merge_cells_rt t srcs merged zone ts)) n =
      (if n \<in> set ?ns then Some merged else get_node_cell t n)" for n
    using newer [of n] by (auto simp: get_node_cell_entry merge_cells_node_entry reassign_nodes_entry)
  moreover have "{x \<in> set ?ns. lww_newer ts (node_entry t x)} = set ?ns"
    using newer by auto
  moreover have "snd (merge_cells_rt t srcs merged zone ts) =
      card {x \<in> set ?ns. lww_newer ts (node_entry t x)}"
    by (simp add: merge_cells_parts Let_def reassign_nodes_count)
  ultimately show ?thesis
    by (simp only: ns) simp
qed

theorem merge_cells_moves_members_witness:
  "get_node_cell (fst (merge_cells_rt example_alpha [''alpha''] ''merged'' (Some ''north'') 10)) ''n2''
     = Some ''merged''
   \<and> snd (merge_cells_rt example_alpha [''alpha''] ''merged'' (Some ''north'') 10) = 2"
proof
  have "\<forall>n cell ts'. node_entry example_alpha n = Some (cell, ts') \<and> cell \<in> set [''alpha''] \<longrightarrow>
          ts' < (10 :: u64)"
    by (auto simp: entry_defs example_alpha_def hm_get_Cons)
  from merge_cells_moves_members [OF example_wf(1) this, of "''merged''" "Some ''north''"]
  show "get_node_cell (fst (merge_cells_rt example_alpha [''alpha''] ''merged'' (Some ''north'') 10)) ''n2''
          = Some ''merged''"
    by (auto simp: get_node_cell_def example_alpha_def hm_get_Cons)
  show "snd (merge_cells_rt example_alpha [''alpha''] ''merged'' (Some ''north'') 10) = 2"
    by code_simp
qed


lemma split_cell_parts:
  "split_cell_rt t src a b na nb z ts =
     (let r1 = reassign_nodes a ts na (t, 0); r2 = reassign_nodes b ts nb (fst r1, 0);
          s3 = (case z of None \<Rightarrow> fst r2
                | Some zid \<Rightarrow> fst (assign_cell (fst (assign_cell (fst r2) a zid ts)) b zid ts))
      in (drop_cell ts src s3, snd r1, snd r2))"
  by (simp add: split_cell_rt_def Let_def case_prod_beta)

lemma split_cell_node_entry:
  "node_entry (fst (split_cell_rt t src a b na nb z ts)) =
     node_entry (fst (reassign_nodes b ts nb (fst (reassign_nodes a ts na (t, 0)), 0)))"
  by (simp add: split_cell_parts Let_def split: option.splits)

text \<open>
  \<open>split_cell\<close> with a timestamp newer than the assignments of the listed nodes sends the first
  list to cell A and the rest of the second list to cell B, counts them, leaves every other node
  alone, and, when the two lists cover the source cell, empties it.
\<close>

theorem split_cell_partitions:
  assumes "rt_wf t"
    and fresh: "\<forall>n \<in> set na \<union> set nb. lww_newer ts (node_entry t n)"
    and covers: "{n. get_node_cell t n = Some src} \<subseteq> set na \<union> set nb"
    and "a \<noteq> src" "b \<noteq> src"
  shows "(\<forall>n. get_node_cell (fst (split_cell_rt t src a b na nb zone ts)) n =
            (if n \<in> set na then Some a else if n \<in> set nb then Some b else get_node_cell t n))
         \<and> snd (split_cell_rt t src a b na nb zone ts) = (card (set na), card (set nb - set na))
         \<and> get_cell_nodes (fst (split_cell_rt t src a b na nb zone ts)) src = []"
proof -
  let ?t' = "fst (split_cell_rt t src a b na nb zone ts)"
  let ?r1 = "reassign_nodes a ts na (t, 0)"
  have r1: "node_entry (fst ?r1) n = (if n \<in> set na then Some (a, ts) else node_entry t n)" for n
    using fresh by (simp add: reassign_nodes_entry)
  have entries: "node_entry ?t' n =
      (if n \<in> set na then Some (a, ts) else if n \<in> set nb then Some (b, ts) else node_entry t n)" for n
    using fresh by (simp add: split_cell_node_entry reassign_nodes_entry [of _ _ nb] r1 lww_newer_def)
  then have moved: "get_node_cell ?t' n =
      (if n \<in> set na then Some a else if n \<in> set nb then Some b else get_node_cell t n)" for n
    by (simp add: get_node_cell_entry)
  have "{x \<in> set na. lww_newer ts (node_entry t x)} = set na"
    and "{x \<in> set nb. lww_newer ts (node_entry (fst ?r1) x)} = set nb - set na"
    using fresh by (auto simp: r1 lww_newer_def)
  then have counts: "snd (split_cell_rt t src a b na nb zone ts) = (card (set na), card (set nb - set na))"
    by (simp add: split_cell_parts Let_def reassign_nodes_count)
  have "set (get_cell_nodes ?t' src) = {n. get_node_cell ?t' n = Some src}"
    by (rule set_get_cell_nodes) (rule rt_wf_split_cell [OF assms(1)])
  also have "\<dots> = {}"
    using covers assms(4,5) by (auto simp: moved)
  finally show ?thesis
    using moved counts by simp
qed

theorem split_cell_partitions_witness:
  "get_node_cell (fst (split_cell_rt example_alpha ''alpha'' ''a1'' ''a2'' [''n1''] [''n2''] None 10)) ''n2''
     = Some ''a2''
   \<and> get_cell_nodes (fst (split_cell_rt example_alpha ''alpha'' ''a1'' ''a2'' [''n1''] [''n2''] None 10))
        ''alpha'' = []"
proof -
  have fresh: "\<forall>n \<in> set [''n1''] \<union> set [''n2'']. lww_newer 10 (node_entry example_alpha n)"
    by (simp add: entry_defs example_alpha_def hm_get_Cons lww_newer_def)
  have covers: "{n. get_node_cell example_alpha n = Some ''alpha''} \<subseteq> set [''n1''] \<union> set [''n2'']"
    by (auto simp: get_node_cell_def example_alpha_def hm_get_Cons split: if_splits)
  from split_cell_partitions [OF example_wf(1) fresh covers, of "''a1''" "''a2''" None]
  show ?thesis by simp
qed

end
