(* ===== verification/Cell_State.thy ===== *)
theory Cell_State
  imports Peat_Schema
begin

text \<open>
  The cell of \<open>peat-protocol/src/models/cell/mod.rs\<close>: its members, leader, aggregated capabilities
  and cohort, the operations of \<open>CellStateExt\<close>, and the replica merge. \<open>now\<close> is the reading of the
  system clock that \<open>update_timestamp\<close> takes, in seconds.
\<close>


subsection \<open>State and operations\<close>

record cell_config =
  cc_id :: string
  cc_max_size :: u32
  cc_min_size :: u32
  cc_created_at :: "timestamp option"

record cell_state =
  cs_config :: "cell_config option"
  cs_leader_id :: "string option"
  cs_members :: "string list"
  cs_capabilities :: "capability list"
  cs_cohort_id :: "string option"
  cs_timestamp :: "timestamp option"

text \<open>\<open>CellConfig::with_id\<close>; \<open>CellConfig::new\<close> is the same with a fresh UUID for \<open>id\<close>.\<close>

definition cell_config_with_id :: "u64 \<Rightarrow> string \<Rightarrow> u32 \<Rightarrow> cell_config" where
  "cell_config_with_id now cell_id max_size =
     \<lparr>cc_id = cell_id, cc_max_size = max_size, cc_min_size = 2, cc_created_at = timestamp_at now\<rparr>"

definition cell_config_new :: "u64 \<Rightarrow> string \<Rightarrow> u32 \<Rightarrow> cell_config" where
  "cell_config_new now uuid max_size =
     \<lparr>cc_id = uuid, cc_max_size = max_size, cc_min_size = 2, cc_created_at = timestamp_at now\<rparr>"

definition cell_new :: "u64 \<Rightarrow> cell_config \<Rightarrow> cell_state" where
  "cell_new now config =
     \<lparr>cs_config = Some config, cs_leader_id = None, cs_members = [], cs_capabilities = [],
      cs_cohort_id = None, cs_timestamp = timestamp_at now\<rparr>"

definition cell_update_timestamp :: "u64 \<Rightarrow> cell_state \<Rightarrow> cell_state" where
  "cell_update_timestamp now self = self\<lparr>cs_timestamp := timestamp_at now\<rparr>"

definition cell_is_full :: "cell_state \<Rightarrow> bool" where
  "cell_is_full self =
     (case cs_config self of
        Some config \<Rightarrow> length (cs_members self) \<ge> unat (cc_max_size config)
      | None \<Rightarrow> False)"

definition cell_is_valid :: "cell_state \<Rightarrow> bool" where
  "cell_is_valid self =
     (case cs_config self of
        Some config \<Rightarrow> length (cs_members self) \<ge> unat (cc_min_size config)
      | None \<Rightarrow> False)"

definition add_member :: "u64 \<Rightarrow> string \<Rightarrow> cell_state \<Rightarrow> cell_state \<times> bool" where
  "add_member now node_id self =
     (if cell_is_full self then (self, False)
      else if node_id \<in> set (cs_members self) then (self, False)
      else (cell_update_timestamp now (self\<lparr>cs_members := cs_members self @ [node_id]\<rparr>), True))"

definition remove_member :: "u64 \<Rightarrow> string \<Rightarrow> cell_state \<Rightarrow> cell_state \<times> bool" where
  "remove_member now node_id self =
     (if node_id \<in> set (cs_members self)
      then (let s1 = cell_update_timestamp now (self\<lparr>cs_members := remove1 node_id (cs_members self)\<rparr>)
            in (if cs_leader_id s1 = Some node_id then s1\<lparr>cs_leader_id := None\<rparr> else s1, True))
      else (self, False))"

definition set_leader :: "u64 \<Rightarrow> string \<Rightarrow> cell_state \<Rightarrow> string + cell_state" where
  "set_leader now node_id self =
     (if node_id \<notin> set (cs_members self) then Inl ''Leader must be a cell member''
      else Inr (cell_update_timestamp now (self\<lparr>cs_leader_id := Some node_id\<rparr>)))"

definition clear_leader :: "u64 \<Rightarrow> cell_state \<Rightarrow> cell_state" where
  "clear_leader now self = cell_update_timestamp now (self\<lparr>cs_leader_id := None\<rparr>)"

definition cell_add_capability :: "u64 \<Rightarrow> capability \<Rightarrow> cell_state \<Rightarrow> cell_state" where
  "cell_add_capability now capability self =
     (if \<not> list_ex (\<lambda>c. cap_id c = cap_id capability) (cs_capabilities self)
      then cell_update_timestamp now (self\<lparr>cs_capabilities := cs_capabilities self @ [capability]\<rparr>)
      else self)"

definition get_capabilities_by_type :: "capability_type \<Rightarrow> cell_state \<Rightarrow> capability list" where
  "get_capabilities_by_type t self = filter (\<lambda>c. get_capability_type c = t) (cs_capabilities self)"

definition has_capability_type :: "capability_type \<Rightarrow> cell_state \<Rightarrow> bool" where
  "has_capability_type t self = list_ex (\<lambda>c. get_capability_type c = t) (cs_capabilities self)"

definition assign_cohort :: "u64 \<Rightarrow> string \<Rightarrow> cell_state \<Rightarrow> cell_state" where
  "assign_cohort now cohort_id self = cell_update_timestamp now (self\<lparr>cs_cohort_id := Some cohort_id\<rparr>)"

definition leave_cohort :: "u64 \<Rightarrow> cell_state \<Rightarrow> cell_state" where
  "leave_cohort now self = cell_update_timestamp now (self\<lparr>cs_cohort_id := None\<rparr>)"

definition cell_merge :: "cell_state \<Rightarrow> cell_state \<Rightarrow> cell_state" where
  "cell_merge self other =
     (let s1 = self\<lparr>cs_members :=
                 fold (\<lambda>member ms. if member \<in> set ms then ms else ms @ [member])
                   (cs_members other) (cs_members self)\<rparr>;
          s2 = s1\<lparr>cs_capabilities :=
                 fold (\<lambda>cap cs. if list_ex (\<lambda>c. cap_id c = cap_id cap) cs then cs else cs @ [cap])
                   (cs_capabilities other) (cs_capabilities s1)\<rparr>;
          self_ts = secs_or_0 (cs_timestamp s2);
          other_ts = secs_or_0 (cs_timestamp other)
      in if other_ts > self_ts
         then s2\<lparr>cs_leader_id := cs_leader_id other, cs_cohort_id := cs_cohort_id other,
                 cs_timestamp := cs_timestamp other\<rparr>
         else s2)"

definition member_count :: "cell_state \<Rightarrow> nat" where
  "member_count self = length (cs_members self)"

definition is_member :: "string \<Rightarrow> cell_state \<Rightarrow> bool" where
  "is_member node_id self = list_ex (\<lambda>x. x = node_id) (cs_members self)"

definition is_leader :: "string \<Rightarrow> cell_state \<Rightarrow> bool" where
  "is_leader node_id self = (cs_leader_id self = Some node_id)"

definition get_id :: "cell_state \<Rightarrow> string option" where
  "get_id self = map_option cc_id (cs_config self)"


subsection \<open>Merge as a join\<close>

definition cap_ids :: "cell_state \<Rightarrow> string set" where
  "cap_ids s = cap_id ` set (cs_capabilities s)"

definition cell_reg :: "cell_state \<Rightarrow> (string option \<times> string option) \<times> u64" where
  "cell_reg s = ((cs_leader_id s, cs_cohort_id s), secs_or_0 (cs_timestamp s))"

lemma cell_merge_fields:
  "cs_config (cell_merge a b) = cs_config a"
  "cs_members (cell_merge a b) = fold push_new (cs_members b) (cs_members a)"
  "cs_capabilities (cell_merge a b) = fold (push_new_by cap_id) (cs_capabilities b) (cs_capabilities a)"
  "cell_reg (cell_merge a b) =
     (if secs_or_0 (cs_timestamp a) < secs_or_0 (cs_timestamp b) then cell_reg b else cell_reg a)"
  by (simp_all add: cell_merge_def Let_def merge_push_new merge_push_new_by cell_reg_def)

lemma cap_ids_merge: "cap_ids (cell_merge a b) = cap_ids a \<union> cap_ids b"
proof -
  have "set (map cap_id (cs_capabilities (cell_merge a b))) = cap_ids a \<union> cap_ids b"
    unfolding cell_merge_fields keys_fold_push_new_by by (simp add: cap_ids_def)
  then show ?thesis by (simp add: cap_ids_def)
qed

lemma cell_reg_merge: "Some (cell_reg (cell_merge a b)) = lww_join (Some (cell_reg a)) (Some (cell_reg b))"
  by (simp add: cell_merge_fields(4)) (simp add: cell_reg_def)

interpretation cell_members: replicated cell_merge "\<lambda>s. set (cs_members s)" cell_reg
  by unfold_locales (simp_all add: cell_merge_fields(2) cell_reg_merge)

interpretation cell_caps: replicated cell_merge cap_ids cell_reg
  by unfold_locales (simp_all add: cap_ids_merge cell_reg_merge)


subsection \<open>The invariant\<close>

text \<open>
  Members are listed once, capabilities have distinct ids, and the leader is a member.
\<close>

definition cell_wf :: "cell_state \<Rightarrow> bool" where
  "cell_wf s \<longleftrightarrow>
     distinct (cs_members s) \<and> distinct (map cap_id (cs_capabilities s)) \<and>
     (\<forall>l. cs_leader_id s = Some l \<longrightarrow> l \<in> set (cs_members s))"

lemma cell_wf_new: "cell_wf (cell_new now config)"
  by (simp add: cell_wf_def cell_new_def)

lemma cell_wf_add_member: "cell_wf s \<Longrightarrow> cell_wf (fst (add_member now n s))"
  by (auto simp: cell_wf_def add_member_def cell_update_timestamp_def)

lemma cell_wf_remove_member: "cell_wf s \<Longrightarrow> cell_wf (fst (remove_member now n s))"
  by (auto simp: cell_wf_def remove_member_def cell_update_timestamp_def Let_def)

lemma cell_wf_set_leader: "cell_wf s \<Longrightarrow> set_leader now n s = Inr s' \<Longrightarrow> cell_wf s'"
  by (auto simp: cell_wf_def set_leader_def cell_update_timestamp_def split: if_splits)

lemma cell_wf_simple:
  assumes "cell_wf s"
  shows "cell_wf (clear_leader now s)" "cell_wf (assign_cohort now c s)" "cell_wf (leave_cohort now s)"
    and "cell_wf (cell_add_capability now cap s)"
  using assms
  by (auto simp: cell_wf_def clear_leader_def assign_cohort_def leave_cohort_def
        cell_add_capability_def cell_update_timestamp_def list_ex_iff)

lemma cell_wf_merge:
  assumes "cell_wf a" "cell_wf b"
  shows "cell_wf (cell_merge a b)"
proof -
  have "distinct (map cap_id (cs_capabilities (cell_merge a b)))"
    using assms by (simp add: cell_merge_fields keys_fold_push_new_by cell_wf_def)
  moreover have "cs_leader_id (cell_merge a b) \<in> {cs_leader_id a, cs_leader_id b}"
    using cell_merge_fields(4) [of a b] by (auto simp: cell_reg_def split: if_splits)
  ultimately show ?thesis
    using assms by (auto simp: cell_wf_def cell_merge_fields)
qed

text \<open>Every way the code changes a cell state.\<close>

inductive cell_reachable :: "cell_state \<Rightarrow> bool" where
  new: "cell_reachable (cell_new now config)"
| add: "cell_reachable s \<Longrightarrow> cell_reachable (fst (add_member now n s))"
| remove: "cell_reachable s \<Longrightarrow> cell_reachable (fst (remove_member now n s))"
| lead: "cell_reachable s \<Longrightarrow> set_leader now n s = Inr s' \<Longrightarrow> cell_reachable s'"
| clear: "cell_reachable s \<Longrightarrow> cell_reachable (clear_leader now s)"
| cap: "cell_reachable s \<Longrightarrow> cell_reachable (cell_add_capability now c s)"
| join_cohort: "cell_reachable s \<Longrightarrow> cell_reachable (assign_cohort now coh s)"
| quit_cohort: "cell_reachable s \<Longrightarrow> cell_reachable (leave_cohort now s)"
| merge: "cell_reachable s \<Longrightarrow> cell_reachable t \<Longrightarrow> cell_reachable (cell_merge s t)"

text \<open>
  C21. In every cell state the operations and replica merges can produce, members are listed once,
  capability ids are distinct and the leader, if any, is a member.
\<close>

theorem cell_reachable_wf:
  assumes "cell_reachable s"
  shows "distinct (cs_members s) \<and> distinct (map cap_id (cs_capabilities s)) \<and>
         (\<forall>l. is_leader l s \<longrightarrow> is_member l s)"
proof -
  from assms have "cell_wf s"
    by induction
      (simp_all add: cell_wf_new cell_wf_add_member cell_wf_remove_member cell_wf_set_leader
        cell_wf_simple cell_wf_merge)
  then show ?thesis
    by (auto simp: cell_wf_def is_leader_def is_member_def list_ex_iff)
qed

definition example_cell :: cell_state where
  "example_cell = fst (add_member 2 ''n1'' (cell_new 1 (cell_config_with_id 1 ''c'' 5)))"

theorem cell_reachable_wf_witness:
  "cell_reachable example_cell \<and> distinct (cs_members example_cell) \<and> is_member ''n1'' example_cell"
proof (intro conjI)
  show r: "cell_reachable example_cell"
    unfolding example_cell_def by (intro cell_reachable.add cell_reachable.new)
  show "distinct (cs_members example_cell)"
    using cell_reachable_wf [OF r] by blast
  show "is_member ''n1'' example_cell"
    by code_simp
qed

text \<open>
  C2. Cell replicas converge: merging the same replicas in any order gives the same members, the
  same capability ids, and, unless two of them set different leaders or cohorts in the same second,
  the same leader, cohort and timestamp.
\<close>

theorem cell_merge_order_irrelevant:
  assumes "mset bs = mset cs"
    and "\<forall>x \<in> set bs. \<forall>y \<in> set bs. \<not> lww_tie (Some (cell_reg x)) (Some (cell_reg y))"
  shows "set (cs_members (fold (\<lambda>b a. cell_merge a b) bs s)) =
           set (cs_members (fold (\<lambda>b a. cell_merge a b) cs s))
         \<and> cap_ids (fold (\<lambda>b a. cell_merge a b) bs s) = cap_ids (fold (\<lambda>b a. cell_merge a b) cs s)
         \<and> cell_reg (fold (\<lambda>b a. cell_merge a b) bs s) = cell_reg (fold (\<lambda>b a. cell_merge a b) cs s)"
  using cell_members.merge_all_permute [OF assms(1)] cell_caps.merge_all_permute [OF assms(1)] assms(2)
  by blast

theorem cell_merge_order_irrelevant_witness:
  "cell_reg (fold (\<lambda>b a. cell_merge a b) [example_cell, clear_leader 9 example_cell] example_cell) =
   cell_reg (fold (\<lambda>b a. cell_merge a b) [clear_leader 9 example_cell, example_cell] example_cell)"
proof -
  have "cell_reg example_cell = ((None, None), 2)" "cell_reg (clear_leader 9 example_cell) = ((None, None), 9)"
    by code_simp+
  then have free: "\<forall>x \<in> set [example_cell, clear_leader 9 example_cell].
      \<forall>y \<in> set [example_cell, clear_leader 9 example_cell].
        \<not> lww_tie (Some (cell_reg x)) (Some (cell_reg y))"
    by (auto simp: lww_tie_def)
  have "mset [example_cell, clear_leader 9 example_cell] = mset [clear_leader 9 example_cell, example_cell]"
    by simp
  from cell_merge_order_irrelevant [OF this free] show ?thesis by blast
qed

text \<open>
  Removal from the member list is not an observed-remove: after \<open>remove_member\<close>, one merge with
  any replica that still lists the member brings it back, with no concurrent add.
\<close>

theorem removed_member_returns:
  assumes "is_member n other"
  shows "is_member n (cell_merge (fst (remove_member now n s)) other)
         \<and> (distinct (cs_members s) \<longrightarrow> \<not> is_member n (fst (remove_member now n s)))"
proof -
  from assms have "n \<in> set (cs_members other)"
    by (simp add: is_member_def list_ex_iff)
  from cell_members.removal_undone [OF this] show ?thesis
    by (auto simp: is_member_def list_ex_iff remove_member_def cell_update_timestamp_def Let_def)
qed

theorem removed_member_returns_witness:
  "is_member ''n1'' (cell_merge (fst (remove_member 50 ''n1'' example_cell)) example_cell)"
proof -
  have "is_member ''n1'' example_cell" by code_simp
  from removed_member_returns [OF this, of 50 example_cell] show ?thesis by blast
qed

text \<open>
  Capacity: \<open>add_member\<close> never takes a cell above \<open>max_size\<close>, and it succeeds exactly when
  the cell has room and the node is new; then the node is a member, and removing it again gives
  back the member list.
\<close>

theorem add_member_capacity:
  assumes "cs_config s = Some cfg" and "length (cs_members s) \<le> unat (cc_max_size cfg)"
  shows "member_count (fst (add_member now n s)) \<le> unat (cc_max_size cfg)
         \<and> (snd (add_member now n s) \<longleftrightarrow> \<not> cell_is_full s \<and> \<not> is_member n s)
         \<and> (snd (add_member now n s) \<longrightarrow>
              is_member n (fst (add_member now n s)) \<and>
              cs_members (fst (remove_member now' n (fst (add_member now n s)))) = cs_members s)"
  using assms
  by (auto simp: add_member_def member_count_def cell_is_full_def is_member_def list_ex_iff
        remove_member_def cell_update_timestamp_def Let_def remove1_append)

theorem add_member_capacity_witness:
  "snd (add_member 3 ''n2'' example_cell) \<and> member_count (fst (add_member 3 ''n2'' example_cell)) \<le> 5"
proof -
  have "cs_config example_cell = Some (cell_config_with_id 1 ''c'' 5)"
    "length (cs_members example_cell) \<le> unat (cc_max_size (cell_config_with_id 1 ''c'' 5))"
    by code_simp+
  from add_member_capacity [OF this, of 3 "''n2''"]
  show ?thesis
    by (simp add: cell_config_with_id_def cell_is_full_def is_member_def example_cell_def
          add_member_def cell_new_def cell_update_timestamp_def)
qed


text \<open>
  The leader and cohort share one timestamp with every other field, so an unrelated later
  change on another replica (here: adding a member) discards a leader election on merge.
\<close>

theorem leader_update_lost_to_member_add:
  assumes "set_leader t1 l s = Inr a" and "snd (add_member t2 m s)" and "t1 < t2"
  shows "cs_leader_id a = Some l
         \<and> cs_leader_id (cell_merge a (fst (add_member t2 m s))) = cs_leader_id s
         \<and> cs_leader_id (cell_merge (fst (add_member t2 m s)) a) = cs_leader_id s"
proof -
  let ?b = "fst (add_member t2 m s)"
  have a: "a = cell_update_timestamp t1 (s\<lparr>cs_leader_id := Some l\<rparr>)"
    using assms(1) by (simp add: set_leader_def split: if_splits)
  have b: "?b = cell_update_timestamp t2 (s\<lparr>cs_members := cs_members s @ [m]\<rparr>)"
    using assms(2) by (simp add: add_member_def split: if_splits)
  have "cell_reg (cell_merge a ?b) = cell_reg ?b" "cell_reg (cell_merge ?b a) = cell_reg ?b"
    using assms(3) unfolding cell_merge_fields(4) a b by (auto simp: cell_update_timestamp_def)
  then show ?thesis
    unfolding a b by (simp add: cell_reg_def cell_update_timestamp_def)
qed

theorem leader_update_lost_to_member_add_witness:
  "\<exists>a. set_leader 10 ''n1'' example_cell = Inr a \<and>
       cs_leader_id (cell_merge a (fst (add_member 11 ''n2'' example_cell))) = None"
proof -
  have led: "set_leader 10 ''n1'' example_cell =
      Inr (cell_update_timestamp 10 (example_cell\<lparr>cs_leader_id := Some ''n1''\<rparr>))"
    by code_simp
  have "snd (add_member 11 ''n2'' example_cell)" "cs_leader_id example_cell = None"
    by code_simp+
  with leader_update_lost_to_member_add [OF led] show ?thesis
    by (intro exI [of _ "cell_update_timestamp 10 (example_cell\<lparr>cs_leader_id := Some ''n1''\<rparr>)"])
      (simp add: led)
qed

end
