(* ===== verification/Zone_State.thy ===== *)
theory Zone_State
  imports Peat_Schema
begin

text \<open>
  The zone of \<open>peat-protocol/src/models/zone.rs\<close>: its cells, coordinator and capabilities, the
  operations of \<open>ZoneStateExt\<close>, and the replica merge, which panics when the zone ids differ.
\<close>


subsection \<open>State and operations\<close>

record zone_config =
  zc_id :: string
  zc_max_cells :: u32
  zc_min_cells :: u32
  zc_created_at :: "timestamp option"

record zone_state =
  zs_config :: "zone_config option"
  zs_coordinator_id :: "string option"
  zs_cells :: "string list"
  zs_capabilities :: "capability list"
  zs_timestamp :: "timestamp option"

record zone_stats =
  zst_zone_id :: string
  zst_cell_count :: u32
  zst_total_nodes :: u32
  zst_unique_capability_count :: u32
  zst_is_valid :: bool
  zst_is_full :: bool
  zst_calculated_at :: "timestamp option"

definition zone_config_new :: "u64 \<Rightarrow> string \<Rightarrow> u32 \<Rightarrow> zone_config" where
  "zone_config_new now zone_id max_cells =
     \<lparr>zc_id = zone_id, zc_max_cells = max_cells, zc_min_cells = 2, zc_created_at = timestamp_at now\<rparr>"

definition with_min_cells :: "u32 \<Rightarrow> zone_config \<Rightarrow> zone_config" where
  "with_min_cells min_cells self = self\<lparr>zc_min_cells := min_cells\<rparr>"

definition zone_new :: "u64 \<Rightarrow> zone_config \<Rightarrow> zone_state" where
  "zone_new now config =
     \<lparr>zs_config = Some config, zs_coordinator_id = None, zs_cells = [], zs_capabilities = [],
      zs_timestamp = timestamp_at now\<rparr>"

definition zone_update_timestamp :: "u64 \<Rightarrow> zone_state \<Rightarrow> zone_state" where
  "zone_update_timestamp now self = self\<lparr>zs_timestamp := timestamp_at now\<rparr>"

definition zone_is_valid :: "zone_state \<Rightarrow> bool" where
  "zone_is_valid self =
     (case zs_config self of
        Some config \<Rightarrow> length (zs_cells self) \<ge> unat (zc_min_cells config)
      | None \<Rightarrow> False)"

definition zone_is_full :: "zone_state \<Rightarrow> bool" where
  "zone_is_full self =
     (case zs_config self of
        Some config \<Rightarrow> length (zs_cells self) \<ge> unat (zc_max_cells config)
      | None \<Rightarrow> False)"

definition zone_add_cell :: "u64 \<Rightarrow> string \<Rightarrow> zone_state \<Rightarrow> zone_state \<times> bool" where
  "zone_add_cell now cell_id self =
     (if zone_is_full self then (self, False)
      else if list_ex (\<lambda>x. x = cell_id) (zs_cells self) then (self, False)
      else (zone_update_timestamp now (self\<lparr>zs_cells := zs_cells self @ [cell_id]\<rparr>), True))"

definition zone_remove_cell :: "u64 \<Rightarrow> string \<Rightarrow> zone_state \<Rightarrow> zone_state \<times> bool" where
  "zone_remove_cell now cell_id self =
     (if cell_id \<in> set (zs_cells self)
      then (zone_update_timestamp now (self\<lparr>zs_cells := remove1 cell_id (zs_cells self)\<rparr>), True)
      else (self, False))"

definition set_coordinator :: "string \<Rightarrow> u64 \<Rightarrow> zone_state \<Rightarrow> zone_state \<times> bool" where
  "set_coordinator coordinator_id ts self =
     (if ts < secs_or_0 (zs_timestamp self) then (self, False)
      else (self\<lparr>zs_coordinator_id := Some coordinator_id, zs_timestamp := timestamp_at ts\<rparr>, True))"

definition remove_coordinator :: "u64 \<Rightarrow> zone_state \<Rightarrow> zone_state \<times> bool" where
  "remove_coordinator ts self =
     (if ts < secs_or_0 (zs_timestamp self) then (self, False)
      else (self\<lparr>zs_coordinator_id := None, zs_timestamp := timestamp_at ts\<rparr>, True))"

definition zone_add_capability :: "u64 \<Rightarrow> capability \<Rightarrow> zone_state \<Rightarrow> zone_state" where
  "zone_add_capability now capability self =
     (if \<not> list_ex (\<lambda>c. get_capability_type c = get_capability_type capability) (zs_capabilities self)
      then zone_update_timestamp now (self\<lparr>zs_capabilities := zs_capabilities self @ [capability]\<rparr>)
      else self)"

text \<open>The body of \<open>merge\<close> after its assertion, and the whole: \<open>None\<close> is the panic.\<close>

definition zone_join :: "zone_state \<Rightarrow> zone_state \<Rightarrow> zone_state" where
  "zone_join self other =
     (let self_ts = secs_or_0 (zs_timestamp self);
          other_ts = secs_or_0 (zs_timestamp other);
          s1 = (if other_ts > self_ts
                then self\<lparr>zs_coordinator_id := zs_coordinator_id other, zs_timestamp := zs_timestamp other\<rparr>
                else self);
          s2 = s1\<lparr>zs_cells :=
                 fold (\<lambda>cell_id cs. if list_ex (\<lambda>x. x = cell_id) cs then cs else cs @ [cell_id])
                   (zs_cells other) (zs_cells s1)\<rparr>
      in s2\<lparr>zs_capabilities :=
           fold (\<lambda>cap cs. if list_ex (\<lambda>c. get_capability_type c = get_capability_type cap) cs
                          then cs else cs @ [cap])
             (zs_capabilities other) (zs_capabilities s2)\<rparr>)"

definition zone_merge :: "zone_state \<Rightarrow> zone_state \<Rightarrow> zone_state option" where
  "zone_merge self other =
     (if map_option zc_id (zs_config self) \<noteq> map_option zc_id (zs_config other) then None
      else Some (zone_join self other))"

definition zone_stats_of :: "u64 \<Rightarrow> zone_state \<Rightarrow> zone_stats" where
  "zone_stats_of now self =
     \<lparr>zst_zone_id = (case zs_config self of None \<Rightarrow> [] | Some c \<Rightarrow> zc_id c),
      zst_cell_count = of_nat (length (zs_cells self)), zst_total_nodes = 0,
      zst_unique_capability_count = of_nat (length (zs_capabilities self)),
      zst_is_valid = zone_is_valid self, zst_is_full = zone_is_full self,
      zst_calculated_at = timestamp_at now\<rparr>"


subsection \<open>Merge as a join\<close>

definition zone_cap_types :: "zone_state \<Rightarrow> capability_type set" where
  "zone_cap_types z = get_capability_type ` set (zs_capabilities z)"

definition zone_reg :: "zone_state \<Rightarrow> string option \<times> u64" where
  "zone_reg z = (zs_coordinator_id z, secs_or_0 (zs_timestamp z))"

lemma zone_join_fields:
  "zs_config (zone_join a b) = zs_config a"
  "zs_cells (zone_join a b) = fold push_new (zs_cells b) (zs_cells a)"
  "zs_capabilities (zone_join a b) =
     fold (push_new_by get_capability_type) (zs_capabilities b) (zs_capabilities a)"
  "zone_reg (zone_join a b) =
     (if secs_or_0 (zs_timestamp a) < secs_or_0 (zs_timestamp b) then zone_reg b else zone_reg a)"
  by (simp_all add: zone_join_def Let_def merge_push_new_ex merge_push_new_by zone_reg_def)

lemma zone_cap_types_join: "zone_cap_types (zone_join a b) = zone_cap_types a \<union> zone_cap_types b"
proof -
  have "set (map get_capability_type (zs_capabilities (zone_join a b))) = zone_cap_types a \<union> zone_cap_types b"
    unfolding zone_join_fields keys_fold_push_new_by by (simp add: zone_cap_types_def)
  then show ?thesis by (simp add: zone_cap_types_def)
qed

lemma zone_reg_join: "Some (zone_reg (zone_join a b)) = lww_join (Some (zone_reg a)) (Some (zone_reg b))"
  by (simp add: zone_join_fields(4)) (simp add: zone_reg_def)

interpretation zone_cells: replicated zone_join "\<lambda>z. set (zs_cells z)" zone_reg
  by unfold_locales (simp_all add: zone_join_fields(2) zone_reg_join)

interpretation zone_caps: replicated zone_join zone_cap_types zone_reg
  by unfold_locales (simp_all add: zone_cap_types_join zone_reg_join)


subsection \<open>The invariant\<close>

definition zone_wf :: "zone_state \<Rightarrow> bool" where
  "zone_wf z \<longleftrightarrow> distinct (zs_cells z) \<and> distinct (map get_capability_type (zs_capabilities z))"

inductive zone_step :: "zone_state \<Rightarrow> zone_state \<Rightarrow> bool" where
  add_cell: "zone_step z (fst (zone_add_cell now c z))"
| remove_cell: "zone_step z (fst (zone_remove_cell now c z))"
| set_coordinator: "zone_step z (fst (set_coordinator c ts z))"
| remove_coordinator: "zone_step z (fst (remove_coordinator ts z))"
| add_capability: "zone_step z (zone_add_capability now cap z)"
| merge: "zone_wf other \<Longrightarrow> zone_merge z other = Some z' \<Longrightarrow> zone_step z z'"

inductive_simps zone_step_simps: "zone_step z z'"

lemma zone_wf_new: "zone_wf (zone_new now config)"
  by (simp add: zone_wf_def zone_new_def)

lemma zone_wf_join: "zone_wf a \<Longrightarrow> zone_wf (zone_join a b)"
  by (simp add: zone_wf_def zone_join_fields keys_fold_push_new_by)

lemma zone_step_wf: "zone_step z z' \<Longrightarrow> zone_wf z \<Longrightarrow> zone_wf z'"
proof (induction rule: zone_step.induct)
  case (merge other z z')
  then show ?case
    by (auto simp: zone_merge_def zone_wf_join split: if_splits)
qed (auto simp: zone_wf_def zone_add_cell_def zone_remove_cell_def set_coordinator_def
       remove_coordinator_def zone_add_capability_def zone_update_timestamp_def list_ex_iff)

lemma zone_step_config: "zone_step z z' \<Longrightarrow> zs_config z' = zs_config z"
  by (auto simp: zone_step_simps zone_add_cell_def zone_remove_cell_def set_coordinator_def
      remove_coordinator_def zone_add_capability_def zone_update_timestamp_def zone_merge_def
      zone_join_fields split: if_splits)

text \<open>
  C22. Along every run of zone operations from a new zone, the configuration never changes, cells
  are listed once, and there is at most one aggregated capability per capability type.
\<close>

theorem zone_run_invariant:
  assumes "zone_step\<^sup>*\<^sup>* (zone_new now config) z"
  shows "zs_config z = Some config \<and> distinct (zs_cells z) \<and>
         distinct (map get_capability_type (zs_capabilities z))"
proof -
  have "zs_config (zone_new now config) = Some config"
    by (simp add: zone_new_def)
  with assms have "zone_wf z \<and> zs_config z = Some config"
    by induction (auto simp: zone_wf_new zone_step_wf zone_step_config)
  then show ?thesis by (simp add: zone_wf_def)
qed

definition example_zone :: zone_state where
  "example_zone = fst (zone_add_cell 7 ''alpha'' (zone_new 5 (zone_config_new 5 ''north'' 3)))"

theorem zone_run_invariant_witness:
  "distinct (zs_cells example_zone) \<and> zs_config example_zone = Some (zone_config_new 5 ''north'' 3)"
proof -
  have "zone_step\<^sup>*\<^sup>* (zone_new 5 (zone_config_new 5 ''north'' 3)) example_zone"
    unfolding example_zone_def by (rule r_into_rtranclp) (rule zone_step.add_cell)
  from zone_run_invariant [OF this] show ?thesis by blast
qed

text \<open>
  Zone replicas converge: \<open>merge\<close> fails exactly on different zone ids, and merging the same
  replicas of a zone in any order gives the same cells and capability types and, unless two of them
  name different coordinators at the same timestamp, the same coordinator and timestamp.
\<close>

theorem zone_merge_order_irrelevant:
  assumes "mset bs = mset cs"
    and "\<forall>x \<in> set bs. \<forall>y \<in> set bs. \<not> lww_tie (Some (zone_reg x)) (Some (zone_reg y))"
  shows "(zone_merge z other = None \<longleftrightarrow> map_option zc_id (zs_config z) \<noteq> map_option zc_id (zs_config other))
         \<and> set (zs_cells (fold (\<lambda>b a. zone_join a b) bs z)) = set (zs_cells (fold (\<lambda>b a. zone_join a b) cs z))
         \<and> zone_cap_types (fold (\<lambda>b a. zone_join a b) bs z) = zone_cap_types (fold (\<lambda>b a. zone_join a b) cs z)
         \<and> zone_reg (fold (\<lambda>b a. zone_join a b) bs z) = zone_reg (fold (\<lambda>b a. zone_join a b) cs z)"
proof -
  have "zone_merge z other = None \<longleftrightarrow> map_option zc_id (zs_config z) \<noteq> map_option zc_id (zs_config other)"
    by (simp add: zone_merge_def)
  then show ?thesis
    using zone_cells.merge_all_permute [OF assms(1)] zone_caps.merge_all_permute [OF assms(1)] assms(2)
    by blast
qed

theorem zone_merge_order_irrelevant_witness:
  "zone_reg (fold (\<lambda>b a. zone_join a b) [example_zone, fst (set_coordinator ''n1'' 9 example_zone)] example_zone)
   = zone_reg (fold (\<lambda>b a. zone_join a b) [fst (set_coordinator ''n1'' 9 example_zone), example_zone] example_zone)"
proof -
  have "zone_reg example_zone = (None, 7)"
    "zone_reg (fst (set_coordinator ''n1'' 9 example_zone)) = (Some ''n1'', 9)"
    by code_simp+
  then have free: "\<forall>x \<in> set [example_zone, fst (set_coordinator ''n1'' 9 example_zone)].
      \<forall>y \<in> set [example_zone, fst (set_coordinator ''n1'' 9 example_zone)].
        \<not> lww_tie (Some (zone_reg x)) (Some (zone_reg y))"
    by (auto simp: lww_tie_def)
  have "mset [example_zone, fst (set_coordinator ''n1'' 9 example_zone)] =
        mset [fst (set_coordinator ''n1'' 9 example_zone), example_zone]"
    by simp
  from zone_merge_order_irrelevant [OF this free] show ?thesis by blast
qed

text \<open>
  The coordinator's logical timestamp and the wall clock share one field: once a cell is added
  at wall-clock time \<open>now\<close>, every coordinator assignment with a logical timestamp below \<open>now\<close> is
  rejected, even one that is newer than the assignment in force.
\<close>

theorem coordinator_blocked_by_wall_clock:
  assumes "snd (set_coordinator old ts0 z)"
    and "snd (zone_add_cell now c (fst (set_coordinator old ts0 z)))"
    and "ts0 < ts1" "ts1 < now"
  shows "set_coordinator fresh ts1 (fst (zone_add_cell now c (fst (set_coordinator old ts0 z))))
           = (fst (zone_add_cell now c (fst (set_coordinator old ts0 z))), False)
         \<and> zs_coordinator_id (fst (zone_add_cell now c (fst (set_coordinator old ts0 z)))) = Some old
         \<and> snd (set_coordinator fresh ts1 (fst (set_coordinator old ts0 z)))"
  using assms
  by (auto simp: set_coordinator_def zone_add_cell_def zone_update_timestamp_def split: if_splits)

theorem coordinator_blocked_by_wall_clock_witness:
  "snd (set_coordinator ''new'' 101
     (fst (zone_add_cell 1700000000 ''beta'' (fst (set_coordinator ''old'' 100 example_zone))))) = False"
proof -
  have "snd (set_coordinator ''old'' 100 example_zone)"
    "snd (zone_add_cell 1700000000 ''beta'' (fst (set_coordinator ''old'' 100 example_zone)))"
    by code_simp+
  from coordinator_blocked_by_wall_clock [OF this, of 101 "''new''"] show ?thesis by simp
qed

end
