(* ===== verification/Hierarchy_Maintenance.thy ===== *)
theory Hierarchy_Maintenance
  imports Peat_Error Cell_State Zone_State Routing_Table
begin

text \<open>
  Cell rebalancing, \<open>peat-protocol/src/hierarchy/maintenance.rs\<close>: when a cell is too small or too
  large, how two cells merge and one splits, which neighbour a small cell merges with, and the
  periodic pass that applies this to the routing table. Fresh UUIDs and clock readings are
  arguments; the counters of the metrics are natural numbers.
\<close>


subsection \<open>State and operations\<close>

datatype rebalance_action = RebalanceNone | RebalanceMerge | RebalanceSplit

record hierarchy_maintainer =
  hm_min_cell_size :: nat
  hm_max_cell_size :: nat
  hm_min_zone_cells :: nat
  hm_max_zone_cells :: nat
  hm_merge_count :: nat
  hm_split_count :: nat
  hm_rebalance_disruptions :: nat

text \<open>The constructor; \<open>None\<close> is a failed assertion.\<close>

definition maintainer_new :: "nat \<Rightarrow> nat \<Rightarrow> nat \<Rightarrow> nat \<Rightarrow> hierarchy_maintainer option" where
  "maintainer_new min_cell_size max_cell_size min_zone_cells max_zone_cells =
     (if \<not> min_cell_size > 0 then None
      else if \<not> max_cell_size > min_cell_size then None
      else if \<not> min_zone_cells > 0 then None
      else if \<not> max_zone_cells \<ge> min_zone_cells then None
      else Some \<lparr>hm_min_cell_size = min_cell_size, hm_max_cell_size = max_cell_size,
                 hm_min_zone_cells = min_zone_cells, hm_max_zone_cells = max_zone_cells,
                 hm_merge_count = 0, hm_split_count = 0, hm_rebalance_disruptions = 0\<rparr>)"

definition needs_rebalance :: "hierarchy_maintainer \<Rightarrow> cell_state \<Rightarrow> rebalance_action" where
  "needs_rebalance self cell =
     (let size = length (cs_members cell)
      in if size < hm_min_cell_size self then RebalanceMerge
         else if size > hm_max_cell_size self then RebalanceSplit
         else RebalanceNone)"

definition merge_cells ::
    "hierarchy_maintainer \<Rightarrow> u64 \<Rightarrow> string \<Rightarrow> cell_state \<Rightarrow> cell_state \<Rightarrow>
     hierarchy_maintainer \<times> (peat_error + cell_state)" where
  "merge_cells self now uuid cell1 cell2 =
     (let total_members = length (cs_members cell1) + length (cs_members cell2);
          max_size = max (of_nat (hm_max_cell_size self) :: u32) (of_nat total_members);
          new_config = (cell_config_new now uuid max_size)\<lparr>cc_min_size := of_nat (hm_min_cell_size self)\<rparr>;
          merged = cell_new now new_config;
          merged = fold (\<lambda>member c. fst (add_member now member c))
                     (cs_members cell1 @ cs_members cell2) merged;
          (capability_ids, caps) =
            fold (\<lambda>cap (ids, cs). if cap_id cap \<in> set ids then (ids, cs)
                                  else (cap_id cap # ids, cs @ [cap]))
              (cs_capabilities cell1 @ cs_capabilities cell2) ([], cs_capabilities merged);
          cell1_ts = secs_or_0 (cs_timestamp cell1);
          cell2_ts = secs_or_0 (cs_timestamp cell2);
          merged = merged\<lparr>cs_capabilities := caps,
                     cs_timestamp := (if cell2_ts > cell1_ts then cs_timestamp cell2 else cs_timestamp cell1),
                     cs_cohort_id := (case cs_cohort_id cell1 of None \<Rightarrow> cs_cohort_id cell2 | Some c \<Rightarrow> Some c),
                     cs_leader_id := None\<rparr>
      in (self\<lparr>hm_merge_count := hm_merge_count self + 1,
               hm_rebalance_disruptions := hm_rebalance_disruptions self + 1\<rparr>, Inr merged))"

definition split_cell ::
    "hierarchy_maintainer \<Rightarrow> u64 \<Rightarrow> string \<Rightarrow> string \<Rightarrow> cell_state \<Rightarrow>
     hierarchy_maintainer \<times> (peat_error + cell_state \<times> cell_state)" where
  "split_cell self now uuid_a uuid_b cell =
     (let member_count = length (cs_members cell)
      in if member_count < 2 then (self, Inl (EInternal ''Cell too small to split''))
         else
           (let split_point = member_count div 2;
                config_a = (cell_config_new now uuid_a (of_nat (hm_max_cell_size self)))
                             \<lparr>cc_min_size := of_nat (hm_min_cell_size self)\<rparr>;
                config_b = (cell_config_new now uuid_b (of_nat (hm_max_cell_size self)))
                             \<lparr>cc_min_size := of_nat (hm_min_cell_size self)\<rparr>;
                (cell_a, cell_b) =
                  fold (\<lambda>(i, member) (a, b). if i < split_point then (fst (add_member now member a), b)
                                             else (a, fst (add_member now member b)))
                    (List.enumerate 0 (cs_members cell)) (cell_new now config_a, cell_new now config_b);
                inherit = (\<lambda>c. c\<lparr>cs_capabilities := cs_capabilities cell, cs_cohort_id := cs_cohort_id cell,
                                 cs_timestamp := cs_timestamp cell, cs_leader_id := None\<rparr>)
            in (self\<lparr>hm_split_count := hm_split_count self + 1,
                     hm_rebalance_disruptions := hm_rebalance_disruptions self + 1\<rparr>,
                Inr (inherit cell_a, inherit cell_b))))"

definition id_or_unknown :: "cell_state \<Rightarrow> string" where
  "id_or_unknown c = (case get_id c of None \<Rightarrow> ''<unknown>'' | Some i \<Rightarrow> i)"

text \<open>The score of a candidate (lower is better) and the loop of \<open>find_merge_candidate\<close>.\<close>

definition candidate_score :: "cell_state \<Rightarrow> cell_state \<Rightarrow> nat" where
  "candidate_score cell candidate =
     (let score = length (cs_members candidate)
      in if cs_cohort_id cell \<noteq> None \<and> cs_cohort_id candidate \<noteq> None \<and>
            cs_cohort_id cell = cs_cohort_id candidate
         then score - 100 else score)"

definition candidate_step ::
    "hierarchy_maintainer \<Rightarrow> cell_state \<Rightarrow> cell_state \<Rightarrow> (cell_state \<times> nat) option \<Rightarrow>
     (cell_state \<times> nat) option" where
  "candidate_step self cell candidate best_candidate =
     (if id_or_unknown candidate = id_or_unknown cell then best_candidate
      else if length (cs_members cell) + length (cs_members candidate) > hm_max_cell_size self
      then best_candidate
      else (let score = candidate_score cell candidate
            in if (case best_candidate of None \<Rightarrow> True | Some (_, best) \<Rightarrow> score < best)
               then Some (candidate, score) else best_candidate))"

definition find_merge_candidate ::
    "hierarchy_maintainer \<Rightarrow> cell_state \<Rightarrow> cell_state list \<Rightarrow> string option" where
  "find_merge_candidate self cell candidates =
     map_option (\<lambda>(c, _). id_or_unknown c) (fold (candidate_step self cell) candidates None)"

definition needs_zone_rebalance :: "hierarchy_maintainer \<Rightarrow> zone_state \<Rightarrow> bool" where
  "needs_zone_rebalance self zone =
     (let n = length (zs_cells zone)
      in if n < hm_min_zone_cells self then True
         else if n > hm_max_zone_cells self then True
         else False)"

text \<open>
  \<open>CellStore::get_valid_cells\<close> on the cells decoded from the store, and the rebalancing pass.
  \<open>fresh\<close> supplies the UUIDs drawn while handling the \<open>i\<close>-th cell. The result is the routing table
  and maintainer as they are when the pass returns, with its return value; an error leaves the
  work done so far in place.
\<close>

definition get_valid_cells :: "cell_state list \<Rightarrow> cell_state list" where
  "get_valid_cells cells = filter cell_is_valid cells"

record rebalancer =
  rb_maintainer :: hierarchy_maintainer
  rb_routing :: routing_table

fun rebalance_loop ::
    "u64 \<Rightarrow> (nat \<Rightarrow> string \<times> string) \<Rightarrow> cell_state list \<Rightarrow> nat \<Rightarrow> cell_state list \<Rightarrow> nat \<Rightarrow> rebalancer \<Rightarrow>
     rebalancer \<times> (peat_error + nat)" where
  "rebalance_loop timestamp fresh all_cells i [] operations_count self = (self, Inr operations_count)"
| "rebalance_loop timestamp fresh all_cells i (cell # cells) operations_count self =
     (case needs_rebalance (rb_maintainer self) cell of
        RebalanceMerge \<Rightarrow>
          (case find_merge_candidate (rb_maintainer self) cell all_cells of
             Some target_id \<Rightarrow>
               rebalance_loop timestamp fresh all_cells (i + 1) cells (operations_count + 1)
                 (self\<lparr>rb_routing := fst (merge_cells_rt (rb_routing self) [id_or_unknown cell, target_id]
                                           (fst (fresh i)) (cs_cohort_id cell) timestamp)\<rparr>)
           | None \<Rightarrow> rebalance_loop timestamp fresh all_cells (i + 1) cells operations_count self)
      | RebalanceSplit \<Rightarrow>
          (case split_cell (rb_maintainer self) timestamp (fst (fresh i)) (snd (fresh i)) cell of
             (maintainer, Inl e) \<Rightarrow> (self\<lparr>rb_maintainer := maintainer\<rparr>, Inl e)
           | (maintainer, Inr (cell_a, cell_b)) \<Rightarrow>
               rebalance_loop timestamp fresh all_cells (i + 1) cells (operations_count + 1)
                 (self\<lparr>rb_maintainer := maintainer,
                       rb_routing := fst (split_cell_rt (rb_routing self) (id_or_unknown cell)
                         (id_or_unknown cell_a) (id_or_unknown cell_b) (cs_members cell_a)
                         (cs_members cell_b) (cs_cohort_id cell) timestamp)\<rparr>))
      | RebalanceNone \<Rightarrow> rebalance_loop timestamp fresh all_cells (i + 1) cells operations_count self)"

definition check_and_rebalance ::
    "u64 \<Rightarrow> (nat \<Rightarrow> string \<times> string) \<Rightarrow> cell_state list \<Rightarrow> rebalancer \<Rightarrow>
     rebalancer \<times> (peat_error + nat)" where
  "check_and_rebalance timestamp fresh stored self =
     (let all_cells = get_valid_cells stored
      in rebalance_loop timestamp fresh all_cells 0 all_cells 0 self)"


subsection \<open>Adding several members\<close>

definition add_members :: "u64 \<Rightarrow> string list \<Rightarrow> cell_state \<Rightarrow> cell_state" where
  "add_members now ms c = fold (\<lambda>m c. fst (add_member now m c)) ms c"

lemma add_members_simps [simp]:
  "add_members now [] c = c"
  "add_members now (m # ms) c = add_members now ms (fst (add_member now m c))"
  by (simp_all add: add_members_def)

lemma add_members_append [simp]:
  "add_members now (ms @ ns) c = add_members now ns (add_members now ms c)"
  by (simp add: add_members_def)

lemma add_member_frame [simp, frame_simps]:
  "cs_config (fst (add_member now m c)) = cs_config c"
  "cs_capabilities (fst (add_member now m c)) = cs_capabilities c"
  by (simp_all add: add_member_def cell_update_timestamp_def)

lemma add_members_frame [simp, frame_simps]:
  "cs_config (add_members now ms c) = cs_config c"
  "cs_capabilities (add_members now ms c) = cs_capabilities c"
  by (induction ms arbitrary: c) simp_all

lemma add_members_room:
  assumes "cs_config c = Some cfg" and "length (cs_members c) + length ms \<le> unat (cc_max_size cfg)"
  shows "cs_members (add_members now ms c) = fold push_new ms (cs_members c)"
  using assms
proof (induction ms arbitrary: c)
  case (Cons m ms)
  have "cs_members (fst (add_member now m c)) = push_new m (cs_members c)"
    using Cons.prems
    by (simp add: add_member_def cell_is_full_def cell_update_timestamp_def push_new_def)
  moreover have "length (push_new m (cs_members c)) \<le> length (cs_members c) + 1"
    by (simp add: push_new_def)
  ultimately show ?case
    using Cons.prems Cons.IH [of "fst (add_member now m c)"] by simp
qed simp

lemma add_members_distinct:
  assumes "cs_config c = Some cfg" and "length (cs_members c) \<le> unat (cc_max_size cfg)"
    and "distinct (cs_members c @ ms)"
  shows "cs_members (add_members now ms c) =
           cs_members c @ take (unat (cc_max_size cfg) - length (cs_members c)) ms"
  using assms
proof (induction ms arbitrary: c)
  case (Cons m ms)
  show ?case
  proof (cases "length (cs_members c) < unat (cc_max_size cfg)")
    case True
    then have "cs_members (fst (add_member now m c)) = cs_members c @ [m]"
      using Cons.prems by (simp add: add_member_def cell_is_full_def cell_update_timestamp_def)
    moreover have "unat (cc_max_size cfg) - length (cs_members c) =
        Suc (unat (cc_max_size cfg) - Suc (length (cs_members c)))"
      using True by simp
    ultimately show ?thesis
      using Cons.prems True Cons.IH [of "fst (add_member now m c)"] by simp
  next
    case False
    then have "fst (add_member now m c) = c"
      using Cons.prems by (simp add: add_member_def cell_is_full_def)
    then show ?thesis
      using Cons.prems False Cons.IH [of c] by simp
  qed
qed simp


subsection \<open>Merging two cells\<close>

lemma collect_caps:
  assumes "set ids = cap_id ` set cs"
  shows "snd (fold (\<lambda>cap (ids, cs). if cap_id cap \<in> set ids then (ids, cs)
                                else (cap_id cap # ids, cs @ [cap])) caps (ids, cs))
         = fold (push_new_by cap_id) caps cs"
  using assms
proof (induction caps arbitrary: ids cs)
  case (Cons cap caps)
  show ?case
  proof (cases "cap_id cap \<in> set ids")
    case True
    with Cons.prems Cons.IH [of ids cs] show ?thesis
      by (simp add: push_new_by_def)
  next
    case False
    with Cons.prems Cons.IH [of "cap_id cap # ids" "cs @ [cap]"] show ?thesis
      by (simp add: push_new_by_def)
  qed
qed simp

lemma merge_cells_result:
  assumes "length (cs_members c1) + length (cs_members c2) < 2 ^ 32"
    and "snd (merge_cells self now uuid c1 c2) = Inr m"
  shows "cs_members m = fold push_new (cs_members c1 @ cs_members c2) []"
    and "cs_capabilities m = fold (push_new_by cap_id) (cs_capabilities c1 @ cs_capabilities c2) []"
    and "cs_leader_id m = None" and "get_id m = Some uuid"
    and "secs_or_0 (cs_timestamp m) = max (secs_or_0 (cs_timestamp c1)) (secs_or_0 (cs_timestamp c2))"
proof -
  let ?n = "length (cs_members c1) + length (cs_members c2)"
  let ?max = "max (of_nat (hm_max_cell_size self) :: u32) (of_nat ?n)"
  let ?cfg = "(cell_config_new now uuid ?max)\<lparr>cc_min_size := of_nat (hm_min_cell_size self)\<rparr>"
  have "unat (of_nat ?n :: u32) = ?n"
    using assms(1) by (rule unat_of_nat_u32)
  then have room: "?n \<le> unat ?max"
    by (metis max.cobounded2 word_le_nat_alt)
  have ms: "cs_members (add_members now (cs_members c1 @ cs_members c2) (cell_new now ?cfg)) =
      fold push_new (cs_members c1 @ cs_members c2) []"
    using room add_members_room [of "cell_new now ?cfg" ?cfg "cs_members c1 @ cs_members c2" now]
    by (simp add: cell_new_def cell_config_new_def)
  note folded = merge_cells_def add_members_def [symmetric] Let_def case_prod_beta
  show "cs_members m = fold push_new (cs_members c1 @ cs_members c2) []"
    using assms(2) ms by (auto simp: folded)
  show "cs_capabilities m = fold (push_new_by cap_id) (cs_capabilities c1 @ cs_capabilities c2) []"
    using assms(2) collect_caps [of "[]" "[]" "cs_capabilities c1 @ cs_capabilities c2"]
    by (auto simp: folded cell_new_def)
  show "cs_leader_id m = None" "get_id m = Some uuid"
    using assms(2) by (auto simp: folded get_id_def cell_new_def cell_config_new_def)
  show "secs_or_0 (cs_timestamp m) = max (secs_or_0 (cs_timestamp c1)) (secs_or_0 (cs_timestamp c2))"
    using assms(2) by (auto simp: folded max_def)
qed

text \<open>
  C15. \<open>merge_cells\<close> always succeeds and loses nobody: the merged cell has exactly the members and
  capability ids of the two cells, each once, no leader, the fresh id and the later timestamp.
\<close>

theorem merge_cells_complete:
  assumes "length (cs_members c1) + length (cs_members c2) < 2 ^ 32"
  shows "\<exists>m. snd (merge_cells self now uuid c1 c2) = Inr m
           \<and> distinct (cs_members m) \<and> set (cs_members m) = set (cs_members c1) \<union> set (cs_members c2)
           \<and> distinct (map cap_id (cs_capabilities m)) \<and> cap_ids m = cap_ids c1 \<union> cap_ids c2
           \<and> cs_leader_id m = None \<and> get_id m = Some uuid
           \<and> secs_or_0 (cs_timestamp m) = max (secs_or_0 (cs_timestamp c1)) (secs_or_0 (cs_timestamp c2))"
proof -
  obtain m where m: "snd (merge_cells self now uuid c1 c2) = Inr m"
    by (simp add: merge_cells_def Let_def case_prod_beta)
  note r = merge_cells_result [OF assms m]
  have caps: "map cap_id (cs_capabilities m) = fold push_new (map cap_id (cs_capabilities c1 @ cs_capabilities c2)) []"
    unfolding r(2) keys_fold_push_new_by by simp
  have "cap_ids m = set (map cap_id (cs_capabilities m))"
    by (simp add: cap_ids_def)
  then have "cap_ids m = cap_ids c1 \<union> cap_ids c2"
    unfolding caps by (auto simp: cap_ids_def)
  moreover have "distinct (map cap_id (cs_capabilities m))"
    unfolding caps by (rule distinct_fold_push_new) simp
  moreover have "distinct (cs_members m)" "set (cs_members m) = set (cs_members c1) \<union> set (cs_members c2)"
    unfolding r(1) by (rule distinct_fold_push_new, simp) (subst set_fold_push_new, simp)
  ultimately show ?thesis
    using m r by blast
qed

definition example_maintainer :: hierarchy_maintainer where
  "example_maintainer =
     \<lparr>hm_min_cell_size = 3, hm_max_cell_size = 5, hm_min_zone_cells = 1, hm_max_zone_cells = 4,
      hm_merge_count = 0, hm_split_count = 0, hm_rebalance_disruptions = 0\<rparr>"

definition example_squad :: "string \<Rightarrow> string list \<Rightarrow> cell_state" where
  "example_squad cid ms = (cell_new 1 (cell_config_with_id 1 cid 50))\<lparr>cs_members := ms\<rparr>"

theorem merge_cells_complete_witness:
  "\<exists>m. snd (merge_cells example_maintainer 9 ''u''
              (example_squad ''a'' [''n1'', ''n2'']) (example_squad ''b'' [''n2'', ''n3''])) = Inr m
       \<and> set (cs_members m) = {''n1'', ''n2'', ''n3''}"
  using merge_cells_complete [of "example_squad ''a'' [''n1'', ''n2'']" "example_squad ''b'' [''n2'', ''n3'']"
      example_maintainer 9 "''u''"]
  by (auto simp: example_squad_def)


subsection \<open>Splitting a cell\<close>

lemma split_fold:
  "fold (\<lambda>(i, member) (a, b). if i < sp then (fst (add_member now member a), b)
                              else (a, fst (add_member now member b)))
     (List.enumerate k ms) (a, b)
   = (add_members now (take (sp - k) ms) a, add_members now (drop (sp - k) ms) b)"
proof (induction ms arbitrary: k a b)
  case (Cons m ms)
  show ?case
  proof (cases "k < sp")
    case True
    then have "sp - k = Suc (sp - Suc k)" by simp
    with True Cons.IH [of "Suc k"] show ?thesis by simp
  next
    case False
    with Cons.IH [of "Suc k"] show ?thesis by simp
  qed
qed simp

lemma split_cell_result:
  assumes "length (cs_members c) \<ge> 2" "distinct (cs_members c)" "hm_max_cell_size self < 2 ^ 32"
  shows "\<exists>a b. snd (split_cell self now ua ub c) = Inr (a, b)
           \<and> cs_members a = take (hm_max_cell_size self) (take (length (cs_members c) div 2) (cs_members c))
           \<and> cs_members b = take (hm_max_cell_size self) (drop (length (cs_members c) div 2) (cs_members c))
           \<and> get_id a = Some ua \<and> get_id b = Some ub
           \<and> map_option cc_min_size (cs_config a) = Some (of_nat (hm_min_cell_size self))
           \<and> map_option cc_min_size (cs_config b) = Some (of_nat (hm_min_cell_size self))"
proof -
  let ?cfg = "\<lambda>u. (cell_config_new now u (of_nat (hm_max_cell_size self)))\<lparr>cc_min_size := of_nat (hm_min_cell_size self)\<rparr>"
  let ?h = "length (cs_members c) div 2"
  have fill: "cs_members (add_members now ms (cell_new now (?cfg u))) = take (hm_max_cell_size self) ms"
    if "distinct ms" for ms u
    using add_members_distinct [of "cell_new now (?cfg u)" "?cfg u" ms now] that
      unat_of_nat_u32 [OF assms(3)]
    by (simp add: cell_new_def cell_config_new_def)
  show ?thesis
    using assms(1) fill [of "take ?h (cs_members c)" ua] fill [of "drop ?h (cs_members c)" ub] assms(2)
    by (simp add: split_cell_def Let_def split_fold)
       (simp add: get_id_def cell_new_def cell_config_new_def)
qed

text \<open>
  Splitting a cell of two or more members succeeds, puts the first half in one cell and the
  second half in the other with no node in both, and keeps every member exactly when the cell has
  at most twice \<open>max_cell_size\<close> members; the members of a larger cell beyond that are dropped.
\<close>

theorem split_cell_keeps_members:
  assumes "length (cs_members c) \<ge> 2" "distinct (cs_members c)" "hm_max_cell_size self < 2 ^ 32"
  shows "\<exists>a b. snd (split_cell self now ua ub c) = Inr (a, b)
           \<and> set (cs_members a) \<inter> set (cs_members b) = {}
           \<and> length (cs_members a) \<le> hm_max_cell_size self \<and> length (cs_members b) \<le> hm_max_cell_size self
           \<and> (set (cs_members a) \<union> set (cs_members b) = set (cs_members c)
                \<longleftrightarrow> length (cs_members c) \<le> 2 * hm_max_cell_size self)"
proof -
  let ?ms = "cs_members c" and ?M = "hm_max_cell_size self"
  let ?h = "length ?ms div 2"
  obtain a b where ab: "snd (split_cell self now ua ub c) = Inr (a, b)"
    and a: "cs_members a = take ?M (take ?h ?ms)" and b: "cs_members b = take ?M (drop ?h ?ms)"
    using split_cell_result [OF assms] by blast
  have halves: "set (take ?h ?ms) \<inter> set (drop ?h ?ms) = {}"
    by (simp add: set_take_disj_set_drop_if_distinct [OF assms(2)])
  then have disj: "set (cs_members a) \<inter> set (cs_members b) = {}"
    unfolding a b using set_take_subset [of ?M "take ?h ?ms"] set_take_subset [of ?M "drop ?h ?ms"] by blast
  have "set (cs_members a) \<union> set (cs_members b) = set ?ms \<longleftrightarrow> length ?ms \<le> 2 * ?M"
  proof
    assume "length ?ms \<le> 2 * ?M"
    then have "cs_members a = take ?h ?ms" "cs_members b = drop ?h ?ms"
      unfolding a b by simp_all
    then show "set (cs_members a) \<union> set (cs_members b) = set ?ms"
      by (metis append_take_drop_id set_append)
  next
    assume "set (cs_members a) \<union> set (cs_members b) = set ?ms"
    then have "card (set (cs_members a) \<union> set (cs_members b)) = length ?ms"
      using distinct_card [OF assms(2)] by simp
    moreover have "card (set (cs_members a) \<union> set (cs_members b)) \<le> length (cs_members a) + length (cs_members b)"
      by (metis add_mono card_Un_le card_length order_trans)
    ultimately show "length ?ms \<le> 2 * ?M"
      unfolding a b by simp
  qed
  then show ?thesis
    using ab disj a b by simp
qed

theorem split_cell_keeps_members_witness:
  "\<exists>a b. snd (split_cell (example_maintainer\<lparr>hm_max_cell_size := 1, hm_min_cell_size := 0\<rparr>) 9 ''u'' ''v''
                (example_squad ''a'' [''n1'', ''n2'', ''n3''])) = Inr (a, b)
         \<and> set (cs_members a) \<union> set (cs_members b) \<noteq> {''n1'', ''n2'', ''n3''}"
  using split_cell_keeps_members [of "example_squad ''a'' [''n1'', ''n2'', ''n3'']"
      "example_maintainer\<lparr>hm_max_cell_size := 1, hm_min_cell_size := 0\<rparr>" 9 "''u''" "''v''"]
  by (auto simp: example_squad_def example_maintainer_def)


subsection \<open>The choice of a merge partner\<close>

definition mergeable :: "hierarchy_maintainer \<Rightarrow> cell_state \<Rightarrow> cell_state \<Rightarrow> bool" where
  "mergeable self cell c \<longleftrightarrow>
     id_or_unknown c \<noteq> id_or_unknown cell \<and>
     length (cs_members cell) + length (cs_members c) \<le> hm_max_cell_size self"

definition best_of :: "hierarchy_maintainer \<Rightarrow> cell_state \<Rightarrow> cell_state list \<Rightarrow> (cell_state \<times> nat) option \<Rightarrow> bool" where
  "best_of self cell cs best \<longleftrightarrow>
     (case best of
        None \<Rightarrow> \<forall>c \<in> set cs. \<not> mergeable self cell c
      | Some (b, s) \<Rightarrow> b \<in> set cs \<and> mergeable self cell b \<and> s = candidate_score cell b \<and>
          (\<forall>c \<in> set cs. mergeable self cell c \<longrightarrow> s \<le> candidate_score cell c))"

lemma candidate_step_best:
  "best_of self cell cs best \<Longrightarrow> best_of self cell (cs @ [c]) (candidate_step self cell c best)"
  by (auto simp: best_of_def candidate_step_def mergeable_def Let_def split: option.splits if_splits)

lemma fold_candidate_best: "best_of self cell cs (fold (candidate_step self cell) cs None)"
proof (induction cs rule: rev_induct)
  case Nil
  then show ?case by (simp add: best_of_def)
next
  case (snoc c cs)
  then show ?case by (simp add: candidate_step_best)
qed

text \<open>
  \<open>find_merge_candidate\<close> finds a partner exactly when some other cell fits within
  \<open>max_cell_size\<close>, and the one it names has the least score of all that fit.
\<close>

theorem find_merge_candidate_optimal:
  "(find_merge_candidate self cell cs = None \<longleftrightarrow> (\<forall>c \<in> set cs. \<not> mergeable self cell c))
   \<and> (\<forall>i. find_merge_candidate self cell cs = Some i \<longrightarrow>
        (\<exists>b \<in> set cs. id_or_unknown b = i \<and> mergeable self cell b \<and>
           (\<forall>c \<in> set cs. mergeable self cell c \<longrightarrow> candidate_score cell b \<le> candidate_score cell c)))"
proof (cases "fold (candidate_step self cell) cs None")
  case None
  with fold_candidate_best [of self cell cs] show ?thesis
    by (simp add: find_merge_candidate_def best_of_def)
next
  case (Some p)
  obtain b s where p: "p = (b, s)" by (cases p)
  with Some fold_candidate_best [of self cell cs] have
    best: "b \<in> set cs" "mergeable self cell b" "s = candidate_score cell b"
      "\<forall>c \<in> set cs. mergeable self cell c \<longrightarrow> s \<le> candidate_score cell c"
    unfolding best_of_def by auto
  from Some p have "find_merge_candidate self cell cs = Some (id_or_unknown b)"
    by (simp add: find_merge_candidate_def)
  with best show ?thesis by auto
qed

theorem find_merge_candidate_optimal_witness:
  "find_merge_candidate example_maintainer (example_squad ''a'' [''n1''])
     [example_squad ''a'' [''n1''], example_squad ''b'' [''n2'', ''n3'', ''n4'', ''n5'', ''n6'']] = None
   \<and> mergeable example_maintainer (example_squad ''a'' [''n1'']) (example_squad ''c'' [''n7''])"
proof -
  have "\<forall>c \<in> set [example_squad ''a'' [''n1''], example_squad ''b'' [''n2'', ''n3'', ''n4'', ''n5'', ''n6'']].
      \<not> mergeable example_maintainer (example_squad ''a'' [''n1'']) c"
    and "mergeable example_maintainer (example_squad ''a'' [''n1'']) (example_squad ''c'' [''n7''])"
    by code_simp+
  with find_merge_candidate_optimal [of example_maintainer "example_squad ''a'' [''n1'']"
      "[example_squad ''a'' [''n1''], example_squad ''b'' [''n2'', ''n3'', ''n4'', ''n5'', ''n6'']]"]
  show ?thesis by blast
qed


subsection \<open>The rebalancing pass\<close>

lemma rebalance_loop_idle:
  assumes "\<forall>c \<in> set cs. needs_rebalance (rb_maintainer self) c = RebalanceNone"
  shows "rebalance_loop ts fresh all_cells i cs n self = (self, Inr n)"
  using assms by (induction cs arbitrary: i) simp_all

text \<open>
  The pass never repairs an undersized cell whose own \<open>min_size\<close> is the maintainer's, which is
  the \<open>min_size\<close> that \<open>merge_cells\<close> and \<open>split_cell\<close> give every cell they make: such a cell is not a
  valid cell, so the query of the pass leaves it out. With no oversized cell the pass does nothing.
\<close>

theorem undersized_cells_never_merged:
  assumes "\<forall>c \<in> set stored. map_option cc_min_size (cs_config c) = Some (of_nat (hm_min_cell_size (rb_maintainer self)))"
    and "\<forall>c \<in> set stored. length (cs_members c) \<le> hm_max_cell_size (rb_maintainer self)"
    and "hm_min_cell_size (rb_maintainer self) < 2 ^ 32"
  shows "check_and_rebalance ts fresh stored self = (self, Inr 0)"
proof -
  have "needs_rebalance (rb_maintainer self) c = RebalanceNone"
    if "c \<in> set stored" "cell_is_valid c" for c
    using that assms(1,2) unat_of_nat_u32 [OF assms(3)]
    by (fastforce simp: cell_is_valid_def needs_rebalance_def Let_def split: option.splits)
  then show ?thesis
    by (simp add: check_and_rebalance_def Let_def get_valid_cells_def rebalance_loop_idle)
qed

definition example_rebalancer :: rebalancer where
  "example_rebalancer =
     \<lparr>rb_maintainer = example_maintainer,
      rb_routing = \<lparr>node_to_cell = [(''n1'', ''a'', 5), (''n2'', ''a'', 5), (''n3'', ''b'', 5), (''n4'', ''b'', 5)],
                    cell_to_zone = [], cell_leaders = []\<rparr>\<rparr>"

definition example_small :: "string \<Rightarrow> string list \<Rightarrow> cell_state" where
  "example_small cid ms =
     (cell_new 1 ((cell_config_with_id 1 cid 50)\<lparr>cc_min_size := 3\<rparr>))\<lparr>cs_members := ms\<rparr>"

theorem undersized_cells_never_merged_witness:
  "needs_rebalance example_maintainer (example_small ''a'' [''n1'']) = RebalanceMerge
   \<and> check_and_rebalance 9 (\<lambda>_. (''u'', ''v'')) [example_small ''a'' [''n1''], example_small ''b'' [''n3'']]
       example_rebalancer = (example_rebalancer, Inr 0)"
proof
  show "needs_rebalance example_maintainer (example_small ''a'' [''n1'']) = RebalanceMerge"
    by code_simp
  show "check_and_rebalance 9 (\<lambda>_. (''u'', ''v'')) [example_small ''a'' [''n1''], example_small ''b'' [''n3'']]
          example_rebalancer = (example_rebalancer, Inr 0)"
    by (rule undersized_cells_never_merged)
       (simp_all add: example_small_def example_rebalancer_def example_maintainer_def cell_new_def
          cell_config_with_id_def)
qed

text \<open>
  Two undersized cells that are each other's partner, as the snapshot of the pass has them.
\<close>

lemma lone_candidate:
  assumes "id_or_unknown a \<noteq> id_or_unknown b"
    and "length (cs_members a) + length (cs_members b) \<le> hm_max_cell_size self"
  shows "find_merge_candidate self a [a, b] = Some (id_or_unknown b)"
    and "find_merge_candidate self b [a, b] = Some (id_or_unknown a)"
  using assms by (simp_all add: find_merge_candidate_def candidate_step_def Let_def add.commute)

lemma merge_cells_rt_empties:
  assumes "rt_wf t" "merged \<notin> set srcs"
    and "\<forall>n cell ts'. node_entry t n = Some (cell, ts') \<longrightarrow> ts' < ts"
    and "c \<in> set srcs"
  shows "get_cell_nodes (fst (merge_cells_rt t srcs merged zone ts)) c = []"
proof -
  let ?t = "fst (merge_cells_rt t srcs merged zone ts)"
  have "get_node_cell ?t n \<noteq> Some c" for n
  proof
    assume at: "get_node_cell ?t n = Some c"
    let ?ns = "concat (map (get_cell_nodes t) srcs)"
    have "lww_newer ts (node_entry t n)"
      using assms(3) by (auto simp: lww_newer_def split: option.splits)
    with at assms(2,4) have "n \<notin> set ?ns" "get_node_cell t n = Some c"
      by (auto simp: get_node_cell_entry merge_cells_node_entry reassign_nodes_entry split: if_splits)
    with assms(1,4) show False
      by (simp add: set_get_cell_nodes)
  qed
  then have "set (get_cell_nodes ?t c) = {}"
    using set_get_cell_nodes [OF rt_wf_merge_cells [OF assms(1)]] by simp
  then show ?thesis by simp
qed

text \<open>
  The pass works on one snapshot of the cells: two undersized cells that fit together are merged
  twice. The second merge finds both source cells already empty, so it moves no node, and the pass
  reports two operations for the one merge that happened.
\<close>

theorem mutual_merge_counted_twice:
  assumes wf: "rt_wf (rb_routing self)"
    and ids: "id_or_unknown a \<noteq> id_or_unknown b" "fst (fresh 0) \<notin> {id_or_unknown a, id_or_unknown b}"
    and fits: "length (cs_members a) + length (cs_members b) \<le> hm_max_cell_size (rb_maintainer self)"
    and small: "needs_rebalance (rb_maintainer self) a = RebalanceMerge"
      "needs_rebalance (rb_maintainer self) b = RebalanceMerge"
    and valid: "cell_is_valid a" "cell_is_valid b"
    and newer: "\<forall>n cell ts'. node_entry (rb_routing self) n = Some (cell, ts') \<longrightarrow> ts' < ts"
  shows "snd (check_and_rebalance ts fresh [a, b] self) = Inr 2
         \<and> node_entry (rb_routing (fst (check_and_rebalance ts fresh [a, b] self))) =
             node_entry (fst (merge_cells_rt (rb_routing self) [id_or_unknown a, id_or_unknown b]
               (fst (fresh 0)) (cs_cohort_id a) ts))"
proof -
  let ?t1 = "fst (merge_cells_rt (rb_routing self) [id_or_unknown a, id_or_unknown b]
               (fst (fresh 0)) (cs_cohort_id a) ts)"
  have empty: "get_cell_nodes ?t1 (id_or_unknown a) = []" "get_cell_nodes ?t1 (id_or_unknown b) = []"
    using ids(2) newer by (auto intro!: merge_cells_rt_empties [OF wf])
  have run: "check_and_rebalance ts fresh [a, b] self =
      (self\<lparr>rb_routing := fst (merge_cells_rt ?t1 [id_or_unknown b, id_or_unknown a]
         (fst (fresh (Suc 0))) (cs_cohort_id b) ts)\<rparr>, Inr 2)"
    using small valid lone_candidate [OF ids(1) fits]
    by (simp add: check_and_rebalance_def get_valid_cells_def numeral_2_eq_2)
  have "node_entry (fst (merge_cells_rt ?t1 [id_or_unknown b, id_or_unknown a]
      (fst (fresh (Suc 0))) (cs_cohort_id b) ts)) = node_entry ?t1"
    unfolding merge_cells_node_entry [of ?t1] using empty by (simp add: reassign_nodes_def)
  then show ?thesis
    unfolding run by simp
qed

theorem mutual_merge_counted_twice_witness:
  "snd (check_and_rebalance 9 (\<lambda>i. if i = 0 then (''m0'', ''x0'') else (''m1'', ''x1''))
          [example_squad ''a'' [''n1'', ''n2''], example_squad ''b'' [''n3'', ''n4'']] example_rebalancer) = Inr 2"
proof -
  have "rt_wf (rb_routing example_rebalancer)"
    "\<forall>n cell ts'. node_entry (rb_routing example_rebalancer) n = Some (cell, ts') \<longrightarrow> ts' < (9 :: u64)"
    by (auto simp: rt_wf_def example_rebalancer_def hm_wf_def entry_defs hm_get_Cons split: if_splits)
  moreover have
    "id_or_unknown (example_squad ''a'' [''n1'', ''n2'']) = ''a''"
    "id_or_unknown (example_squad ''b'' [''n3'', ''n4'']) = ''b''"
    "needs_rebalance (rb_maintainer example_rebalancer) (example_squad ''a'' [''n1'', ''n2'']) = RebalanceMerge"
    "needs_rebalance (rb_maintainer example_rebalancer) (example_squad ''b'' [''n3'', ''n4'']) = RebalanceMerge"
    "cell_is_valid (example_squad ''a'' [''n1'', ''n2''])" "cell_is_valid (example_squad ''b'' [''n3'', ''n4''])"
    "length (cs_members (example_squad ''a'' [''n1'', ''n2''])) +
       length (cs_members (example_squad ''b'' [''n3'', ''n4''])) \<le> hm_max_cell_size (rb_maintainer example_rebalancer)"
    by code_simp+
  ultimately show ?thesis
    using mutual_merge_counted_twice [of example_rebalancer "example_squad ''a'' [''n1'', ''n2'']"
        "example_squad ''b'' [''n3'', ''n4'']"] by simp
qed

end
