(* ===== verification/Cell_Messaging.thy ===== *)
theory Cell_Messaging
  imports Peat_Schema Peat_Error
begin

text \<open>
  The message bus of a cell, \<open>peat-protocol/src/cell/messaging.rs\<close>: priorities and their escalation,
  message construction and expiry, publishing with tracking, delivery with duplicate suppression,
  acknowledgement and retransmission. A handler is an identifier; delivery returns the list of
  handler invocations. A JSON value and an \<open>f64\<close> that are only carried are their text and bits.
\<close>


subsection \<open>Priorities\<close>

datatype message_priority = PrioLow | PrioNormal | PrioHigh | PrioCritical

fun message_priority_rank :: "message_priority \<Rightarrow> nat" where
  "message_priority_rank PrioLow = 0"
| "message_priority_rank PrioNormal = 1"
| "message_priority_rank PrioHigh = 2"
| "message_priority_rank PrioCritical = 3"

lemma message_priority_rank_inj: "message_priority_rank p = message_priority_rank q \<Longrightarrow> p = q"
  by (cases p; cases q) simp_all

instantiation message_priority :: linorder
begin

definition less_eq_message_priority :: "message_priority \<Rightarrow> message_priority \<Rightarrow> bool" where
  "less_eq_message_priority p q \<longleftrightarrow> message_priority_rank p \<le> message_priority_rank q"

definition less_message_priority :: "message_priority \<Rightarrow> message_priority \<Rightarrow> bool" where
  "less_message_priority p q \<longleftrightarrow> message_priority_rank p < message_priority_rank q"

instance
  by standard
     (auto simp: less_eq_message_priority_def less_message_priority_def intro: message_priority_rank_inj)

end

datatype routing_context = IntraCell | CellToZone | ZoneToCell | IntraZone

fun escalate :: "message_priority \<Rightarrow> routing_context \<Rightarrow> message_priority" where
  "escalate PrioLow CellToZone = PrioNormal"
| "escalate PrioNormal CellToZone = PrioHigh"
| "escalate PrioHigh CellToZone = PrioCritical"
| "escalate PrioCritical CellToZone = PrioCritical"
| "escalate p IntraCell = p"
| "escalate p ZoneToCell = p"
| "escalate p IntraZone = p"

definition can_preempt :: "message_priority \<Rightarrow> message_priority \<Rightarrow> bool" where
  "can_preempt self other \<longleftrightarrow> self > other"

text \<open>The bandwidth multiplier, in halves: 0.5, 1.0, 1.5 and 2.0 are exact in binary.\<close>

fun bandwidth_multiplier_halves :: "message_priority \<Rightarrow> nat" where
  "bandwidth_multiplier_halves PrioLow = 1"
| "bandwidth_multiplier_halves PrioNormal = 2"
| "bandwidth_multiplier_halves PrioHigh = 3"
| "bandwidth_multiplier_halves PrioCritical = 4"


subsection \<open>Messages\<close>

datatype cell_role =
  RoleLeader | RoleSensor | RoleCompute | RoleRelay | RoleStrike | RoleSupport | RoleFollower

datatype cell_message_type =
    MtJoin string "capability list"
  | MtLeave string string
  | MtCapabilityAnnounce string "capability list"
  | MtLeaderAnnounce string u32
  | MtHeartbeat string
  | MtRoleAssignment string cell_role u64 bool
  | MtStatusUpdate string string
  | MtAck u64
  | MtNack u64 string

record cell_message =
  cm_message_id :: string
  cm_seq :: u64
  cm_sender :: string
  cm_cell_id :: string
  cm_priority :: message_priority
  cm_routing_context :: routing_context
  cm_payload :: cell_message_type
  cm_timestamp :: u64
  cm_ttl :: u64

definition cell_message_new :: "u64 \<Rightarrow> string \<Rightarrow> string \<Rightarrow> u64 \<Rightarrow> cell_message_type \<Rightarrow> cell_message" where
  "cell_message_new now sender cell_id seq payload =
     \<lparr>cm_message_id = sender @ ''-'' @ display_nat (unat seq), cm_seq = seq, cm_sender = sender,
      cm_cell_id = cell_id, cm_priority = PrioNormal, cm_routing_context = IntraCell,
      cm_payload = payload, cm_timestamp = now, cm_ttl = 30\<rparr>"

definition with_priority :: "message_priority \<Rightarrow> cell_message \<Rightarrow> cell_message" where
  "with_priority priority self = self\<lparr>cm_priority := priority\<rparr>"

definition with_routing_context :: "routing_context \<Rightarrow> cell_message \<Rightarrow> cell_message" where
  "with_routing_context ctxt self = self\<lparr>cm_routing_context := ctxt\<rparr>"

definition with_ttl :: "u64 \<Rightarrow> cell_message \<Rightarrow> cell_message" where
  "with_ttl ttl self = self\<lparr>cm_ttl := ttl\<rparr>"

definition escalate_priority :: "cell_message \<Rightarrow> cell_message" where
  "escalate_priority self = self\<lparr>cm_priority := escalate (cm_priority self) (cm_routing_context self)\<rparr>"

definition effective_priority :: "cell_message \<Rightarrow> message_priority" where
  "effective_priority self = escalate (cm_priority self) (cm_routing_context self)"

definition message_is_expired :: "u64 \<Rightarrow> cell_message \<Rightarrow> bool" where
  "message_is_expired current_time self \<longleftrightarrow> saturating_sub current_time (cm_timestamp self) > cm_ttl self"

definition role_assignment ::
    "u64 \<Rightarrow> string \<Rightarrow> string \<Rightarrow> u64 \<Rightarrow> string \<Rightarrow> cell_role \<Rightarrow> u64 \<Rightarrow> bool \<Rightarrow> cell_message" where
  "role_assignment now sender cell_id seq node_id role score is_primary =
     with_priority PrioHigh
       (cell_message_new now sender cell_id seq (MtRoleAssignment node_id role score is_primary))"


subsection \<open>The bus\<close>

datatype delivery_status = DsPending | DsDelivered | DsAcknowledged | DsFailed

record tracked_message =
  tm_message :: cell_message
  tm_status :: delivery_status
  tm_retry_count :: u32
  tm_last_send :: instant

record cell_message_bus =
  bus_cell_id :: string
  bus_node_id :: string
  bus_next_seq :: u64
  bus_outbound_queue :: "cell_message list"
  bus_tracked_messages :: "(u64, tracked_message) hash_map"
  bus_received_seqs :: "(string, u64) hash_map"
  bus_subscribers :: "nat list"
  bus_retry_timeout :: nat
  bus_max_retries :: u32

record message_bus_stats =
  ms_pending_outbound :: nat
  ms_tracked_messages :: nat
  ms_unique_senders :: nat
  ms_subscriber_count :: nat
  ms_next_seq :: u64

definition bus_new :: "string \<Rightarrow> string \<Rightarrow> cell_message_bus" where
  "bus_new cell_id node_id =
     \<lparr>bus_cell_id = cell_id, bus_node_id = node_id, bus_next_seq = 1, bus_outbound_queue = [],
      bus_tracked_messages = [], bus_received_seqs = [], bus_subscribers = [],
      bus_retry_timeout = from_secs 2, bus_max_retries = 3\<rparr>"

definition subscribe :: "nat \<Rightarrow> cell_message_bus \<Rightarrow> cell_message_bus" where
  "subscribe handler self = self\<lparr>bus_subscribers := bus_subscribers self @ [handler]\<rparr>"

definition publish ::
    "u64 \<Rightarrow> instant \<Rightarrow> cell_message_type \<Rightarrow> cell_message_bus \<Rightarrow> cell_message_bus \<times> u64" where
  "publish now at payload self =
     (let seq = bus_next_seq self;
          s1 = self\<lparr>bus_next_seq := seq + 1\<rparr>;
          message = cell_message_new now (bus_node_id s1) (bus_cell_id s1) seq payload;
          s2 = s1\<lparr>bus_outbound_queue := sort_desc_by cm_priority (bus_outbound_queue s1 @ [message])\<rparr>;
          tracked = \<lparr>tm_message = message, tm_status = DsPending, tm_retry_count = 0, tm_last_send = at\<rparr>;
          s3 = s2\<lparr>bus_tracked_messages := hm_insert seq tracked (bus_tracked_messages s2)\<rparr>
      in (s3, seq))"

definition deliver ::
    "u64 \<Rightarrow> cell_message \<Rightarrow> cell_message_bus \<Rightarrow> cell_message_bus \<times> (nat \<times> cell_message) list" where
  "deliver now message self =
     (if message_is_expired now message then (self, [])
      else if (case hm_get (bus_received_seqs self) (cm_sender message) of
                 Some last_seq \<Rightarrow> cm_seq message \<le> last_seq
               | None \<Rightarrow> False)
      then (self, [])
      else (self\<lparr>bus_received_seqs := hm_insert (cm_sender message) (cm_seq message) (bus_received_seqs self)\<rparr>,
            map (\<lambda>handler. (handler, message)) (bus_subscribers self)))"

definition acknowledge :: "u64 \<Rightarrow> cell_message_bus \<Rightarrow> cell_message_bus" where
  "acknowledge message_seq self =
     (case hm_get (bus_tracked_messages self) message_seq of
        Some msg \<Rightarrow>
          self\<lparr>bus_tracked_messages :=
            hm_insert message_seq (msg\<lparr>tm_status := DsAcknowledged\<rparr>) (bus_tracked_messages self)\<rparr>
      | None \<Rightarrow> self)"

text \<open>One turn of the loop of \<open>process_retransmissions\<close>, and whether it resends the message.\<close>

definition retry_entry :: "instant \<Rightarrow> cell_message_bus \<Rightarrow> tracked_message \<Rightarrow> tracked_message \<times> bool" where
  "retry_entry now self msg =
     (if tm_status msg = DsAcknowledged then (msg, False)
      else if elapsed now (tm_last_send msg) \<ge> bus_retry_timeout self
      then (if tm_retry_count msg \<ge> bus_max_retries self then (msg\<lparr>tm_status := DsFailed\<rparr>, False)
            else (msg\<lparr>tm_retry_count := tm_retry_count msg + 1, tm_last_send := now,
                      tm_status := DsDelivered\<rparr>, True))
      else (msg, False))"

definition process_retransmissions ::
    "instant \<Rightarrow> cell_message_bus \<Rightarrow> cell_message_bus \<times> cell_message list" where
  "process_retransmissions now self =
     (let tracked = hm_map_values (\<lambda>_ msg. fst (retry_entry now self msg)) (bus_tracked_messages self);
          to_retry = map (\<lambda>(_, msg). tm_message msg)
                       (filter (\<lambda>(_, msg). snd (retry_entry now self msg)) (bus_tracked_messages self))
      in (self\<lparr>bus_tracked_messages :=
             hm_retain (\<lambda>_ msg. tm_status msg \<noteq> DsAcknowledged \<and> tm_status msg \<noteq> DsFailed) tracked\<rparr>,
          to_retry))"

definition get_pending_messages :: "cell_message_bus \<Rightarrow> cell_message_bus \<times> cell_message list" where
  "get_pending_messages self = (self\<lparr>bus_outbound_queue := []\<rparr>, bus_outbound_queue self)"

definition bus_stats :: "cell_message_bus \<Rightarrow> message_bus_stats" where
  "bus_stats self =
     \<lparr>ms_pending_outbound = length (bus_outbound_queue self),
      ms_tracked_messages = length (bus_tracked_messages self),
      ms_unique_senders = length (bus_received_seqs self),
      ms_subscriber_count = length (bus_subscribers self), ms_next_seq = bus_next_seq self\<rparr>"


subsection \<open>Escalation\<close>

lemma escalate_increases: "p \<le> escalate p c"
  by (cases p; cases c) (simp_all add: less_eq_message_priority_def)

lemma escalate_mono: "p \<le> q \<Longrightarrow> escalate p c \<le> escalate q c"
  by (cases p; cases q; cases c) (simp_all add: less_eq_message_priority_def)


subsection \<open>The invariant of the bus\<close>

definition bus_wf :: "cell_message_bus \<Rightarrow> bool" where
  "bus_wf b \<longleftrightarrow>
     sorted_wrt (<) (map cm_seq (bus_outbound_queue b)) \<and>
     (\<forall>m \<in> set (bus_outbound_queue b).
        cm_priority m = PrioNormal \<and> cm_sender m = bus_node_id b \<and> cm_seq m < bus_next_seq b) \<and>
     hm_wf (bus_tracked_messages b) \<and> hm_wf (bus_received_seqs b) \<and>
     (\<forall>k t. hm_get (bus_tracked_messages b) k = Some t \<longrightarrow>
        k < bus_next_seq b \<and> cm_seq (tm_message t) = k \<and> tm_retry_count t \<le> bus_max_retries b \<and>
        tm_status t \<noteq> DsFailed)"

inductive bus_step :: "cell_message_bus \<Rightarrow> cell_message_bus \<Rightarrow> bool" where
  subscribe: "bus_step b (subscribe h b)"
| publish: "bus_next_seq b \<noteq> - 1 \<Longrightarrow> bus_step b (fst (publish now at p b))"
| deliver: "bus_step b (fst (deliver now m b))"
| acknowledge: "bus_step b (acknowledge k b)"
| retransmit: "bus_step b (fst (process_retransmissions at b))"
| drain: "bus_step b (fst (get_pending_messages b))"

lemma bus_wf_new: "bus_wf (bus_new c n)"
  by (simp add: bus_wf_def bus_new_def)

lemma publish_queue:
  assumes "bus_wf b"
  shows "bus_outbound_queue (fst (publish now at p b)) =
           bus_outbound_queue b @ [cell_message_new now (bus_node_id b) (bus_cell_id b) (bus_next_seq b) p]"
  using assms
  by (simp add: publish_def Let_def, intro sort_desc_by_const [where k = PrioNormal])
     (auto simp: bus_wf_def cell_message_new_def)

lemma bus_wf_publish:
  assumes "bus_wf b" "bus_next_seq b \<noteq> - 1"
  shows "bus_wf (fst (publish now at p b))"
proof -
  let ?b = "fst (publish now at p b)" and ?n = "bus_next_seq b"
  let ?m = "cell_message_new now (bus_node_id b) (bus_cell_id b) ?n p"
  have next_seq: "bus_next_seq ?b = ?n + 1" "?n < ?n + 1"
    using assms(2) by (simp_all add: publish_def Let_def word_less_Suc)
  have msg: "cm_priority ?m = PrioNormal" "cm_sender ?m = bus_node_id b" "cm_seq ?m = ?n"
    by (simp_all add: cell_message_new_def)
  have tracked: "bus_tracked_messages ?b =
      hm_insert ?n \<lparr>tm_message = ?m, tm_status = DsPending, tm_retry_count = 0, tm_last_send = at\<rparr>
        (bus_tracked_messages b)"
    by (simp add: publish_def Let_def)
  have rest: "bus_received_seqs ?b = bus_received_seqs b" "bus_max_retries ?b = bus_max_retries b"
    "bus_node_id ?b = bus_node_id b"
    by (simp_all add: publish_def Let_def)
  show ?thesis
    using assms(1) next_seq msg
    unfolding bus_wf_def publish_queue [OF assms(1)] tracked rest
    by (auto simp: sorted_wrt_append intro: less_trans)
qed

lemma retry_entry_cases:
  "fst (retry_entry now b t) = t \<and> \<not> snd (retry_entry now b t)
   \<or> tm_status (fst (retry_entry now b t)) = DsFailed \<and> \<not> snd (retry_entry now b t)
   \<or> tm_retry_count t < bus_max_retries b \<and> snd (retry_entry now b t) \<and>
     fst (retry_entry now b t) =
       t\<lparr>tm_retry_count := tm_retry_count t + 1, tm_last_send := now, tm_status := DsDelivered\<rparr>"
  by (auto simp: retry_entry_def not_le)

lemma poll_tracked:
  assumes "bus_wf b"
  shows "hm_get (bus_tracked_messages (fst (process_retransmissions now b))) k =
     (case hm_get (bus_tracked_messages b) k of
        None \<Rightarrow> None
      | Some t \<Rightarrow> (let t' = fst (retry_entry now b t)
                   in if tm_status t' \<noteq> DsAcknowledged \<and> tm_status t' \<noteq> DsFailed then Some t' else None))"
  using assms
  by (simp add: process_retransmissions_def Let_def bus_wf_def hm_get_retain hm_get_map_values split: option.splits)

lemma poll_frame [simp, frame_simps]:
  "bus_outbound_queue (fst (process_retransmissions now b)) = bus_outbound_queue b"
  "bus_received_seqs (fst (process_retransmissions now b)) = bus_received_seqs b"
  "bus_next_seq (fst (process_retransmissions now b)) = bus_next_seq b"
  "bus_max_retries (fst (process_retransmissions now b)) = bus_max_retries b"
  "bus_retry_timeout (fst (process_retransmissions now b)) = bus_retry_timeout b"
  "bus_node_id (fst (process_retransmissions now b)) = bus_node_id b"
  by (simp_all add: process_retransmissions_def Let_def)

lemma bus_wf_poll:
  assumes "bus_wf b"
  shows "bus_wf (fst (process_retransmissions now b))"
proof -
  have "k < bus_next_seq b \<and> cm_seq (tm_message t) = k \<and> tm_retry_count t \<le> bus_max_retries b \<and>
        tm_status t \<noteq> DsFailed"
    if "hm_get (bus_tracked_messages (fst (process_retransmissions now b))) k = Some t" for k t
  proof -
    from that obtain t0 where t0: "hm_get (bus_tracked_messages b) k = Some t0"
      and t: "t = fst (retry_entry now b t0)" "tm_status t \<noteq> DsFailed"
      by (auto simp: poll_tracked [OF assms] Let_def split: option.splits if_splits)
    from assms t0 have "k < bus_next_seq b" "cm_seq (tm_message t0) = k" "tm_retry_count t0 \<le> bus_max_retries b"
      by (auto simp: bus_wf_def)
    then show ?thesis
      using retry_entry_cases [of now b t0] t by (auto simp: inc_le)
  qed
  moreover have "hm_wf (bus_tracked_messages (fst (process_retransmissions now b)))"
    using assms by (simp add: process_retransmissions_def Let_def bus_wf_def)
  ultimately show ?thesis
    using assms by (simp add: bus_wf_def)
qed

lemma bus_wf_acknowledge: "bus_wf b \<Longrightarrow> bus_wf (acknowledge k b)"
  by (auto simp: acknowledge_def bus_wf_def split: option.splits)

lemma bus_step_wf: "bus_step b b' \<Longrightarrow> bus_wf b \<Longrightarrow> bus_wf b'"
  by (induction rule: bus_step.induct)
     (auto simp: bus_wf_publish bus_wf_poll bus_wf_acknowledge,
      auto simp: bus_wf_def subscribe_def deliver_def get_pending_messages_def)

text \<open>
  C13. The outbound queue is first in, first out: along every run of bus operations the pending
  messages have strictly increasing sequence numbers below the next one, every tracked message is
  filed under its own number, and none exceeds the retry limit. (The priority sort never reorders
  anything, because every published message has normal priority.)
\<close>

theorem bus_run_invariant:
  assumes "bus_step\<^sup>*\<^sup>* (bus_new c n) b"
  shows "sorted_wrt (<) (map cm_seq (snd (get_pending_messages b)))
         \<and> (\<forall>m \<in> set (snd (get_pending_messages b)). cm_seq m < bus_next_seq b \<and> cm_priority m = PrioNormal)
         \<and> (\<forall>k t. hm_get (bus_tracked_messages b) k = Some t \<longrightarrow>
               k < bus_next_seq b \<and> cm_seq (tm_message t) = k \<and> tm_retry_count t \<le> bus_max_retries b)"
proof -
  from assms have "bus_wf b"
    by induction (auto simp: bus_wf_new bus_step_wf)
  then show ?thesis
    by (auto simp: bus_wf_def get_pending_messages_def)
qed

theorem bus_run_invariant_witness:
  "sorted_wrt (<) (map cm_seq (snd (get_pending_messages
     (fst (publish 9 0 (MtHeartbeat ''n1'') (fst (publish 8 0 (MtAck 4) (bus_new ''alpha'' ''n1''))))))))"
proof -
  have "bus_step (bus_new ''alpha'' ''n1'') (fst (publish 8 0 (MtAck 4) (bus_new ''alpha'' ''n1'')))"
    by (rule bus_step.publish) (simp add: publish_def Let_def bus_new_def)
  moreover have "bus_step (fst (publish 8 0 (MtAck 4) (bus_new ''alpha'' ''n1'')))
      (fst (publish 9 0 (MtHeartbeat ''n1'') (fst (publish 8 0 (MtAck 4) (bus_new ''alpha'' ''n1'')))))"
    by (rule bus_step.publish) (simp add: publish_def Let_def bus_new_def)
  ultimately have "bus_step\<^sup>*\<^sup>* (bus_new ''alpha'' ''n1'')
      (fst (publish 9 0 (MtHeartbeat ''n1'') (fst (publish 8 0 (MtAck 4) (bus_new ''alpha'' ''n1'')))))"
    by (meson rtranclp.rtrancl_into_rtrancl r_into_rtranclp)
  from bus_run_invariant [OF this] show ?thesis by blast
qed


subsection \<open>Delivery\<close>

text \<open>A sequence of deliveries, each with the clock reading it makes, and what the handlers saw.\<close>

fun deliver_all ::
    "(u64 \<times> cell_message) list \<Rightarrow> cell_message_bus \<Rightarrow> cell_message_bus \<times> (nat \<times> cell_message) list" where
  "deliver_all [] b = (b, [])"
| "deliver_all ((now, m) # ms) b =
     (fst (deliver_all ms (fst (deliver now m b))),
      snd (deliver now m b) @ snd (deliver_all ms (fst (deliver now m b))))"

definition received_at_least :: "cell_message_bus \<Rightarrow> string \<Rightarrow> u64 \<Rightarrow> bool" where
  "received_at_least b s k \<longleftrightarrow> (\<exists>l. hm_get (bus_received_seqs b) s = Some l \<and> k \<le> l)"

lemma received_less:
  assumes "received_at_least b s i" "\<not> received_at_least b s k"
  shows "i < k"
proof -
  from assms(1) obtain l where "hm_get (bus_received_seqs b) s = Some l" "i \<le> l"
    by (auto simp: received_at_least_def)
  moreover from this(1) assms(2) have "l < k"
    by (auto simp: received_at_least_def not_le)
  ultimately show ?thesis by simp
qed

lemma deliver_subscribers [simp]: "bus_subscribers (fst (deliver now m b)) = bus_subscribers b"
  by (simp add: deliver_def)

lemma deliver_keeps_received:
  "received_at_least b s k \<Longrightarrow> received_at_least (fst (deliver now m b)) s k"
  by (auto simp: received_at_least_def deliver_def split: option.splits)

lemma deliver_all_keeps_received:
  "received_at_least b s k \<Longrightarrow> received_at_least (fst (deliver_all ms b)) s k"
  by (induction ms b rule: deliver_all.induct)
     (auto simp: deliver_keeps_received)

lemma deliver_old: "received_at_least b (cm_sender m) (cm_seq m) \<Longrightarrow> deliver now m b = (b, [])"
  by (auto simp: received_at_least_def deliver_def)

lemma deliver_accepted:
  assumes "snd (deliver now m b) \<noteq> []"
  shows "snd (deliver now m b) = map (\<lambda>h. (h, m)) (bus_subscribers b)"
    and "received_at_least (fst (deliver now m b)) (cm_sender m) (cm_seq m)"
    and "\<not> received_at_least b (cm_sender m) (cm_seq m)"
  using assms by (auto simp: deliver_def received_at_least_def split: if_splits option.splits)

lemma deliver_all_fresh:
  "(h, m) \<in> set (snd (deliver_all ms b)) \<Longrightarrow> \<not> received_at_least b (cm_sender m) (cm_seq m)"
proof (induction ms b rule: deliver_all.induct)
  case (2 now m' ms b)
  show ?case
  proof (cases "(h, m) \<in> set (snd (deliver now m' b))")
    case True
    then have ne: "snd (deliver now m' b) \<noteq> []" by auto
    with True have "m = m'" using deliver_accepted(1) [OF ne] by auto
    with deliver_accepted(3) [OF ne] show ?thesis by simp
  next
    case False
    with "2.prems" have "(h, m) \<in> set (snd (deliver_all ms (fst (deliver now m' b))))"
      by auto
    from "2.IH" (1) [OF this] show ?thesis
      using deliver_keeps_received by blast
  qed
qed simp

definition seen_by :: "nat \<Rightarrow> string \<Rightarrow> (nat \<times> cell_message) list \<Rightarrow> u64 list" where
  "seen_by h s l = map (\<lambda>(_, m). cm_seq m) (filter (\<lambda>(h', m). h' = h \<and> cm_sender m = s) l)"

lemma seen_by_append [simp]: "seen_by h s (l @ l') = seen_by h s l @ seen_by h s l'"
  by (simp add: seen_by_def)

lemma seen_by_one:
  "distinct hs \<Longrightarrow> seen_by h s (map (\<lambda>h. (h, m)) hs) = (if h \<in> set hs \<and> cm_sender m = s then [cm_seq m] else [])"
  by (induction hs) (auto simp: seen_by_def)

text \<open>
  C37. No duplicates and no reordering reach a subscriber: over any sequence of arrivals, what a
  subscriber sees from one sender has strictly increasing sequence numbers.
\<close>

theorem deliveries_increase:
  assumes "distinct (bus_subscribers b)"
  shows "sorted_wrt (<) (seen_by h s (snd (deliver_all ms b)))"
  using assms
proof (induction ms b rule: deliver_all.induct)
  case (2 now m ms b)
  let ?b = "fst (deliver now m b)"
  have rest: "sorted_wrt (<) (seen_by h s (snd (deliver_all ms ?b)))"
    using "2.IH" "2.prems" by simp
  have log: "snd (deliver_all ((now, m) # ms) b) = snd (deliver now m b) @ snd (deliver_all ms ?b)"
    by simp
  show ?case
  proof (cases "snd (deliver now m b) = []")
    case True
    with rest log show ?thesis by simp
  next
    case False
    note acc = deliver_accepted [OF False]
    have "cm_seq m < k" if sender: "cm_sender m = s" and "k \<in> set (seen_by h s (snd (deliver_all ms ?b)))" for k
    proof -
      from that(2) obtain m' where m': "(h, m') \<in> set (snd (deliver_all ms ?b))" "cm_sender m' = s" "k = cm_seq m'"
        by (auto simp: seen_by_def)
      from received_less [OF acc(2)] deliver_all_fresh [OF m'(1)] sender m'(2,3) show ?thesis
        by simp
    qed
    with rest show ?thesis
      unfolding log seen_by_append acc(1) seen_by_one [OF "2.prems"] by simp
  qed
qed (simp add: seen_by_def)

definition example_message :: "u64 \<Rightarrow> cell_message" where
  "example_message seq = cell_message_new 100 ''n2'' ''alpha'' seq (MtHeartbeat ''n2'')"

definition example_bus :: cell_message_bus where
  "example_bus = subscribe 1 (subscribe 0 (bus_new ''alpha'' ''n1''))"

theorem deliveries_increase_witness:
  "sorted_wrt (<) (seen_by 1 ''n2'' (snd (deliver_all
     [(100, example_message 4), (100, example_message 4), (101, example_message 6)] example_bus)))"
proof -
  have "distinct (bus_subscribers example_bus)" by (simp add: example_bus_def subscribe_def bus_new_def)
  then show ?thesis by (rule deliveries_increase)
qed

text \<open>
  A message overtaken by a later one of the same sender is lost for good: once the later one has
  been accepted, every further delivery of the earlier one, hence every retransmission of it,
  reaches nobody.
\<close>

theorem overtaken_message_lost:
  assumes "snd (deliver now later b) \<noteq> []"
    and "cm_sender earlier = cm_sender later" "cm_seq earlier < cm_seq later"
  shows "let b' = fst (deliver_all between (fst (deliver now later b)))
         in deliver now' earlier b' = (b', [])"
proof -
  have "received_at_least (fst (deliver now later b)) (cm_sender earlier) (cm_seq earlier)"
    using deliver_accepted(2) [OF assms(1)] assms(2,3)
    by (auto simp: received_at_least_def)
  then show ?thesis
    unfolding Let_def by (intro deliver_old deliver_all_keeps_received)
qed

theorem overtaken_message_lost_witness:
  "snd (deliver 100 (example_message 4) (fst (deliver_all [] (fst (deliver 100 (example_message 6) example_bus))))) = []
   \<and> snd (deliver 100 (example_message 4) example_bus) \<noteq> []"
proof -
  have acc: "snd (deliver 100 (example_message k) example_bus) \<noteq> []" for k
    by (simp add: deliver_def example_message_def example_bus_def cell_message_new_def bus_new_def
        subscribe_def message_is_expired_def saturating_sub_def)
  have "cm_sender (example_message 4) = cm_sender (example_message 6)"
    "cm_seq (example_message 4) < cm_seq (example_message 6)"
    by (simp_all add: example_message_def cell_message_new_def)
  from overtaken_message_lost [OF acc this, of "[]" 100] acc show ?thesis
    by (simp add: Let_def)
qed


subsection \<open>Retransmission\<close>

fun poll_all :: "instant list \<Rightarrow> cell_message_bus \<Rightarrow> cell_message_bus \<times> cell_message list list" where
  "poll_all [] b = (b, [])"
| "poll_all (t # ts) b =
     (fst (poll_all ts (fst (process_retransmissions t b))),
      snd (process_retransmissions t b) # snd (poll_all ts (fst (process_retransmissions t b))))"

definition resends :: "u64 \<Rightarrow> cell_message list \<Rightarrow> bool" where
  "resends k ms \<longleftrightarrow> list_ex (\<lambda>m. cm_seq m = k) ms"

lemma poll_resends:
  assumes "bus_wf b"
  shows "resends k (snd (process_retransmissions now b)) \<longleftrightarrow>
           (\<exists>t. hm_get (bus_tracked_messages b) k = Some t \<and> snd (retry_entry now b t))"
proof -
  have seq: "cm_seq (tm_message t) = k'" if "(k', t) \<in> set (bus_tracked_messages b)" for k' t
    using assms that by (auto simp: bus_wf_def hm_get_Some_iff)
  have "hm_wf (bus_tracked_messages b)" using assms by (simp add: bus_wf_def)
  then show ?thesis
    using seq unfolding resends_def process_retransmissions_def Let_def list_ex_iff
    by (auto simp: hm_get_Some_iff)
qed

lemma poll_untracked:
  assumes "bus_wf b" "hm_get (bus_tracked_messages b) k = None"
  shows "filter (resends k) (snd (poll_all ts b)) = []"
  using assms
proof (induction ts arbitrary: b)
  case (Cons t ts)
  let ?b = "fst (process_retransmissions t b)"
  have "hm_get (bus_tracked_messages ?b) k = None"
    using Cons.prems by (simp add: poll_tracked)
  with Cons show ?case
    by (simp add: poll_resends bus_wf_poll)
qed simp

text \<open>
  Retransmission is bounded: however often the bus is polled, a message tracked with \<open>r\<close> retries
  behind it is resent at most \<open>max_retries - r\<close> more times.
\<close>

theorem retransmissions_bounded:
  assumes "bus_wf b" "hm_get (bus_tracked_messages b) k = Some t"
  shows "unat (tm_retry_count t) + length (filter (resends k) (snd (poll_all ts b))) \<le> unat (bus_max_retries b)"
  using assms
proof (induction ts arbitrary: b t)
  case Nil
  then show ?case by (auto simp: bus_wf_def word_le_nat_alt)
next
  case (Cons now ts)
  let ?b = "fst (process_retransmissions now b)" and ?t = "fst (retry_entry now b t)"
  have wf: "bus_wf ?b" by (simp add: bus_wf_poll Cons.prems)
  have sent: "resends k (snd (process_retransmissions now b)) \<longleftrightarrow> snd (retry_entry now b t)"
    using Cons.prems by (simp add: poll_resends)
  have count: "unat (tm_retry_count ?t) = unat (tm_retry_count t) + (if snd (retry_entry now b t) then 1 else 0)"
    if "hm_get (bus_tracked_messages ?b) k = Some ?t"
  proof -
    have "unat (tm_retry_count t + 1) = unat (tm_retry_count t) + 1" if "tm_retry_count t < bus_max_retries b"
      using that by (rule unat_inc_less)
    then show ?thesis
      using retry_entry_cases [of now b t] that Cons.prems(1)
      by (auto simp: poll_tracked [OF Cons.prems(1)] Cons.prems(2) Let_def split: if_splits)
  qed
  show ?case
  proof (cases "hm_get (bus_tracked_messages ?b) k")
    case None
    then have "\<not> snd (retry_entry now b t)" "unat (tm_retry_count t) \<le> unat (bus_max_retries b)"
      using retry_entry_cases [of now b t] Cons.prems
      by (auto simp: poll_tracked Let_def bus_wf_def word_le_nat_alt split: if_splits)
    with poll_untracked [OF wf None] sent show ?thesis by simp
  next
    case (Some t')
    then have "t' = ?t"
      using Cons.prems by (auto simp: poll_tracked Let_def split: if_splits)
    with Some have get: "hm_get (bus_tracked_messages ?b) k = Some ?t" by simp
    from Cons.IH [OF wf get] count [OF get] sent show ?thesis by auto
  qed
qed

definition example_tracking :: cell_message_bus where
  "example_tracking = fst (publish 100 0 (MtHeartbeat ''n1'') (bus_new ''alpha'' ''n1''))"

lemma example_tracking_wf: "bus_wf example_tracking"
  unfolding example_tracking_def
  by (rule bus_wf_publish [OF bus_wf_new]) (simp add: bus_new_def)

lemma example_tracked:
  "hm_get (bus_tracked_messages example_tracking) 1 =
     Some \<lparr>tm_message = cell_message_new 100 ''n1'' ''alpha'' 1 (MtHeartbeat ''n1''), tm_status = DsPending,
           tm_retry_count = 0, tm_last_send = 0\<rparr>"
  by (simp add: example_tracking_def publish_def Let_def bus_new_def)

theorem retransmissions_bounded_witness:
  "length (filter (resends 1) (snd (poll_all [from_secs 3, from_secs 6, from_secs 9, from_secs 12, from_secs 15]
     example_tracking))) \<le> 3"
proof -
  have "bus_max_retries example_tracking = 3"
    by (simp add: example_tracking_def publish_def Let_def bus_new_def)
  with retransmissions_bounded [OF example_tracking_wf example_tracked,
      of "[from_secs 3, from_secs 6, from_secs 9, from_secs 12, from_secs 15]"]
  show ?thesis by (simp del: poll_all.simps)
qed

fun spaced :: "nat \<Rightarrow> instant \<Rightarrow> instant list \<Rightarrow> bool" where
  "spaced d t [] = True"
| "spaced d t (u # us) \<longleftrightarrow> t + d \<le> u \<and> spaced d u us"

text \<open>
  A message that is never acknowledged is given up: it is resent at each of the \<open>max_retries\<close>
  polls that come at least \<open>retry_timeout\<close> apart, and the next such poll stops tracking it.
\<close>

theorem unacknowledged_message_given_up:
  assumes "bus_wf b" "hm_get (bus_tracked_messages b) k = Some t" "tm_status t \<noteq> DsAcknowledged"
    and "spaced (bus_retry_timeout b) (tm_last_send t) ts"
    and "unat (tm_retry_count t) + length ts = unat (bus_max_retries b) + 1"
  shows "list_all (resends k) (butlast (snd (poll_all ts b)))
         \<and> hm_get (bus_tracked_messages (fst (poll_all ts b))) k = None"
  using assms
proof (induction ts arbitrary: b t)
  case Nil
  then have "tm_retry_count t \<le> bus_max_retries b" by (simp add: bus_wf_def)
  with Nil.prems(5) show ?case by (simp add: word_le_nat_alt)
next
  case (Cons now ts)
  let ?b = "fst (process_retransmissions now b)" and ?t = "fst (retry_entry now b t)"
  have wf: "bus_wf ?b" by (simp add: bus_wf_poll Cons.prems)
  have late: "elapsed now (tm_last_send t) \<ge> bus_retry_timeout b"
    using Cons.prems(4) by (auto simp: elapsed_def)
  have sent: "resends k (snd (process_retransmissions now b)) \<longleftrightarrow> snd (retry_entry now b t)"
    using Cons.prems by (simp add: poll_resends)
  show ?case
  proof (cases "tm_retry_count t < bus_max_retries b")
    case True
    then have t: "retry_entry now b t =
        (t\<lparr>tm_retry_count := tm_retry_count t + 1, tm_last_send := now, tm_status := DsDelivered\<rparr>, True)"
      using Cons.prems(3) late by (simp add: retry_entry_def not_le [symmetric])
    have get: "hm_get (bus_tracked_messages ?b) k = Some ?t"
      using Cons.prems by (simp add: poll_tracked t)
    have "unat (tm_retry_count t + 1) = unat (tm_retry_count t) + 1"
      using True by (rule unat_inc_less)
    with Cons.IH [OF wf get] Cons.prems(4,5) have
      ih: "list_all (resends k) (butlast (snd (poll_all ts ?b)))"
        "hm_get (bus_tracked_messages (fst (poll_all ts ?b))) k = None"
      by (simp_all add: t)
    then show ?thesis using sent by (simp add: t)
  next
    case False
    then have "length ts = 0"
      using Cons.prems(5) unfolding word_less_nat_alt by (simp only: list.size)
    moreover have "tm_status ?t = DsFailed"
      using False Cons.prems(3) late by (simp add: retry_entry_def not_less)
    ultimately have "ts = []" "tm_status ?t = DsFailed" by simp_all
    then show ?thesis
      using Cons.prems by (simp add: poll_tracked Let_def)
  qed
qed

theorem unacknowledged_message_given_up_witness:
  "hm_get (bus_tracked_messages (fst (poll_all [from_secs 3, from_secs 6, from_secs 9, from_secs 12]
     example_tracking))) 1 = None"
proof -
  have "bus_max_retries example_tracking = 3" "bus_retry_timeout example_tracking = from_secs 2"
    by (simp_all add: example_tracking_def publish_def Let_def bus_new_def)
  then show ?thesis
    using unacknowledged_message_given_up [OF example_tracking_wf example_tracked,
        of "[from_secs 3, from_secs 6, from_secs 9, from_secs 12]"]
    by (simp add: from_secs_def del: poll_all.simps)
qed

end
