(* ===== verification/Leader_Election.thy ===== *)
theory Leader_Election
  imports Cell_Messaging
begin

text \<open>
  Leader election in a cell, \<open>peat-protocol/src/cell/leader_election.rs\<close>, on top of the message bus.
  The manager holds its bus; every operation returns the updated manager. Clock readings are
  arguments: \<open>now\<close> in seconds, \<open>at\<close> the monotonic clock. The score of a node is stored and never
  compared by the manager; its fields are the bits of the source's \<open>f64\<close> values.
\<close>


subsection \<open>State and operations\<close>

datatype election_state = ElCandidate | ElLeader | ElFollower

record leadership_score =
  ls_compute :: u64
  ls_communication :: u64
  ls_sensors :: u64
  ls_power :: u64
  ls_reliability :: u64
  ls_total :: u64

record election_round =
  er_round :: u32
  er_started_at :: u64
  er_candidates :: "(string, leadership_score) hash_map"

definition election_round_new :: "u64 \<Rightarrow> u32 \<Rightarrow> election_round" where
  "election_round_new now round = \<lparr>er_round = round, er_started_at = now, er_candidates = []\<rparr>"

record leader_heartbeat =
  lh_leader_id :: string
  lh_last_heartbeat :: instant
  lh_missed_count :: u32

definition leader_heartbeat_new :: "instant \<Rightarrow> string \<Rightarrow> leader_heartbeat" where
  "leader_heartbeat_new at leader_id =
     \<lparr>lh_leader_id = leader_id, lh_last_heartbeat = at, lh_missed_count = 0\<rparr>"

definition heartbeat_update :: "instant \<Rightarrow> leader_heartbeat \<Rightarrow> leader_heartbeat" where
  "heartbeat_update at self = self\<lparr>lh_last_heartbeat := at, lh_missed_count := 0\<rparr>"

definition heartbeat_is_failed :: "instant \<Rightarrow> leader_heartbeat \<Rightarrow> nat \<Rightarrow> u32 \<Rightarrow> bool" where
  "heartbeat_is_failed at self heartbeat_interval max_missed \<longleftrightarrow>
     elapsed at (lh_last_heartbeat self) > heartbeat_interval * unat max_missed"

record leader_election_manager =
  le_cell_id :: string
  le_node_id :: string
  le_message_bus :: cell_message_bus
  le_state :: election_state
  le_current_round :: election_round
  le_my_score :: leadership_score
  le_current_leader :: "string option"
  le_leader_heartbeat :: "leader_heartbeat option"
  le_election_timeout :: nat
  le_heartbeat_interval :: nat
  le_max_missed_heartbeats :: u32

definition election_manager_new ::
    "u64 \<Rightarrow> string \<Rightarrow> string \<Rightarrow> cell_message_bus \<Rightarrow> leadership_score \<Rightarrow> leader_election_manager" where
  "election_manager_new now cell_id node_id message_bus my_score =
     \<lparr>le_cell_id = cell_id, le_node_id = node_id, le_message_bus = message_bus, le_state = ElCandidate,
      le_current_round = election_round_new now 1, le_my_score = my_score, le_current_leader = None,
      le_leader_heartbeat = None, le_election_timeout = from_secs 5,
      le_heartbeat_interval = from_secs 2, le_max_missed_heartbeats = 3\<rparr>"

definition le_publish ::
    "u64 \<Rightarrow> instant \<Rightarrow> cell_message_type \<Rightarrow> leader_election_manager \<Rightarrow> leader_election_manager" where
  "le_publish now at payload self =
     self\<lparr>le_message_bus := fst (publish now at payload (le_message_bus self))\<rparr>"

definition announce_candidacy ::
    "u64 \<Rightarrow> instant \<Rightarrow> u32 \<Rightarrow> leader_election_manager \<Rightarrow> leader_election_manager" where
  "announce_candidacy now at round self =
     le_publish now at (MtLeaderAnnounce (le_node_id self) round) self"

definition start_election :: "u64 \<Rightarrow> instant \<Rightarrow> leader_election_manager \<Rightarrow> leader_election_manager" where
  "start_election now at self =
     (let score = le_my_score self;
          current = le_current_round self;
          current = current\<lparr>er_candidates := hm_insert (le_node_id self) score (er_candidates current)\<rparr>
      in announce_candidacy now at (er_round current) (self\<lparr>le_current_round := current\<rparr>))"

definition should_follow_leader :: "string \<Rightarrow> leader_election_manager \<Rightarrow> bool" where
  "should_follow_leader leader_id self \<longleftrightarrow> leader_id > le_node_id self"

definition handle_leader_announce ::
    "instant \<Rightarrow> string \<Rightarrow> u32 \<Rightarrow> leader_election_manager \<Rightarrow> leader_election_manager" where
  "handle_leader_announce at leader_id round self =
     (if round < er_round (le_current_round self) then self
      else if le_state self \<noteq> ElCandidate then self
      else if should_follow_leader leader_id self
      then self\<lparr>le_state := ElFollower, le_current_leader := Some leader_id,
                le_leader_heartbeat := Some (leader_heartbeat_new at leader_id)\<rparr>
      else self)"

definition handle_heartbeat ::
    "instant \<Rightarrow> string \<Rightarrow> leader_election_manager \<Rightarrow> leader_election_manager" where
  "handle_heartbeat at node_id self =
     (case le_current_leader self of
        Some leader_id \<Rightarrow>
          if node_id = leader_id
          then self\<lparr>le_leader_heartbeat := map_option (heartbeat_update at) (le_leader_heartbeat self)\<rparr>
          else self
      | None \<Rightarrow> self)"

definition process_election_message ::
    "instant \<Rightarrow> cell_message \<Rightarrow> leader_election_manager \<Rightarrow> leader_election_manager" where
  "process_election_message at message self =
     (case cm_payload message of
        MtLeaderAnnounce leader_id election_round \<Rightarrow> handle_leader_announce at leader_id election_round self
      | MtHeartbeat node_id \<Rightarrow> handle_heartbeat at node_id self
      | _ \<Rightarrow> self)"

definition trigger_reelection :: "u64 \<Rightarrow> instant \<Rightarrow> leader_election_manager \<Rightarrow> leader_election_manager" where
  "trigger_reelection now at self =
     (let s1 = self\<lparr>le_state := ElCandidate, le_current_leader := None, le_leader_heartbeat := None\<rparr>;
          new_round = er_round (le_current_round s1) + 1;
          s2 = s1\<lparr>le_current_round := election_round_new now new_round\<rparr>
      in announce_candidacy now at new_round s2)"

definition check_leader_failure ::
    "u64 \<Rightarrow> instant \<Rightarrow> leader_election_manager \<Rightarrow> leader_election_manager \<times> bool" where
  "check_leader_failure now at self =
     (case le_leader_heartbeat self of
        Some hb \<Rightarrow>
          if heartbeat_is_failed at hb (le_heartbeat_interval self) (le_max_missed_heartbeats self)
          then (trigger_reelection now at self, True)
          else (self, False)
      | None \<Rightarrow> (self, False))"

definition send_heartbeat_if_leader ::
    "u64 \<Rightarrow> instant \<Rightarrow> leader_election_manager \<Rightarrow> leader_election_manager" where
  "send_heartbeat_if_leader now at self =
     (if le_state self = ElLeader then le_publish now at (MtHeartbeat (le_node_id self)) self else self)"

definition get_state :: "leader_election_manager \<Rightarrow> election_state" where
  "get_state self = le_state self"

definition get_leader :: "leader_election_manager \<Rightarrow> string option" where
  "get_leader self = le_current_leader self"

definition get_round :: "leader_election_manager \<Rightarrow> u32" where
  "get_round self = er_round (le_current_round self)"

definition set_as_leader :: "leader_election_manager \<Rightarrow> leader_election_manager" where
  "set_as_leader self = self\<lparr>le_state := ElLeader, le_current_leader := Some (le_node_id self)\<rparr>"


subsection \<open>Runs driven by messages and timers\<close>

lemma le_publish_frame [simp, frame_simps]:
  "le_node_id (le_publish now at p m) = le_node_id m"
  "le_state (le_publish now at p m) = le_state m"
  "le_current_round (le_publish now at p m) = le_current_round m"
  "le_current_leader (le_publish now at p m) = le_current_leader m"
  "le_leader_heartbeat (le_publish now at p m) = le_leader_heartbeat m"
  "le_heartbeat_interval (le_publish now at p m) = le_heartbeat_interval m"
  "le_max_missed_heartbeats (le_publish now at p m) = le_max_missed_heartbeats m"
  by (simp_all add: le_publish_def)

text \<open>Whether a heartbeat of this node waits to be sent, and the payloads on the bus after a publish.\<close>

definition heartbeat_queued :: "leader_election_manager \<Rightarrow> bool" where
  "heartbeat_queued m \<longleftrightarrow>
     list_ex (\<lambda>c. cm_payload c = MtHeartbeat (le_node_id m)) (bus_outbound_queue (le_message_bus m))"

lemma heartbeat_queued_publish:
  "heartbeat_queued (le_publish now at p m) \<longleftrightarrow> p = MtHeartbeat (le_node_id m) \<or> heartbeat_queued m"
  by (auto simp: heartbeat_queued_def le_publish_def publish_def Let_def list_ex_iff cell_message_new_def)

inductive election_step :: "leader_election_manager \<Rightarrow> leader_election_manager \<Rightarrow> bool" where
  start: "election_step m (start_election now at m)"
| receive: "election_step m (process_election_message at msg m)"
| timer: "election_step m (fst (check_leader_failure now at m))"
| heartbeat: "election_step m (send_heartbeat_if_leader now at m)"
| drain: "election_step m (m\<lparr>le_message_bus := fst (get_pending_messages (le_message_bus m))\<rparr>)"

inductive_cases election_stepE: "election_step m m'"

definition election_wf :: "leader_election_manager \<Rightarrow> bool" where
  "election_wf m \<longleftrightarrow>
     (case le_state m of
        ElCandidate \<Rightarrow> le_current_leader m = None \<and> le_leader_heartbeat m = None
      | ElFollower \<Rightarrow> (\<exists>l hb. le_current_leader m = Some l \<and> le_leader_heartbeat m = Some hb \<and>
                         lh_leader_id hb = l \<and> le_node_id m < l)
      | ElLeader \<Rightarrow> False) \<and>
     \<not> heartbeat_queued m"

lemma election_step_wf:
  assumes "election_step m m'" "election_wf m"
  shows "election_wf m' \<and> le_node_id m' = le_node_id m"
  using assms
proof (cases rule: election_step.cases)
  case (receive at msg)
  then show ?thesis
    using assms(2)
    by (cases "cm_payload msg")
       (auto simp: process_election_message_def election_wf_def handle_leader_announce_def
         handle_heartbeat_def should_follow_leader_def leader_heartbeat_new_def heartbeat_update_def
         heartbeat_queued_def split: election_state.splits option.splits)
next
  case (start now at)
  then show ?thesis
    using assms(2)
    by (auto simp: start_election_def Let_def announce_candidacy_def election_wf_def
        heartbeat_queued_publish split: election_state.splits)
       (auto simp: heartbeat_queued_def)
next
  case (timer now at)
  then show ?thesis
    using assms(2) unfolding timer
    by (auto simp: check_leader_failure_def trigger_reelection_def Let_def announce_candidacy_def
        election_wf_def heartbeat_queued_publish split: option.splits election_state.splits)
       (auto simp: heartbeat_queued_def)
next
  case (heartbeat now at)
  then show ?thesis
    using assms(2) by (auto simp: send_heartbeat_if_leader_def election_wf_def)
next
  case drain
  then show ?thesis
    using assms(2) by (auto simp: election_wf_def heartbeat_queued_def get_pending_messages_def
        split: election_state.splits)
qed

lemma election_run_wf:
  assumes "election_step\<^sup>*\<^sup>* m m'" "election_wf m"
  shows "election_wf m' \<and> le_node_id m' = le_node_id m"
  using assms by induction (auto dest: election_step_wf)

lemma election_wf_new: "bus_outbound_queue bus = [] \<Longrightarrow> election_wf (election_manager_new now c n bus score)"
  by (simp add: election_wf_def election_manager_new_def heartbeat_queued_def)

text \<open>
  C40. No node ever becomes leader through the protocol: along every run of elections, received
  messages, failure checks and heartbeat timers, a manager is a candidate without a leader or
  follows a node with a larger id that it tracks, and it never sends a heartbeat.
\<close>

theorem election_elects_nobody:
  assumes "election_step\<^sup>*\<^sup>* (election_manager_new now c n (bus_new c n) score) m"
  shows "get_state m \<noteq> ElLeader \<and> \<not> heartbeat_queued m
         \<and> (get_state m = ElCandidate \<longrightarrow> get_leader m = None)
         \<and> (get_state m = ElFollower \<longrightarrow>
              (\<exists>l hb. get_leader m = Some l \<and> n < l \<and> le_leader_heartbeat m = Some hb \<and> lh_leader_id hb = l))"
proof -
  have "election_wf m \<and> le_node_id m = n"
    using election_run_wf [OF assms] election_wf_new [of "bus_new c n"]
    by (simp add: bus_new_def election_manager_new_def)
  then show ?thesis
    by (auto simp: election_wf_def get_state_def get_leader_def split: election_state.splits)
qed

definition example_score :: leadership_score where
  "example_score = \<lparr>ls_compute = 0, ls_communication = 0, ls_sensors = 0, ls_power = 0, ls_reliability = 0, ls_total = 0\<rparr>"

definition example_candidate :: "string \<Rightarrow> leader_election_manager" where
  "example_candidate n = election_manager_new 100 ''alpha'' n (bus_new ''alpha'' n) example_score"

theorem election_elects_nobody_witness:
  "get_state (start_election 100 0 (example_candidate ''n1'')) \<noteq> ElLeader"
proof -
  have "election_step\<^sup>*\<^sup>* (election_manager_new 100 ''alpha'' ''n1'' (bus_new ''alpha'' ''n1'') example_score)
      (start_election 100 0 (example_candidate ''n1''))"
    unfolding example_candidate_def by (intro r_into_rtranclp election_step.start)
  from election_elects_nobody [OF this] show ?thesis by blast
qed

lemma follower_keeps_leader:
  assumes "le_state m = ElFollower"
  shows "le_state (process_election_message at msg m) = ElFollower"
    and "le_current_leader (process_election_message at msg m) = le_current_leader m"
  using assms
  by (auto simp: process_election_message_def handle_leader_announce_def handle_heartbeat_def
      split: cell_message_type.splits option.splits)

text \<open>
  The first larger id wins, not the largest: once a candidate follows a leader, no message
  changes that, so a node that hears of the eventual winner second never follows it.
\<close>

theorem first_announcement_wins:
  assumes "le_state m = ElCandidate" "le_node_id m < l" "er_round (le_current_round m) \<le> r"
    and "cm_payload announcement = MtLeaderAnnounce l r"
  shows "let m' = fold (\<lambda>(at, msg). process_election_message at msg) later
                    (process_election_message at announcement m)
         in get_state m' = ElFollower \<and> get_leader m' = Some l"
proof -
  let ?m1 = "process_election_message at announcement m"
  have "\<not> r < er_round (le_current_round m)"
    using assms(3) by (simp add: not_less)
  with assms have first: "le_state ?m1 = ElFollower" "le_current_leader ?m1 = Some l"
    by (simp_all add: process_election_message_def handle_leader_announce_def should_follow_leader_def)
  have "le_state (fold (\<lambda>(at, msg). process_election_message at msg) later m1) = ElFollower \<and>
        le_current_leader (fold (\<lambda>(at, msg). process_election_message at msg) later m1) = Some l"
    if "le_state m1 = ElFollower" "le_current_leader m1 = Some l" for m1
    using that by (induction later arbitrary: m1) (auto simp: follower_keeps_leader)
  from this [OF first] show ?thesis
    by (simp add: Let_def get_state_def get_leader_def)
qed

definition example_announce :: "string \<Rightarrow> cell_message" where
  "example_announce n = cell_message_new 100 n ''alpha'' 1 (MtLeaderAnnounce n 1)"

theorem first_announcement_wins_witness:
  "get_leader (fold (\<lambda>(at, msg). process_election_message at msg) [(1, example_announce ''n3'')]
     (process_election_message 0 (example_announce ''n2'') (example_candidate ''n1''))) = Some ''n2''"
proof -
  have "le_state (example_candidate ''n1'') = ElCandidate" "le_node_id (example_candidate ''n1'') < ''n2''"
    "er_round (le_current_round (example_candidate ''n1'')) \<le> 1"
    "cm_payload (example_announce ''n2'') = MtLeaderAnnounce ''n2'' 1"
    by (simp_all add: example_candidate_def election_manager_new_def election_round_new_def
        example_announce_def cell_message_new_def)
  from first_announcement_wins [OF this, of "[(1, example_announce ''n3'')]" 0] show ?thesis
    by (simp add: Let_def)
qed

text \<open>
  Failure detection is exact: a follower that last heard its leader at \<open>t0\<close> reports failure at \<open>at\<close>
  exactly when more than \<open>heartbeat_interval * max_missed\<close> has passed; then it is a candidate in the
  next round with no leader and has announced its candidacy, and otherwise nothing changes.
\<close>

theorem leader_failure_detected:
  assumes "le_leader_heartbeat m = Some hb" "lh_last_heartbeat hb \<le> at"
  shows "(snd (check_leader_failure now at m) \<longleftrightarrow>
            lh_last_heartbeat hb + le_heartbeat_interval m * unat (le_max_missed_heartbeats m) < at)
         \<and> (\<not> snd (check_leader_failure now at m) \<longrightarrow> fst (check_leader_failure now at m) = m)
         \<and> (snd (check_leader_failure now at m) \<longrightarrow>
              (let m' = fst (check_leader_failure now at m)
               in get_state m' = ElCandidate \<and> get_leader m' = None \<and> get_round m' = get_round m + 1
                  \<and> list_ex (\<lambda>c. cm_payload c = MtLeaderAnnounce (le_node_id m) (get_round m + 1))
                      (bus_outbound_queue (le_message_bus m'))))"
proof (cases "heartbeat_is_failed at hb (le_heartbeat_interval m) (le_max_missed_heartbeats m)")
  case True
  then have run: "check_leader_failure now at m = (trigger_reelection now at m, True)"
    using assms(1) by (simp add: check_leader_failure_def)
  have "get_state (trigger_reelection now at m) = ElCandidate" "get_leader (trigger_reelection now at m) = None"
    "get_round (trigger_reelection now at m) = get_round m + 1"
    by (simp_all add: trigger_reelection_def announce_candidacy_def Let_def get_state_def get_leader_def
        get_round_def election_round_new_def)
  moreover have "list_ex (\<lambda>c. cm_payload c = MtLeaderAnnounce (le_node_id m) (get_round m + 1))
      (bus_outbound_queue (le_message_bus (trigger_reelection now at m)))"
    by (simp add: trigger_reelection_def announce_candidacy_def Let_def get_round_def le_publish_def
        publish_def list_ex_iff cell_message_new_def)
  ultimately show ?thesis
    using True assms(2) by (auto simp: run Let_def heartbeat_is_failed_def elapsed_def)
next
  case False
  then show ?thesis
    using assms by (auto simp: check_leader_failure_def heartbeat_is_failed_def elapsed_def)
qed

theorem leader_failure_detected_witness:
  "snd (check_leader_failure 107 (from_secs 7)
     (process_election_message 0 (example_announce ''n2'') (example_candidate ''n1'')))"
proof -
  let ?m = "process_election_message 0 (example_announce ''n2'') (example_candidate ''n1'')"
  have "le_leader_heartbeat ?m = Some (leader_heartbeat_new 0 ''n2'')"
    "le_heartbeat_interval ?m = from_secs 2" "le_max_missed_heartbeats ?m = 3"
    by (simp_all add: example_candidate_def election_manager_new_def election_round_new_def
        example_announce_def cell_message_new_def process_election_message_def handle_leader_announce_def
        should_follow_leader_def)
  with leader_failure_detected [of ?m "leader_heartbeat_new 0 ''n2''" "from_secs 7" 107] show ?thesis
    by (simp add: leader_heartbeat_new_def from_secs_def)
qed

text \<open>
  \<open>set_as_leader\<close> keeps the heartbeat record of the previous leader, so a follower promoted to
  leader is sent back to candidate by its next failure check once that record is stale.
\<close>

theorem promoted_leader_demoted:
  assumes "le_leader_heartbeat m = Some hb"
    and "lh_last_heartbeat hb + le_heartbeat_interval m * unat (le_max_missed_heartbeats m) < at"
  shows "get_state (set_as_leader m) = ElLeader
         \<and> get_state (fst (check_leader_failure now at (set_as_leader m))) = ElCandidate
         \<and> get_leader (fst (check_leader_failure now at (set_as_leader m))) = None"
  using assms
  by (auto simp: set_as_leader_def check_leader_failure_def heartbeat_is_failed_def elapsed_def
      trigger_reelection_def announce_candidacy_def Let_def get_state_def get_leader_def)

theorem promoted_leader_demoted_witness:
  "get_state (fst (check_leader_failure 107 (from_secs 7) (set_as_leader
     (process_election_message 0 (example_announce ''n2'') (example_candidate ''n1''))))) = ElCandidate"
proof -
  let ?m = "process_election_message 0 (example_announce ''n2'') (example_candidate ''n1'')"
  have "le_leader_heartbeat ?m = Some (leader_heartbeat_new 0 ''n2'')"
    "le_heartbeat_interval ?m = from_secs 2" "le_max_missed_heartbeats ?m = 3"
    by (simp_all add: example_candidate_def election_manager_new_def election_round_new_def
        example_announce_def cell_message_new_def process_election_message_def handle_leader_announce_def
        should_follow_leader_def)
  with promoted_leader_demoted [of ?m "leader_heartbeat_new 0 ''n2''" "from_secs 7" 107] show ?thesis
    by (simp add: leader_heartbeat_new_def from_secs_def)
qed

end
