(* ===== verification/Command_Routing.thy ===== *)
theory Command_Routing
  imports Peat_Schema
begin

text \<open>
  Hierarchical commands (\<open>peat-schema/proto/command.proto\<close>) and the router of
  \<open>peat-protocol/src/command/routing.rs\<close>, which decides whether a command is for this node, for its
  subordinates, or not for this part of the hierarchy. The order payload of a command is not
  inspected by any modelled operation and is kept as its encoding.
\<close>


subsection \<open>Commands\<close>

datatype command_type =
    MissionOrder string | EngagementOrder string | FormationChange string | ConfigurationUpdate string

datatype scope =
  ScopeUnspecified | ScopeIndividual | ScopeCell | ScopeCohort | ScopeFederation | ScopeCoalition | ScopeBroadcast

fun scope_of_int :: "int \<Rightarrow> scope option" where
  "scope_of_int n =
     (if n = 0 then Some ScopeUnspecified else if n = 1 then Some ScopeIndividual
      else if n = 2 then Some ScopeCell else if n = 3 then Some ScopeCohort
      else if n = 5 then Some ScopeFederation else if n = 6 then Some ScopeCoalition
      else if n = 4 then Some ScopeBroadcast else None)"

record command_target =
  ct_scope :: int
  ct_target_ids :: "string list"

record hierarchical_command =
  hc_command_id :: string
  hc_originator_id :: string
  hc_target :: "command_target option"
  hc_command_type :: "command_type option"
  hc_priority :: int
  hc_buffer_policy :: int
  hc_conflict_policy :: int
  hc_acknowledgment_policy :: int
  hc_leader_change_policy :: int
  hc_issued_at :: "timestamp option"
  hc_expires_at :: "timestamp option"
  hc_version :: u32


subsection \<open>The router\<close>

record command_router =
  cr_node_id :: string
  cr_cell_id :: "string option"
  cr_cell_members :: "string list"
  cr_cohort_id :: "string option"

datatype target_resolution =
  TargetSelf | Subordinates "string list" | AllCellMembers "string list" | NotApplicable

definition router_new :: "string \<Rightarrow> string option \<Rightarrow> string list \<Rightarrow> string option \<Rightarrow> command_router" where
  "router_new node_id cell_id cell_members cohort_id =
     \<lparr>cr_node_id = node_id, cr_cell_id = cell_id, cr_cell_members = cell_members, cr_cohort_id = cohort_id\<rparr>"

definition resolve_target :: "command_router \<Rightarrow> hierarchical_command \<Rightarrow> target_resolution" where
  "resolve_target self command =
     (case hc_target command of
        None \<Rightarrow> NotApplicable
      | Some target \<Rightarrow>
          (case (case scope_of_int (ct_scope target) of None \<Rightarrow> ScopeUnspecified | Some s \<Rightarrow> s) of
             ScopeIndividual \<Rightarrow>
               (if cr_node_id self \<in> set (ct_target_ids target) then TargetSelf
                else (let subordinate_targets =
                            filter (\<lambda>m. m \<in> set (ct_target_ids target)) (cr_cell_members self)
                      in if subordinate_targets \<noteq> [] then Subordinates subordinate_targets
                         else NotApplicable))
           | ScopeCell \<Rightarrow>
               (case cr_cell_id self of
                  Some my_cell \<Rightarrow>
                    if my_cell \<in> set (ct_target_ids target)
                    then if cr_cell_members self \<noteq> [] then AllCellMembers (cr_cell_members self) else TargetSelf
                    else NotApplicable
                | None \<Rightarrow> NotApplicable)
           | ScopeCohort \<Rightarrow>
               (case cr_cohort_id self of
                  Some my_cohort \<Rightarrow>
                    if my_cohort \<in> set (ct_target_ids target)
                    then if cr_cell_members self \<noteq> [] then AllCellMembers (cr_cell_members self) else TargetSelf
                    else NotApplicable
                | None \<Rightarrow> NotApplicable)
           | ScopeFederation \<Rightarrow> NotApplicable
           | ScopeCoalition \<Rightarrow> NotApplicable
           | ScopeBroadcast \<Rightarrow>
               (if cr_cell_members self \<noteq> [] then AllCellMembers (cr_cell_members self) else TargetSelf)
           | ScopeUnspecified \<Rightarrow> NotApplicable))"

definition should_route :: "target_resolution \<Rightarrow> bool" where
  "should_route resolution =
     (case resolution of Subordinates _ \<Rightarrow> True | AllCellMembers _ \<Rightarrow> True | _ \<Rightarrow> False)"

definition get_routing_targets :: "target_resolution \<Rightarrow> string list" where
  "get_routing_targets resolution =
     (case resolution of Subordinates nodes \<Rightarrow> nodes | AllCellMembers nodes \<Rightarrow> nodes | _ \<Rightarrow> [])"


subsection \<open>Who a command is for\<close>

text \<open>
  Whether a command addresses a node of this router's cell: by its id, through the cell, through
  the cohort, or by broadcast.
\<close>

definition command_scope :: "hierarchical_command \<Rightarrow> scope" where
  "command_scope c =
     (case hc_target c of
        None \<Rightarrow> ScopeUnspecified
      | Some t \<Rightarrow> (case scope_of_int (ct_scope t) of None \<Rightarrow> ScopeUnspecified | Some s \<Rightarrow> s))"

definition command_targets :: "hierarchical_command \<Rightarrow> string list" where
  "command_targets c = (case hc_target c of None \<Rightarrow> [] | Some t \<Rightarrow> ct_target_ids t)"

definition addressed :: "command_router \<Rightarrow> hierarchical_command \<Rightarrow> string \<Rightarrow> bool" where
  "addressed r c n \<longleftrightarrow>
     (case command_scope c of
        ScopeIndividual \<Rightarrow> n \<in> set (command_targets c)
      | ScopeCell \<Rightarrow> (\<exists>cell. cr_cell_id r = Some cell \<and> cell \<in> set (command_targets c))
      | ScopeCohort \<Rightarrow> (\<exists>cohort. cr_cohort_id r = Some cohort \<and> cohort \<in> set (command_targets c))
      | ScopeBroadcast \<Rightarrow> True
      | _ \<Rightarrow> False)"

lemma resolve_target_scope:
  "resolve_target r c =
     (case command_scope c of
        ScopeIndividual \<Rightarrow>
          (if addressed r c (cr_node_id r) then TargetSelf
           else (let subs = filter (addressed r c) (cr_cell_members r)
                 in if subs \<noteq> [] then Subordinates subs else NotApplicable))
      | _ \<Rightarrow>
          (if addressed r c (cr_node_id r)
           then if cr_cell_members r \<noteq> [] then AllCellMembers (cr_cell_members r) else TargetSelf
           else NotApplicable))"
proof (cases "hc_target c")
  case None
  then show ?thesis by (simp add: resolve_target_def command_scope_def addressed_def)
next
  case (Some t)
  let ?s = "case scope_of_int (ct_scope t) of None \<Rightarrow> ScopeUnspecified | Some s \<Rightarrow> s"
  have scope: "command_scope c = ?s" and targets: "command_targets c = ct_target_ids t"
    using Some by (simp_all add: command_scope_def command_targets_def)
  have "addressed r c = (\<lambda>m. m \<in> set (ct_target_ids t))" if "?s = ScopeIndividual"
    using that by (simp add: addressed_def [abs_def] scope targets)
  with Some show ?thesis
    unfolding resolve_target_def scope
    by (cases ?s) (simp_all add: addressed_def scope targets del: scope_of_int.simps split: option.splits)
qed

text \<open>
  The router forwards a command to exactly the cell members it addresses, with one exception: an
  individual command that names the router's own node is forwarded to nobody, not even to the
  members it also names.
\<close>

theorem routing_targets_exact:
  "get_routing_targets (resolve_target r c) =
     (if command_scope c = ScopeIndividual \<and> cr_node_id r \<in> set (command_targets c) then []
      else filter (addressed r c) (cr_cell_members r))"
proof (cases "command_scope c = ScopeIndividual")
  case True
  then show ?thesis
    by (auto simp: resolve_target_scope get_routing_targets_def addressed_def [of r c "cr_node_id r"] Let_def)
next
  case False
  then have all: "addressed r c n = addressed r c (cr_node_id r)" for n
    by (auto simp: addressed_def split: scope.splits)
  then have "filter (addressed r c) (cr_cell_members r) =
      (if addressed r c (cr_node_id r) then cr_cell_members r else [])"
    by (auto simp: filter_empty_conv filter_id_conv)
  with False show ?thesis
    by (auto simp: resolve_target_scope get_routing_targets_def split: scope.splits)
qed

lemma resolve_self_iff:
  "resolve_target r c = TargetSelf \<longleftrightarrow>
     addressed r c (cr_node_id r) \<and> (command_scope c = ScopeIndividual \<or> cr_cell_members r = [])"
  by (auto simp: resolve_target_scope Let_def split: scope.splits)

lemma should_route_iff: "should_route (resolve_target r c) \<longleftrightarrow> get_routing_targets (resolve_target r c) \<noteq> []"
  by (auto simp: resolve_target_scope should_route_def get_routing_targets_def Let_def split: scope.splits)

end
