(* ===== verification/Item_Index.thy ===== *)
theory Item_Index
  imports Peat_Prelude
begin

text \<open>
  Items filed under keys: a hash map from a key to the list of items filed there. The conflict
  resolvers file commands under their targets, the timeout manager files command ids under their
  expiry. The locale states the contract of registering and unregistering; its lemmas serve all.
\<close>

text \<open>\<open>map.entry(key).or_default().push(value)\<close> and \<open>map.get(key).cloned().unwrap_or_default()\<close>.\<close>

definition hm_push :: "'k \<Rightarrow> 'v \<Rightarrow> ('k, 'v list) hash_map \<Rightarrow> ('k, 'v list) hash_map" where
  "hm_push k v m = hm_insert k ((case hm_get m k of None \<Rightarrow> [] | Some vs \<Rightarrow> vs) @ [v]) m"

definition hm_list :: "('k, 'v list) hash_map \<Rightarrow> 'k \<Rightarrow> 'v list" where
  "hm_list m k = (case hm_get m k of None \<Rightarrow> [] | Some vs \<Rightarrow> vs)"

text \<open>Filter every list, then drop the keys whose list is empty.\<close>

definition hm_purge :: "('v \<Rightarrow> bool) \<Rightarrow> ('k, 'v list) hash_map \<Rightarrow> ('k, 'v list) hash_map" where
  "hm_purge keep m = hm_retain (\<lambda>_ vs. vs \<noteq> []) (hm_map_values (\<lambda>_ vs. filter keep vs) m)"

lemma hm_list_push: "hm_list (hm_push k v m) k' = hm_list m k' @ (if k' = k then [v] else [])"
  by (simp add: hm_list_def hm_push_def)

lemma hm_wf_push [simp]: "hm_wf m \<Longrightarrow> hm_wf (hm_push k v m)"
  by (simp add: hm_push_def)

lemma hm_list_push_all:
  "hm_list (fold (\<lambda>k. hm_push k v) ks m) k' = hm_list m k' @ replicate (count_list ks k') v"
proof (induction ks arbitrary: m)
  case (Cons k ks)
  then show ?case
    by (simp add: hm_list_push)
qed simp

lemma hm_wf_push_all [simp]: "hm_wf m \<Longrightarrow> hm_wf (fold (\<lambda>k. hm_push k v) ks m)"
  by (induction ks arbitrary: m) simp_all

lemma hm_list_purge: "hm_wf m \<Longrightarrow> hm_list (hm_purge keep m) k = filter keep (hm_list m k)"
  by (simp add: hm_list_def hm_purge_def hm_get_retain hm_get_map_values split: option.splits)

lemma hm_wf_purge [simp]: "hm_wf m \<Longrightarrow> hm_wf (hm_purge keep m)"
  by (simp add: hm_purge_def)

locale item_index =
  fixes items :: "'s \<Rightarrow> 'k \<Rightarrow> 'e list"
    and register :: "'c \<Rightarrow> 's \<Rightarrow> 's"
    and unregister :: "'i \<Rightarrow> 's \<Rightarrow> 's"
    and keys :: "'c \<Rightarrow> 'k list"
    and entry :: "'c \<Rightarrow> 'e"
    and ident :: "'e \<Rightarrow> 'i"
    and invar :: "'s \<Rightarrow> bool"
  assumes items_register: "invar s \<Longrightarrow> items (register c s) k = items s k @ replicate (count_list (keys c) k) (entry c)"
    and items_unregister: "invar s \<Longrightarrow> items (unregister i s) k = filter (\<lambda>e. ident e \<noteq> i) (items s k)"
    and invar_register: "invar s \<Longrightarrow> invar (register c s)"
    and invar_unregister: "invar s \<Longrightarrow> invar (unregister i s)"
begin

lemma register_visible: "invar s \<Longrightarrow> k \<in> set (keys c) \<Longrightarrow> entry c \<in> set (items (register c s) k)"
  by (simp add: items_register count_list_0_iff)

lemma register_keeps: "invar s \<Longrightarrow> set (items s k) \<subseteq> set (items (register c s) k)"
  by (simp add: items_register)

lemma unregister_gone: "invar s \<Longrightarrow> e \<in> set (items (unregister i s) k) \<Longrightarrow> ident e \<noteq> i"
  by (simp add: items_unregister)

lemma unregister_only: "invar s \<Longrightarrow> e \<in> set (items s k) \<Longrightarrow> ident e \<noteq> i \<Longrightarrow> e \<in> set (items (unregister i s) k)"
  by (simp add: items_unregister)

lemma register_unregister:
  assumes "invar s" "\<forall>e \<in> set (items s k). ident e \<noteq> ident (entry c)"
  shows "items (unregister (ident (entry c)) (register c s)) k = items s k"
  using assms by (simp add: items_unregister items_register invar_register filter_id_conv)

lemma unregister_register_other:
  assumes "invar s" "ident (entry c) \<noteq> i"
  shows "items (unregister i (register c s)) k = items (register c (unregister i s)) k"
  using assms by (simp add: items_unregister items_register invar_register invar_unregister filter_replicate)

end

end
