(* ===== verification/Conflict_Resolver.thy ===== *)
theory Conflict_Resolver
  imports Command_Routing Item_Index Peat_Error
begin

text \<open>
  Conflicts between commands for the same target, \<open>peat-protocol/src/command/conflict_resolver.rs\<close>:
  an index of the active commands by target, and the policies that pick one of several.
\<close>


subsection \<open>Priorities and policies\<close>

datatype command_priority = CpUnspecified | CpRoutine | CpPriority | CpImmediate | CpFlash

fun command_priority_to_int :: "command_priority \<Rightarrow> int" where
  "command_priority_to_int CpUnspecified = 0"
| "command_priority_to_int CpRoutine = 1"
| "command_priority_to_int CpPriority = 2"
| "command_priority_to_int CpImmediate = 3"
| "command_priority_to_int CpFlash = 4"

fun command_priority_of_int :: "int \<Rightarrow> command_priority option" where
  "command_priority_of_int n =
     (if n = 0 then Some CpUnspecified else if n = 1 then Some CpRoutine else if n = 2 then Some CpPriority
      else if n = 3 then Some CpImmediate else if n = 4 then Some CpFlash else None)"

lemma command_priority_to_int_inj: "command_priority_to_int p = command_priority_to_int q \<Longrightarrow> p = q"
  by (cases p; cases q) simp_all

instantiation command_priority :: linorder
begin

definition less_eq_command_priority :: "command_priority \<Rightarrow> command_priority \<Rightarrow> bool" where
  "less_eq_command_priority p q \<longleftrightarrow> command_priority_to_int p \<le> command_priority_to_int q"

definition less_command_priority :: "command_priority \<Rightarrow> command_priority \<Rightarrow> bool" where
  "less_command_priority p q \<longleftrightarrow> command_priority_to_int p < command_priority_to_int q"

instance
  by standard
     (auto simp: less_eq_command_priority_def less_command_priority_def intro: command_priority_to_int_inj)

end

datatype conflict_policy =
  PolicyUnspecified | LastWriteWins | HighestPriorityWins | HighestAuthorityWins | MergeCompatible | RejectConflict

fun conflict_policy_of_int :: "int \<Rightarrow> conflict_policy option" where
  "conflict_policy_of_int n =
     (if n = 0 then Some PolicyUnspecified else if n = 1 then Some LastWriteWins
      else if n = 2 then Some HighestPriorityWins else if n = 3 then Some HighestAuthorityWins
      else if n = 4 then Some MergeCompatible else if n = 5 then Some RejectConflict else None)"


subsection \<open>The resolver\<close>

datatype 'c conflict_result = NoConflict | Conflict "'c list"

record conflict_resolver =
  cf_target_commands :: "(string, hierarchical_command list) hash_map"

definition conflict_resolver_new :: conflict_resolver where
  "conflict_resolver_new = \<lparr>cf_target_commands = []\<rparr>"

definition extract_target_ids :: "hierarchical_command \<Rightarrow> string list" where
  "extract_target_ids command = (case hc_target command of None \<Rightarrow> [] | Some t \<Rightarrow> ct_target_ids t)"

definition check_conflict :: "conflict_resolver \<Rightarrow> hierarchical_command \<Rightarrow> hierarchical_command conflict_result" where
  "check_conflict self command =
     (let conflicting =
            fold (\<lambda>target_id conflicting.
                    case hm_get (cf_target_commands self) target_id of
                      Some existing \<Rightarrow> conflicting @ existing
                    | None \<Rightarrow> conflicting)
              (extract_target_ids command) []
      in if conflicting = [] then NoConflict else Conflict conflicting)"

definition derive_authority_level :: "string \<Rightarrow> u32" where
  "derive_authority_level node_id =
     (if starts_with node_id ''zone-'' then 3
      else if starts_with node_id ''cohort-'' \<or> starts_with node_id ''cell-'' then 2
      else 1)"

text \<open>The four strategies; \<open>resolve\<close> calls them on two commands or more.\<close>

definition resolve_last_write_wins :: "hierarchical_command list \<Rightarrow> peat_error + hierarchical_command" where
  "resolve_last_write_wins commands = Inr (hd (sort_desc_by (\<lambda>c. secs_or_0 (hc_issued_at c)) commands))"

definition priority_or_routine :: "hierarchical_command \<Rightarrow> command_priority" where
  "priority_or_routine c =
     (case command_priority_of_int (hc_priority c) of None \<Rightarrow> CpRoutine | Some p \<Rightarrow> p)"

definition resolve_highest_priority_wins :: "hierarchical_command list \<Rightarrow> peat_error + hierarchical_command" where
  "resolve_highest_priority_wins commands = Inr (hd (sort_desc_by priority_or_routine commands))"

definition resolve_highest_authority_wins :: "hierarchical_command list \<Rightarrow> peat_error + hierarchical_command" where
  "resolve_highest_authority_wins commands =
     Inr (hd (sort_desc_by (\<lambda>c. derive_authority_level (hc_originator_id c)) commands))"

definition resolve_merge_compatible :: "hierarchical_command list \<Rightarrow> peat_error + hierarchical_command" where
  "resolve_merge_compatible commands = Inr (hd commands)"

definition resolve :: "hierarchical_command list \<Rightarrow> conflict_policy \<Rightarrow> peat_error + hierarchical_command" where
  "resolve commands policy =
     (if commands = [] then Inl (EInvalidInput ''Cannot resolve conflict with empty command list'')
      else if length commands = 1 then Inr (hd commands)
      else (case policy of
              LastWriteWins \<Rightarrow> resolve_last_write_wins commands
            | HighestPriorityWins \<Rightarrow> resolve_highest_priority_wins commands
            | HighestAuthorityWins \<Rightarrow> resolve_highest_authority_wins commands
            | MergeCompatible \<Rightarrow> resolve_merge_compatible commands
            | RejectConflict \<Rightarrow>
                Inl (EConflictDetected ''Conflict policy REJECT_CONFLICT: rejecting new command'')
            | PolicyUnspecified \<Rightarrow> Inl (EInvalidInput ''Conflict policy must be specified'')))"

definition register_command :: "hierarchical_command \<Rightarrow> conflict_resolver \<Rightarrow> conflict_resolver" where
  "register_command command self =
     self\<lparr>cf_target_commands :=
       fold (\<lambda>target_id. hm_push target_id command) (extract_target_ids command) (cf_target_commands self)\<rparr>"

definition unregister_command :: "string \<Rightarrow> conflict_resolver \<Rightarrow> conflict_resolver" where
  "unregister_command command_id self =
     self\<lparr>cf_target_commands := hm_purge (\<lambda>cmd. hc_command_id cmd \<noteq> command_id) (cf_target_commands self)\<rparr>"


subsection \<open>The index\<close>

definition commands_for :: "conflict_resolver \<Rightarrow> string \<Rightarrow> hierarchical_command list" where
  "commands_for r = hm_list (cf_target_commands r)"

interpretation commands: item_index commands_for register_command unregister_command extract_target_ids
    "\<lambda>c. c" hc_command_id "\<lambda>r. hm_wf (cf_target_commands r)"
  by unfold_locales
     (simp_all add: commands_for_def register_command_def unregister_command_def hm_list_push_all hm_list_purge)

lemma fold_extend: "fold (\<lambda>x acc. acc @ f x) xs acc = acc @ concat (map f xs)"
  by (induction xs arbitrary: acc) simp_all

lemma check_conflict_concat:
  "check_conflict r c =
     (let found = concat (map (commands_for r) (extract_target_ids c))
      in if found = [] then NoConflict else Conflict found)"
proof -
  have "(case hm_get (cf_target_commands r) t of Some existing \<Rightarrow> acc @ existing | None \<Rightarrow> acc) =
        acc @ commands_for r t" for t acc
    by (simp add: commands_for_def hm_list_def split: option.splits)
  then show ?thesis
    by (simp add: check_conflict_def fold_extend)
qed

lemma no_conflict_iff:
  "check_conflict r c = NoConflict \<longleftrightarrow> (\<forall>t \<in> set (extract_target_ids c). commands_for r t = [])"
  by (simp add: check_conflict_concat Let_def)

text \<open>The commands in force after some registrations and unregistrations, in the order they were registered.\<close>

datatype resolver_op = Register hierarchical_command | Unregister string

fun resolver_apply :: "resolver_op \<Rightarrow> conflict_resolver \<Rightarrow> conflict_resolver" where
  "resolver_apply (Register c) r = register_command c r"
| "resolver_apply (Unregister i) r = unregister_command i r"

fun in_force_step :: "resolver_op \<Rightarrow> hierarchical_command list \<Rightarrow> hierarchical_command list" where
  "in_force_step (Register c) cs = cs @ [c]"
| "in_force_step (Unregister i) cs = filter (\<lambda>c. hc_command_id c \<noteq> i) cs"

abbreviation in_force :: "resolver_op list \<Rightarrow> hierarchical_command list" where
  "in_force ops \<equiv> fold in_force_step ops []"

text \<open>Those of them that name a target, once for every time they name it.\<close>

definition naming :: "string \<Rightarrow> hierarchical_command list \<Rightarrow> hierarchical_command list" where
  "naming t cs = concat (map (\<lambda>c. replicate (count_list (extract_target_ids c) t) c) cs)"

lemma naming_simps:
  "naming t [] = []"
  "naming t (cs @ [c]) = naming t cs @ replicate (count_list (extract_target_ids c) t) c"
  "naming t (filter (\<lambda>c. hc_command_id c \<noteq> i) cs) = filter (\<lambda>c. hc_command_id c \<noteq> i) (naming t cs)"
  by (simp_all add: naming_def) (induction cs; simp)

lemma set_naming: "set (naming t cs) = {c \<in> set cs. t \<in> set (extract_target_ids c)}"
  by (auto simp: naming_def count_list_0_iff)

lemma commands_for_run:
  assumes "hm_wf (cf_target_commands r)" "\<And>t. commands_for r t = naming t cs"
  shows "commands_for (fold resolver_apply ops r) t = naming t (fold in_force_step ops cs)"
  using assms
proof (induction ops arbitrary: r cs)
  case (Cons op ops)
  show ?case
  proof (cases op)
    case (Register c)
    with Cons show ?thesis
      by (simp add: commands.invar_register commands.items_register naming_simps)
  next
    case (Unregister i)
    with Cons show ?thesis
      by (simp add: commands.invar_unregister commands.items_unregister naming_simps)
  qed
qed simp

lemma commands_for_in_force:
  "commands_for (fold resolver_apply ops conflict_resolver_new) t = naming t (in_force ops)"
  using commands_for_run [of conflict_resolver_new "[]"]
  by (simp add: conflict_resolver_new_def commands_for_def hm_list_def hm_get_def naming_simps)

text \<open>
  C16. Conflict detection is exact. After any sequence of registrations and unregistrations a command is
  free of conflict exactly when no command in force (registered, and its id not unregistered since)
  shares a target with it. Otherwise the conflict lists exactly the commands in force that share a
  target: target by target in the order of the new command, for each target in the order they were
  registered, once for every time they name it.
\<close>

theorem conflict_detection_exact:
  "check_conflict (fold resolver_apply ops conflict_resolver_new) d =
     (if \<forall>c \<in> set (in_force ops). set (extract_target_ids c) \<inter> set (extract_target_ids d) = {} then NoConflict
      else Conflict (concat (map (\<lambda>t. naming t (in_force ops)) (extract_target_ids d))))"
proof -
  have "concat (map (\<lambda>t. naming t (in_force ops)) (extract_target_ids d)) = [] \<longleftrightarrow>
      (\<forall>t \<in> set (extract_target_ids d). set (naming t (in_force ops)) = {})"
    by simp
  also have "\<dots> \<longleftrightarrow> (\<forall>c \<in> set (in_force ops). set (extract_target_ids c) \<inter> set (extract_target_ids d) = {})"
    unfolding set_naming by blast
  finally show ?thesis
    unfolding check_conflict_concat commands_for_in_force Let_def by (simp only:)
qed

definition example_command :: "string \<Rightarrow> string \<Rightarrow> u64 \<Rightarrow> hierarchical_command" where
  "example_command cid target issued =
     \<lparr>hc_command_id = cid, hc_originator_id = ''zone-1'',
      hc_target = Some \<lparr>ct_scope = 1, ct_target_ids = [target]\<rparr>, hc_command_type = None, hc_priority = 2,
      hc_buffer_policy = 0, hc_conflict_policy = 1, hc_acknowledgment_policy = 2, hc_leader_change_policy = 0,
      hc_issued_at = timestamp_at issued, hc_expires_at = None, hc_version = 1\<rparr>"

theorem conflict_detection_exact_witness:
  "check_conflict (fold resolver_apply
      [Register (example_command ''c1'' ''n1'' 5), Register (example_command ''c2'' ''n1'' 6),
       Register (example_command ''c3'' ''n2'' 7), Unregister ''c1''] conflict_resolver_new)
     (example_command ''c4'' ''n1'' 8) = Conflict [example_command ''c2'' ''n1'' 6]"
  unfolding conflict_detection_exact by (simp add: naming_def extract_target_ids_def example_command_def)


subsection \<open>The winner\<close>

text \<open>What a policy compares, as a number.\<close>

definition policy_rank :: "conflict_policy \<Rightarrow> hierarchical_command \<Rightarrow> int" where
  "policy_rank p c =
     (case p of
        LastWriteWins \<Rightarrow> uint (secs_or_0 (hc_issued_at c))
      | HighestPriorityWins \<Rightarrow> command_priority_to_int (priority_or_routine c)
      | HighestAuthorityWins \<Rightarrow> uint (derive_authority_level (hc_originator_id c))
      | _ \<Rightarrow> 0)"

lemma resolve_ranked:
  assumes "cs \<noteq> []" "p \<in> {LastWriteWins, HighestPriorityWins, HighestAuthorityWins}"
  shows "\<exists>pre w suf. resolve cs p = Inr w \<and> cs = pre @ w # suf
           \<and> (\<forall>c \<in> set pre. policy_rank p c < policy_rank p w)
           \<and> (\<forall>c \<in> set cs. policy_rank p c \<le> policy_rank p w)"
proof -
  have pick: ?thesis
    if "resolve cs p = Inr (hd (sort_desc_by f cs))"
      and "\<And>c d. f c < f d \<longleftrightarrow> policy_rank p c < policy_rank p d" for f :: "hierarchical_command \<Rightarrow> 'b::linorder"
  proof -
    have "f c \<le> f d \<longleftrightarrow> policy_rank p c \<le> policy_rank p d" for c d
      by (simp add: not_less [symmetric] that(2))
    with that sort_desc_by_first [OF assms(1), of f] hd_sort_desc_by(2) [OF assms(1), of f] show ?thesis
      by blast
  qed
  show ?thesis
  proof (cases "length cs = 1")
    case True
    then obtain c where "cs = [c]" by (auto simp: length_Suc_conv)
    then show ?thesis
      by (intro exI [of _ "[]"] exI [of _ c]) (simp add: resolve_def)
  next
    case False
    from assms(2) consider "p = LastWriteWins" | "p = HighestPriorityWins" | "p = HighestAuthorityWins" by blast
    then show ?thesis
      using False assms(1)
      by cases
         (rule pick, simp add: resolve_def resolve_last_write_wins_def resolve_highest_priority_wins_def
            resolve_highest_authority_wins_def,
          simp add: policy_rank_def word_less_def less_command_priority_def)+
  qed
qed

text \<open>
  Every ranked policy picks the first command of greatest rank: issue time for last-write-wins,
  priority, or authority of the originator. On a tie the command that came first stays.
\<close>

theorem resolve_picks_first_maximum:
  assumes "cs \<noteq> []" "p = LastWriteWins \<or> p = HighestPriorityWins \<or> p = HighestAuthorityWins"
  shows "\<exists>pre w suf. resolve cs p = Inr w \<and> cs = pre @ w # suf
           \<and> (\<forall>c \<in> set pre. policy_rank p c < policy_rank p w)
           \<and> (\<forall>c \<in> set cs. policy_rank p c \<le> policy_rank p w)"
  using resolve_ranked assms by blast

theorem resolve_picks_first_maximum_witness:
  "\<exists>w \<in> {example_command ''c1'' ''n1'' 5, example_command ''c2'' ''n1'' 6}.
     resolve [example_command ''c1'' ''n1'' 5, example_command ''c2'' ''n1'' 6] LastWriteWins = Inr w"
proof -
  have "[example_command ''c1'' ''n1'' 5, example_command ''c2'' ''n1'' 6] \<noteq> []" by simp
  from resolve_picks_first_maximum [OF this, of LastWriteWins] obtain pre w suf where
    "resolve [example_command ''c1'' ''n1'' 5, example_command ''c2'' ''n1'' 6] LastWriteWins = Inr w"
    and split: "[example_command ''c1'' ''n1'' 5, example_command ''c2'' ''n1'' 6] = pre @ w # suf"
    by auto
  moreover have "w \<in> set (pre @ w # suf)" by simp
  then have "w \<in> {example_command ''c1'' ''n1'' 5, example_command ''c2'' ''n1'' 6}"
    unfolding split [symmetric] by simp
  ultimately show ?thesis by blast
qed

end
