(* ===== verification/Timeout_Manager.thy ===== *)
theory Timeout_Manager
  imports Command_Routing Item_Index
begin

text \<open>
  Command expiry and acknowledgement timeouts, \<open>peat-protocol/src/command/timeout_manager.rs\<close>.
  A \<open>SystemTime\<close> is a number of nanoseconds since the Unix epoch. The \<open>BTreeMap\<close> of expiries is an
  association list that is read in key order.
\<close>


subsection \<open>State and operations\<close>

record ack_timeout =
  at_command_id :: string
  at_expected_acks :: "string list"
  at_received_acks :: "string list"
  at_expires_at :: nat

record timeout_manager =
  tm_expiring_commands :: "(nat, string list) hash_map"
  tm_ack_timeouts :: "(string, ack_timeout) hash_map"

definition timeout_manager_new :: timeout_manager where
  "timeout_manager_new = \<lparr>tm_expiring_commands = [], tm_ack_timeouts = []\<rparr>"

definition register_expiration :: "hierarchical_command \<Rightarrow> timeout_manager \<Rightarrow> timeout_manager" where
  "register_expiration command self =
     (case hc_expires_at command of
        Some expires_at \<Rightarrow>
          (let expiry = from_secs (unat (seconds expires_at))
           in self\<lparr>tm_expiring_commands :=
                hm_push expiry (hc_command_id command) (tm_expiring_commands self)\<rparr>)
      | None \<Rightarrow> self)"

definition process_expired :: "nat \<Rightarrow> timeout_manager \<Rightarrow> timeout_manager \<times> string list" where
  "process_expired now self =
     (let expired_keys = sort (filter (\<lambda>k. k \<le> now) (map fst (tm_expiring_commands self)));
          (expiring, expired) =
            fold (\<lambda>key (expiring, expired).
                    case hm_get expiring key of
                      Some commands \<Rightarrow> (hm_remove key expiring, expired @ commands)
                    | None \<Rightarrow> (expiring, expired))
              expired_keys (tm_expiring_commands self, [])
      in (self\<lparr>tm_expiring_commands := expiring\<rparr>, expired))"

definition unregister_expiration :: "string \<Rightarrow> timeout_manager \<Rightarrow> timeout_manager" where
  "unregister_expiration command_id self =
     self\<lparr>tm_expiring_commands := hm_purge (\<lambda>i. i \<noteq> command_id) (tm_expiring_commands self)\<rparr>"

definition register_ack_timeout :: "nat \<Rightarrow> string \<Rightarrow> string list \<Rightarrow> nat \<Rightarrow> timeout_manager \<Rightarrow> timeout_manager" where
  "register_ack_timeout now command_id expected_acks timeout self =
     self\<lparr>tm_ack_timeouts :=
       hm_insert command_id
         \<lparr>at_command_id = command_id, at_expected_acks = expected_acks, at_received_acks = [],
          at_expires_at = now + timeout\<rparr>
         (tm_ack_timeouts self)\<rparr>"

definition record_ack :: "string \<Rightarrow> string \<Rightarrow> timeout_manager \<Rightarrow> timeout_manager \<times> bool" where
  "record_ack command_id node_id self =
     (case hm_get (tm_ack_timeouts self) command_id of
        Some timeout \<Rightarrow>
          (let timeout = (if node_id \<notin> set (at_received_acks timeout)
                          then timeout\<lparr>at_received_acks := at_received_acks timeout @ [node_id]\<rparr>
                          else timeout)
           in (self\<lparr>tm_ack_timeouts := hm_insert command_id timeout (tm_ack_timeouts self)\<rparr>,
               length (at_received_acks timeout) \<ge> length (at_expected_acks timeout)))
      | None \<Rightarrow> (self, False))"

definition check_ack_timeouts :: "nat \<Rightarrow> timeout_manager \<Rightarrow> string list" where
  "check_ack_timeouts now self =
     map fst (filter (\<lambda>(_, t). at_expires_at t \<le> now \<and> length (at_received_acks t) < length (at_expected_acks t))
       (tm_ack_timeouts self))"

definition get_ack_status :: "string \<Rightarrow> timeout_manager \<Rightarrow> ack_timeout option" where
  "get_ack_status command_id self = hm_get (tm_ack_timeouts self) command_id"

definition unregister_ack_timeout :: "string \<Rightarrow> timeout_manager \<Rightarrow> timeout_manager" where
  "unregister_ack_timeout command_id self =
     self\<lparr>tm_ack_timeouts := hm_remove command_id (tm_ack_timeouts self)\<rparr>"

subsection \<open>Expiry\<close>

definition expiring_at :: "timeout_manager \<Rightarrow> nat \<Rightarrow> string list" where
  "expiring_at m = hm_list (tm_expiring_commands m)"

definition expiry_keys :: "hierarchical_command \<Rightarrow> nat list" where
  "expiry_keys c = (case hc_expires_at c of None \<Rightarrow> [] | Some t \<Rightarrow> [from_secs (unat (seconds t))])"

interpretation expiries: item_index expiring_at register_expiration unregister_expiration expiry_keys
    hc_command_id "\<lambda>i. i" "\<lambda>m. hm_wf (tm_expiring_commands m)"
  by unfold_locales
     (auto simp: expiring_at_def register_expiration_def unregister_expiration_def expiry_keys_def
        hm_list_push hm_list_purge Let_def split: option.splits)

lemma drain_keys:
  assumes "distinct ks"
  shows "hm_get (fst (fold (\<lambda>key (m, out). case hm_get m key of
             Some cs \<Rightarrow> (hm_remove key m, out @ cs) | None \<Rightarrow> (m, out)) ks (m, out))) k
           = (if k \<in> set ks then None else hm_get m k)"
    and "snd (fold (\<lambda>key (m, out). case hm_get m key of
             Some cs \<Rightarrow> (hm_remove key m, out @ cs) | None \<Rightarrow> (m, out)) ks (m, out))
           = out @ concat (map (hm_list m) ks)"
  using assms
proof (induction ks arbitrary: m out)
  case (Cons j ks)
  case 1
  then show ?case
    using Cons.IH(1) by (cases "hm_get m j") auto
  case 2
  have "concat (map (hm_list (hm_remove j m)) ks) = concat (map (hm_list m) ks)"
    using 2 by (intro arg_cong [where f = concat] map_cong) (auto simp: hm_list_def)
  moreover have "hm_list m j = (case hm_get m j of None \<Rightarrow> [] | Some cs \<Rightarrow> cs)"
    by (simp add: hm_list_def)
  ultimately show ?case
    using 2 Cons.IH(2) by (cases "hm_get m j") auto
qed simp_all

text \<open>
  \<open>process_expired\<close> returns exactly the commands whose expiry has been reached, in order of expiry
  and, within one expiry, of registration, and forgets them; the others stay. A second call at the
  same time returns nothing.
\<close>

theorem process_expired_exact:
  assumes "hm_wf (tm_expiring_commands m)"
  shows "snd (process_expired now m) =
           concat (map (expiring_at m) (sort (filter (\<lambda>k. k \<le> now) (map fst (tm_expiring_commands m)))))
         \<and> (\<forall>k. expiring_at (fst (process_expired now m)) k = (if k \<le> now then [] else expiring_at m k))
         \<and> snd (process_expired now (fst (process_expired now m))) = []"
proof -
  let ?m = "tm_expiring_commands m"
  let ?ks = "sort (filter (\<lambda>k. k \<le> now) (map fst ?m))"
  let ?r = "fold (\<lambda>key (m, out). case hm_get m key of
              Some cs \<Rightarrow> (hm_remove key m, out @ cs) | None \<Rightarrow> (m, out)) ?ks (?m, [])"
  have dist: "distinct ?ks"
    using assms by (simp add: hm_wf_def)
  have run: "process_expired now m = (m\<lparr>tm_expiring_commands := fst ?r\<rparr>, snd ?r)"
    by (simp add: process_expired_def Let_def case_prod_beta)
  have left: "hm_get (fst ?r) k = (if k \<le> now then None else hm_get ?m k)" for k
    unfolding drain_keys(1) [OF dist] by (auto simp: hm_get_None_iff)
  then have gone: "filter (\<lambda>k. k \<le> now) (map fst (fst ?r)) = []"
    by (metis (no_types, lifting) filter_False hm_get_None_iff image_set)
  have "expiring_at (fst (process_expired now m)) k = (if k \<le> now then [] else expiring_at m k)" for k
    using left [of k] by (simp only: run expiring_at_def hm_list_def fst_conv) simp
  moreover have "snd (process_expired now (fst (process_expired now m))) = []"
    unfolding run using gone by (simp only: process_expired_def fst_conv) simp
  moreover have "snd (process_expired now m) = concat (map (expiring_at m) ?ks)"
    unfolding run snd_conv drain_keys(2) [OF dist] by (simp add: expiring_at_def [abs_def])
  ultimately show ?thesis
    by blast
qed

definition example_expiring :: "string \<Rightarrow> u64 \<Rightarrow> hierarchical_command" where
  "example_expiring cid t =
     \<lparr>hc_command_id = cid, hc_originator_id = ''zone-1'', hc_target = None, hc_command_type = None,
      hc_priority = 2, hc_buffer_policy = 0, hc_conflict_policy = 1, hc_acknowledgment_policy = 2,
      hc_leader_change_policy = 0, hc_issued_at = None, hc_expires_at = timestamp_at t, hc_version = 1\<rparr>"

definition example_timeouts :: timeout_manager where
  "example_timeouts = register_expiration (example_expiring ''c2'' 9)
     (register_expiration (example_expiring ''c1'' 5) timeout_manager_new)"

theorem process_expired_exact_witness:
  "expiring_at (fst (process_expired (from_secs 7) example_timeouts)) (from_secs 5) = []
   \<and> snd (process_expired (from_secs 7) example_timeouts) = [''c1'']"
proof
  have "hm_wf (tm_expiring_commands timeout_manager_new)"
    by (simp add: timeout_manager_new_def)
  then have "hm_wf (tm_expiring_commands example_timeouts)"
    unfolding example_timeouts_def by (intro expiries.invar_register)
  from process_expired_exact [OF this, of "from_secs 7"]
  show "expiring_at (fst (process_expired (from_secs 7) example_timeouts)) (from_secs 5) = []"
    by (simp add: from_secs_def)
  show "snd (process_expired (from_secs 7) example_timeouts) = [''c1'']"
    by (simp add: process_expired_def example_timeouts_def register_expiration_def example_expiring_def
        timeout_manager_new_def timestamp_at_def from_secs_def hm_push_def hm_insert_def hm_get_def
        hm_remove_def)
qed


subsection \<open>Acknowledgements\<close>

lemma record_acks:
  assumes "hm_get (tm_ack_timeouts m) i = Some t" "distinct (at_received_acks t @ ns)"
  shows "hm_get (tm_ack_timeouts (fold (\<lambda>n m. fst (record_ack i n m)) ns m)) i =
           Some (t\<lparr>at_received_acks := at_received_acks t @ ns\<rparr>)"
  using assms
proof (induction ns arbitrary: m t)
  case (Cons n ns)
  let ?t = "t\<lparr>at_received_acks := at_received_acks t @ [n]\<rparr>"
  have "hm_get (tm_ack_timeouts (fst (record_ack i n m))) i = Some ?t"
    using Cons.prems by (simp add: record_ack_def Let_def)
  from Cons.IH [OF this] Cons.prems(2) show ?case by simp
qed simp

lemma hm_wf_record_acks:
  "hm_wf (tm_ack_timeouts m) \<Longrightarrow> hm_wf (tm_ack_timeouts (fold (\<lambda>n m. fst (record_ack i n m)) ns m))"
  by (induction ns arbitrary: m) (auto simp: record_ack_def Let_def split: option.splits)

lemma in_check_ack_timeouts:
  assumes "hm_wf (tm_ack_timeouts m)"
  shows "i \<in> set (check_ack_timeouts now m) \<longleftrightarrow>
     (\<exists>t. get_ack_status i m = Some t \<and> at_expires_at t \<le> now \<and>
          length (at_received_acks t) < length (at_expected_acks t))"
  using assms by (force simp: check_ack_timeouts_def get_ack_status_def hm_get_Some_iff)

text \<open>
  Acknowledgements are counted, not matched: when as many distinct nodes have answered as were
  expected, \<open>record_ack\<close> reports that all acknowledgements are in and no timeout is raised, even if
  none of the expected nodes is among them.
\<close>

theorem strangers_satisfy_ack_timeout:
  assumes "hm_wf (tm_ack_timeouts m)" "distinct strangers" "length strangers = length expected"
    and "expected \<noteq> []" "set strangers \<inter> set expected = {}"
  shows "let m1 = register_ack_timeout now i expected timeout m;
             m2 = fold (\<lambda>n m. fst (record_ack i n m)) (butlast strangers) m1
         in snd (record_ack i (last strangers) m2)
            \<and> i \<notin> set (check_ack_timeouts later (fst (record_ack i (last strangers) m2)))"
proof -
  let ?m1 = "register_ack_timeout now i expected timeout m"
  let ?m2 = "fold (\<lambda>n m. fst (record_ack i n m)) (butlast strangers) ?m1"
  have wf: "hm_wf (tm_ack_timeouts (fold (\<lambda>n m. fst (record_ack i n m)) ns ?m1))" for ns
    using assms(1) by (intro hm_wf_record_acks) (simp add: register_ack_timeout_def)
  let ?t = "\<lambda>ns. \<lparr>at_command_id = i, at_expected_acks = expected, at_received_acks = ns, at_expires_at = now + timeout\<rparr>"
  have got: "hm_get (tm_ack_timeouts (fold (\<lambda>n m. fst (record_ack i n m)) ns ?m1)) i = Some (?t ns)"
    if "distinct ns" for ns
    using record_acks [of ?m1 i "?t []" ns] that by (simp add: register_ack_timeout_def)
  obtain ns n where strangers: "strangers = ns @ [n]"
    using assms(3,4) by (cases strangers rule: rev_cases) auto
  have all: "fst (record_ack i n ?m2) = fold (\<lambda>n m. fst (record_ack i n m)) strangers ?m1"
    by (simp add: strangers)
  have "snd (record_ack i n ?m2)"
    using got [of ns] assms(2,3) by (simp add: strangers record_ack_def Let_def)
  moreover have "i \<notin> set (check_ack_timeouts later (fst (record_ack i n ?m2)))"
    unfolding all in_check_ack_timeouts [OF wf] using got [OF assms(2)] assms(3)
    by (simp add: get_ack_status_def)
  ultimately show ?thesis
    by (simp add: strangers Let_def)
qed

theorem strangers_satisfy_ack_timeout_witness:
  "snd (record_ack ''c1'' ''x1'' (register_ack_timeout 0 ''c1'' [''n1''] 30 timeout_manager_new))"
proof -
  have "hm_wf (tm_ack_timeouts timeout_manager_new)"
    by (simp add: timeout_manager_new_def)
  from strangers_satisfy_ack_timeout [OF this, of "[''x1'']" "[''n1'']" 0 "''c1''" 30] show ?thesis
    by (simp add: Let_def)
qed

end
