(* ===== verification/Command_Coordinator.thy ===== *)
theory Command_Coordinator
  imports Conflict_Resolver Timeout_Manager
begin

text \<open>
  The command coordinator, \<open>peat-protocol/src/command/coordinator.rs\<close>: issuing and receiving commands,
  execution, acknowledgement and status. The \<open>CommandStorage\<close> behind it is a parameter, a record of
  the two functions the coordinator calls; an operation returns the coordinator as it is when it
  returns, the documents it asked the storage to publish, and its result.
\<close>


subsection \<open>State and operations\<close>

record command_acknowledgment =
  ca_command_id :: string
  ca_node_id :: string
  ca_status :: int
  ca_reason :: "string option"
  ca_timestamp :: "timestamp option"

record command_status =
  cst_command_id :: string
  cst_state :: int
  cst_acknowledgments :: "command_acknowledgment list"
  cst_last_updated :: "timestamp option"

record command_storage =
  publish_command :: "hierarchical_command \<Rightarrow> peat_error + string"
  publish_acknowledgment :: "command_acknowledgment \<Rightarrow> peat_error + string"

datatype published = PublishedCommand hierarchical_command | PublishedAck command_acknowledgment

record command_coordinator =
  co_node_id :: string
  co_router :: command_router
  co_active_commands :: "(string, hierarchical_command) hash_map"
  co_acknowledgments :: "(string \<times> string, command_acknowledgment) hash_map"
  co_command_status :: "(string, command_status) hash_map"
  co_conflict_resolver :: conflict_resolver
  co_timeout_manager :: timeout_manager

type_synonym 'a outcome = "command_coordinator \<times> published list \<times> (peat_error + 'a)"

definition coordinator_new :: "string option \<Rightarrow> string \<Rightarrow> string list \<Rightarrow> command_coordinator" where
  "coordinator_new cell_id node_id cell_members =
     \<lparr>co_node_id = node_id, co_router = router_new node_id cell_id cell_members None,
      co_active_commands = [], co_acknowledgments = [], co_command_status = [],
      co_conflict_resolver = conflict_resolver_new, co_timeout_manager = timeout_manager_new\<rparr>"

definition requires_acknowledgment :: "hierarchical_command \<Rightarrow> bool" where
  "requires_acknowledgment command \<longleftrightarrow> hc_acknowledgment_policy command > 1"

definition route_command :: "command_storage \<Rightarrow> hierarchical_command \<Rightarrow> command_coordinator \<Rightarrow> unit outcome" where
  "route_command storage command self =
     (let resolution = resolve_target (co_router self) command
      in if \<not> should_route resolution then (self, [], Inr ())
         else (case publish_command storage command of
                 Inl e \<Rightarrow> (self, [PublishedCommand command], Inl e)
               | Inr doc_id \<Rightarrow> (self, [PublishedCommand command], Inr ())))"

text \<open>The two sections of \<open>issue_command\<close>: the conflict check, and steps 2 to 6.\<close>

definition conflict_verdict :: "hierarchical_command \<Rightarrow> command_coordinator \<Rightarrow> peat_error + unit" where
  "conflict_verdict command self =
     (case check_conflict (co_conflict_resolver self) command of
        NoConflict \<Rightarrow> Inr ()
      | Conflict existing \<Rightarrow>
          (let policy = (case conflict_policy_of_int (hc_conflict_policy command) of
                           None \<Rightarrow> HighestPriorityWins | Some p \<Rightarrow> p)
           in case resolve (existing @ [command]) policy of
                Inl e \<Rightarrow> Inl e
              | Inr resolved \<Rightarrow>
                  if hc_command_id resolved \<noteq> hc_command_id command
                  then Inl (EInternal ''Command rejected by conflict resolution policy'')
                  else Inr ()))"

definition record_command :: "nat \<Rightarrow> u64 \<Rightarrow> hierarchical_command \<Rightarrow> command_coordinator \<Rightarrow> command_coordinator" where
  "record_command clock now command self =
     (let s2 = self\<lparr>co_timeout_manager := register_expiration command (co_timeout_manager self)\<rparr>;
          s3 = s2\<lparr>co_conflict_resolver := register_command command (co_conflict_resolver s2)\<rparr>;
          s4 = s3\<lparr>co_active_commands := hm_insert (hc_command_id command) command (co_active_commands s3)\<rparr>;
          status = \<lparr>cst_command_id = hc_command_id command, cst_state = 1, cst_acknowledgments = [],
                    cst_last_updated = timestamp_at now\<rparr>;
          s5 = s4\<lparr>co_command_status := hm_insert (hc_command_id command) status (co_command_status s4)\<rparr>
      in if requires_acknowledgment command
         then (let targets = get_routing_targets (resolve_target (co_router s5) command)
               in if targets \<noteq> []
                  then s5\<lparr>co_timeout_manager :=
                         register_ack_timeout clock (hc_command_id command) targets (from_secs 30)
                           (co_timeout_manager s5)\<rparr>
                  else s5)
         else s5)"

definition issue_command ::
    "command_storage \<Rightarrow> nat \<Rightarrow> u64 \<Rightarrow> hierarchical_command \<Rightarrow> command_coordinator \<Rightarrow> unit outcome" where
  "issue_command storage clock now command self =
     (case conflict_verdict command self of
        Inl e \<Rightarrow> (self, [], Inl e)
      | Inr _ \<Rightarrow> route_command storage command (record_command clock now command self))"

text \<open>\<open>execute_command\<close> holds the status map locked throughout, so its two writes are one step.\<close>

definition execute_command :: "u64 \<Rightarrow> hierarchical_command \<Rightarrow> command_coordinator \<Rightarrow> command_coordinator" where
  "execute_command now command self =
     (let cid = hc_command_id command;
          status_map =
            (case hm_get (co_command_status self) cid of
               Some status \<Rightarrow> hm_insert cid (status\<lparr>cst_state := 2\<rparr>) (co_command_status self)
             | None \<Rightarrow>
                 hm_insert cid \<lparr>cst_command_id = cid, cst_state = 2, cst_acknowledgments = [],
                                cst_last_updated = timestamp_at now\<rparr> (co_command_status self));
          status_map =
            (case hm_get status_map cid of
               Some status \<Rightarrow> hm_insert cid (status\<lparr>cst_state := 3\<rparr>) status_map
             | None \<Rightarrow> status_map)
      in self\<lparr>co_command_status := status_map\<rparr>)"

definition send_acknowledgment ::
    "command_storage \<Rightarrow> u64 \<Rightarrow> hierarchical_command \<Rightarrow> int \<Rightarrow> command_coordinator \<Rightarrow> unit outcome" where
  "send_acknowledgment storage now command status self =
     (let ack = \<lparr>ca_command_id = hc_command_id command, ca_node_id = co_node_id self, ca_status = status,
                 ca_reason = None, ca_timestamp = timestamp_at now\<rparr>
      in case publish_acknowledgment storage ack of
           Inl e \<Rightarrow> (self, [PublishedAck ack], Inl e)
         | Inr doc_id \<Rightarrow>
             (let s1 = self\<lparr>co_acknowledgments :=
                         hm_insert (hc_command_id command, co_node_id self) ack (co_acknowledgments self)\<rparr>;
                  (timeouts, all_received) =
                    record_ack (hc_command_id command) (co_node_id s1) (co_timeout_manager s1);
                  timeouts = (if all_received then unregister_ack_timeout (hc_command_id command) timeouts
                              else timeouts)
              in (s1\<lparr>co_timeout_manager := timeouts\<rparr>, [PublishedAck ack], Inr ())))"

definition receive_command ::
    "command_storage \<Rightarrow> u64 \<Rightarrow> hierarchical_command \<Rightarrow> command_coordinator \<Rightarrow> unit outcome" where
  "receive_command storage now command self =
     (case resolve_target (co_router self) command of
        TargetSelf \<Rightarrow>
          (let s1 = execute_command now command self
           in if requires_acknowledgment command then send_acknowledgment storage now command 1 s1
              else (s1, [], Inr ()))
      | Subordinates _ \<Rightarrow> route_command storage command self
      | AllCellMembers _ \<Rightarrow> route_command storage command self
      | NotApplicable \<Rightarrow> (self, [], Inr ()))"

definition get_command_status :: "string \<Rightarrow> command_coordinator \<Rightarrow> command_status option" where
  "get_command_status command_id self = hm_get (co_command_status self) command_id"

definition get_command_acknowledgments :: "string \<Rightarrow> command_coordinator \<Rightarrow> command_acknowledgment list" where
  "get_command_acknowledgments command_id self =
     map snd (filter (\<lambda>((cmd_id, _), _). cmd_id = command_id) (co_acknowledgments self))"

definition is_command_acknowledged :: "string \<Rightarrow> command_coordinator \<Rightarrow> bool" where
  "is_command_acknowledged command_id self =
     (case hm_get (co_active_commands self) command_id of
        None \<Rightarrow> False
      | Some command \<Rightarrow>
          (let targets = get_routing_targets (resolve_target (co_router self) command)
           in if targets = [] then True
              else (let acked_nodes = map ca_node_id (get_command_acknowledgments command_id self)
                    in list_all (\<lambda>t. t \<in> set acked_nodes) targets)))"


subsection \<open>Runs\<close>

inductive coordinator_step :: "command_coordinator \<Rightarrow> command_coordinator \<Rightarrow> bool" where
  issue: "coordinator_step c (fst (issue_command storage clock now cmd c))"
| receive: "coordinator_step c (fst (receive_command storage now cmd c))"

inductive_cases coordinator_stepE: "coordinator_step c c'"

lemma route_command_state [simp]: "fst (route_command storage cmd c) = c"
  by (simp add: route_command_def Let_def split: sum.splits)

lemma record_command_fields:
  "co_node_id (record_command clock now cmd c) = co_node_id c"
  "co_router (record_command clock now cmd c) = co_router c"
  "co_acknowledgments (record_command clock now cmd c) = co_acknowledgments c"
  "co_conflict_resolver (record_command clock now cmd c) = register_command cmd (co_conflict_resolver c)"
  "co_active_commands (record_command clock now cmd c) = hm_insert (hc_command_id cmd) cmd (co_active_commands c)"
  by (simp_all add: record_command_def Let_def)

lemma issue_command_state:
  "fst (issue_command storage clock now cmd c) =
     (if isl (conflict_verdict cmd c) then c else record_command clock now cmd c)"
  by (simp add: issue_command_def split: sum.splits)

lemma execute_command_frame [simp]:
  "co_node_id (execute_command now cmd c) = co_node_id c"
  "co_router (execute_command now cmd c) = co_router c"
  "co_acknowledgments (execute_command now cmd c) = co_acknowledgments c"
  "co_conflict_resolver (execute_command now cmd c) = co_conflict_resolver c"
  "co_active_commands (execute_command now cmd c) = co_active_commands c"
  by (simp_all add: execute_command_def Let_def)

lemma send_acknowledgment_frame [simp]:
  "co_node_id (fst (send_acknowledgment st now cmd k c)) = co_node_id c"
  "co_router (fst (send_acknowledgment st now cmd k c)) = co_router c"
  "co_conflict_resolver (fst (send_acknowledgment st now cmd k c)) = co_conflict_resolver c"
  "co_active_commands (fst (send_acknowledgment st now cmd k c)) = co_active_commands c"
  by (simp_all add: send_acknowledgment_def Let_def case_prod_beta split: sum.splits)

lemma receive_command_frame [simp]:
  "co_node_id (fst (receive_command st now cmd c)) = co_node_id c"
  "co_router (fst (receive_command st now cmd c)) = co_router c"
  "co_conflict_resolver (fst (receive_command st now cmd c)) = co_conflict_resolver c"
  "co_active_commands (fst (receive_command st now cmd c)) = co_active_commands c"
  by (simp_all add: receive_command_def Let_def split: target_resolution.splits)

text \<open>What every run keeps: identity and router, maps with unique keys, own acknowledgements only.\<close>

definition own_acks :: "command_coordinator \<Rightarrow> bool" where
  "own_acks c \<longleftrightarrow> (\<forall>k a. (k, a) \<in> set (co_acknowledgments c) \<longrightarrow> ca_node_id a = co_node_id c)"

lemma set_hm_insert: "set (hm_insert k v m) \<subseteq> insert (k, v) (set m)"
  by (induction m) (auto simp: hm_insert_def)

lemma own_acks_send: "own_acks c \<Longrightarrow> own_acks (fst (send_acknowledgment st now cmd k c))"
  using set_hm_insert [of "(hc_command_id cmd, co_node_id c)"]
  by (fastforce simp: own_acks_def send_acknowledgment_def Let_def case_prod_beta split: sum.splits)

lemma own_acks_step: "coordinator_step c c' \<Longrightarrow> own_acks c \<Longrightarrow> own_acks c'"
proof (erule coordinator_step.cases)
  fix c0 st clock now cmd
  assume "c = c0" "c' = fst (issue_command st clock now cmd c0)" "own_acks c"
  then show "own_acks c'"
    by (simp add: issue_command_state own_acks_def record_command_fields)
next
  fix c0 st now cmd
  assume c: "c = c0" "c' = fst (receive_command st now cmd c0)" "own_acks c"
  then have "own_acks (execute_command now cmd c0)"
    by (simp add: own_acks_def)
  with c show "own_acks c'"
    by (auto simp: receive_command_def Let_def own_acks_send split: target_resolution.splits)
qed

definition coordinator_wf :: "command_coordinator \<Rightarrow> bool" where
  "coordinator_wf c \<longleftrightarrow> hm_wf (cf_target_commands (co_conflict_resolver c))"

lemma coordinator_wf_step: "coordinator_step c c' \<Longrightarrow> coordinator_wf c \<Longrightarrow> coordinator_wf c'"
  by (erule coordinator_step.cases)
     (auto simp: coordinator_wf_def issue_command_state record_command_fields intro: commands.invar_register)

lemma router_step: "coordinator_step c c' \<Longrightarrow> co_router c' = co_router c \<and> co_node_id c' = co_node_id c"
  by (erule coordinator_step.cases) (auto simp: issue_command_state record_command_fields)

lemma reachable_facts:
  assumes "coordinator_step\<^sup>*\<^sup>* (coordinator_new cell n members) c"
  shows "own_acks c" and "coordinator_wf c" and "co_node_id c = n"
    and "co_router c = router_new n cell members None"
proof -
  from assms have "own_acks c \<and> coordinator_wf c \<and> co_node_id c = n \<and> co_router c = router_new n cell members None"
  proof induction
    case base
    then show ?case
      by (simp add: own_acks_def coordinator_wf_def coordinator_new_def conflict_resolver_new_def)
  next
    case (step c c')
    then show ?case
      using own_acks_step coordinator_wf_step router_step by metis
  qed
  then show "own_acks c" "coordinator_wf c" "co_node_id c = n" "co_router c = router_new n cell members None"
    by simp_all
qed


subsection \<open>Issuing against a conflict\<close>

text \<open>The policy that \<open>issue_command\<close> applies; a number that is no policy counts as the highest priority.\<close>

definition effective_policy :: "hierarchical_command \<Rightarrow> conflict_policy" where
  "effective_policy cmd =
     (case conflict_policy_of_int (hc_conflict_policy cmd) of None \<Rightarrow> HighestPriorityWins | Some p \<Rightarrow> p)"

text \<open>The first of some commands, in list order, that none of them outranks.\<close>

definition first_top :: "conflict_policy \<Rightarrow> hierarchical_command list \<Rightarrow> hierarchical_command option" where
  "first_top p cs = List.find (\<lambda>c. list_all (\<lambda>d. policy_rank p d \<le> policy_rank p c) cs) cs"

lemma first_top_split:
  assumes "\<forall>c \<in> set pre. policy_rank p c < policy_rank p w" "\<forall>c \<in> set (pre @ w # suf). policy_rank p c \<le> policy_rank p w"
  shows "first_top p (pre @ w # suf) = Some w"
proof -
  have "\<not> list_all (\<lambda>d. policy_rank p d \<le> policy_rank p ((pre @ w # suf) ! j)) (pre @ w # suf)" if "j < length pre" for j
    using that assms(1) by (auto simp: nth_append not_le)
  then show ?thesis
    using assms(2) unfolding first_top_def find_Some_iff by (intro exI [of _ "length pre"]) (simp add: list_all_iff)
qed

text \<open>
  C17. A command that conflicts with others, under last-write-wins, highest priority or highest authority
  (highest priority being also the policy for a number that is none). Take the first of the conflicting
  commands that none of them outranks. The new command is accepted exactly when it outranks that one, and
  so all of them, or bears its id, as when a command is issued again; then it is recorded and routed. In
  every other case it is rejected, with nothing recorded and nothing published.
\<close>

theorem issue_conflict_outcome:
  assumes "check_conflict (co_conflict_resolver c) cmd = Conflict existing"
    and "effective_policy cmd = LastWriteWins \<or> effective_policy cmd = HighestPriorityWins
         \<or> effective_policy cmd = HighestAuthorityWins"
  defines "p \<equiv> effective_policy cmd"
  shows "\<exists>w. first_top p existing = Some w \<and> (\<forall>e \<in> set existing. policy_rank p e \<le> policy_rank p w) \<and>
           issue_command storage clock now cmd c =
             (if policy_rank p w < policy_rank p cmd \<or> hc_command_id w = hc_command_id cmd
              then route_command storage cmd (record_command clock now cmd c)
              else (c, [], Inl (EInternal ''Command rejected by conflict resolution policy'')))"
proof -
  let ?cs = "existing @ [cmd]"
  have "existing \<noteq> []"
    using assms(1) by (auto simp: check_conflict_concat Let_def split: if_splits)
  have ranked: "p \<in> {LastWriteWins, HighestPriorityWins, HighestAuthorityWins}" using assms(2) by (simp add: p_def)
  obtain pre v suf where v: "resolve ?cs p = Inr v" "?cs = pre @ v # suf"
    and first: "\<forall>c \<in> set pre. policy_rank p c < policy_rank p v"
    and top: "\<forall>c \<in> set ?cs. policy_rank p c \<le> policy_rank p v"
    using resolve_ranked [of ?cs p] ranked by blast
  obtain pre' w suf' where w: "existing = pre' @ w # suf'"
    and "\<forall>c \<in> set pre'. policy_rank p c < policy_rank p w" "\<forall>c \<in> set existing. policy_rank p c \<le> policy_rank p w"
    using resolve_ranked [OF \<open>existing \<noteq> []\<close> ranked] by blast
  then have w_top: "first_top p existing = Some w" "\<forall>c \<in> set existing. policy_rank p c \<le> policy_rank p w" "w \<in> set existing"
    by (simp_all add: first_top_split)
  have "hc_command_id v = hc_command_id cmd \<longleftrightarrow> policy_rank p w < policy_rank p cmd \<or> hc_command_id w = hc_command_id cmd"
  proof (cases suf rule: rev_cases)
    case Nil
    with v(2) have "existing = pre" "v = cmd" by simp_all
    then show ?thesis using first w_top(3) by auto
  next
    case (snoc suf'' s)
    with v(2) have ex: "existing = pre @ v # suf''"
      by (metis append_Cons append_assoc butlast_snoc)
    then have "first_top p existing = Some v"
      using first top by (simp add: first_top_split)
    then show ?thesis using w_top(1) top by auto
  qed
  then have "conflict_verdict cmd c =
      (if policy_rank p w < policy_rank p cmd \<or> hc_command_id w = hc_command_id cmd then Inr ()
       else Inl (EInternal ''Command rejected by conflict resolution policy''))"
    using assms(1) v(1) by (simp add: conflict_verdict_def Let_def p_def effective_policy_def del: conflict_policy_of_int.simps)
  then show ?thesis
    using w_top by (simp add: issue_command_def)
qed

definition accepting_storage :: command_storage where
  "accepting_storage = \<lparr>publish_command = (\<lambda>_. Inr ''doc''), publish_acknowledgment = (\<lambda>_. Inr ''doc'')\<rparr>"

definition failing_storage :: command_storage where
  "failing_storage = \<lparr>publish_command = (\<lambda>_. Inl (EInternal ''offline'')),
                      publish_acknowledgment = (\<lambda>_. Inl (EInternal ''offline''))\<rparr>"

definition example_lead :: command_coordinator where
  "example_lead = coordinator_new (Some ''alpha'') ''n0'' [''n1'', ''n2'']"

definition example_busy :: command_coordinator where
  "example_busy = record_command 0 5 (example_command ''c1'' ''n1'' 5) example_lead"

lemma example_busy_conflict:
  "check_conflict (co_conflict_resolver example_busy) (example_command ''c2'' ''n1'' t) =
     Conflict [example_command ''c1'' ''n1'' 5]"
  by (simp add: example_busy_def example_lead_def coordinator_new_def record_command_fields
      check_conflict_concat Let_def commands.items_register conflict_resolver_new_def commands_for_def
      hm_list_def extract_target_ids_def example_command_def)
     (simp add: register_command_def extract_target_ids_def hm_push_def)

theorem issue_conflict_outcome_witness:
  "snd (snd (issue_command accepting_storage 0 6 (example_command ''c2'' ''n1'' 5) example_busy)) =
     Inl (EInternal ''Command rejected by conflict resolution policy'')
   \<and> snd (snd (issue_command accepting_storage 0 6 (example_command ''c2'' ''n1'' 6) example_busy)) = Inr ()"
proof -
  have policy: "effective_policy (example_command ''c2'' ''n1'' t) = LastWriteWins" for t
    by (simp add: effective_policy_def example_command_def)
  have rank: "policy_rank LastWriteWins (example_command i n t) = uint t" for i n t
    by (simp add: policy_rank_def example_command_def)
  have first: "first_top LastWriteWins [example_command ''c1'' ''n1'' 5] = Some (example_command ''c1'' ''n1'' 5)"
    by (simp add: first_top_def)
  have ids: "hc_command_id (example_command ''c1'' ''n1'' 5) \<noteq> hc_command_id (example_command ''c2'' ''n1'' t)" for t
    by (simp add: example_command_def)
  have "snd (snd (route_command accepting_storage cmd c)) = Inr ()" for cmd c
    by (simp add: route_command_def accepting_storage_def Let_def)
  moreover have "issue_command accepting_storage 0 6 (example_command ''c2'' ''n1'' t) example_busy =
      (if 5 < uint t then route_command accepting_storage (example_command ''c2'' ''n1'' t)
           (record_command 0 6 (example_command ''c2'' ''n1'' t) example_busy)
       else (example_busy, [], Inl (EInternal ''Command rejected by conflict resolution policy'')))" for t
    using issue_conflict_outcome [OF example_busy_conflict, of t accepting_storage 0 6] first ids [of t]
    by (auto simp: policy rank)
  ultimately show ?thesis by simp
qed


subsection \<open>Commands are never retired\<close>

lemma registered_stays:
  assumes "coordinator_step\<^sup>*\<^sup>* c c'" "coordinator_wf c"
    and "e \<in> set (commands_for (co_conflict_resolver c) t)"
  shows "e \<in> set (commands_for (co_conflict_resolver c') t)"
proof -
  have "coordinator_wf c' \<and> e \<in> set (commands_for (co_conflict_resolver c') t)"
    using assms(1)
  proof induction
    case base
    then show ?case using assms(2,3) by simp
  next
    case (step c1 c2)
    have "set (commands_for (co_conflict_resolver c1) t) \<subseteq> set (commands_for (co_conflict_resolver c2) t)"
      using step.hyps(2) step.IH
      by (cases rule: coordinator_step.cases)
         (auto simp: issue_command_state record_command_fields coordinator_wf_def
           dest: commands.register_keeps)
    with step show ?case using coordinator_wf_step by blast
  qed
  then show ?thesis by simp
qed

text \<open>
  A command stays in the conflict index for ever: whatever is issued or received later, and
  however long ago it expired, every command for one of its targets still conflicts with it, and is
  refused when its policy is to reject conflicts.
\<close>

theorem issued_command_blocks_forever:
  assumes "coordinator_wf c" "conflict_verdict cmd c = Inr ()"
    and "coordinator_step\<^sup>*\<^sup>* (fst (issue_command storage clock now cmd c)) c'"
    and "t \<in> set (extract_target_ids cmd)" "t \<in> set (extract_target_ids later)"
  shows "check_conflict (co_conflict_resolver c') later \<noteq> NoConflict
         \<and> (hc_conflict_policy later = 5 \<longrightarrow>
              (\<exists>e. issue_command storage' clock' now' later c' = (c', [], Inl e)))"
proof -
  let ?c1 = "fst (issue_command storage clock now cmd c)"
  have "cmd \<in> set (commands_for (co_conflict_resolver ?c1) t)"
    using assms(1,2,4)
    by (simp add: issue_command_state record_command_fields coordinator_wf_def commands.register_visible)
  moreover have "coordinator_wf ?c1"
    using assms(1) coordinator_wf_step coordinator_step.issue by blast
  ultimately have "cmd \<in> set (commands_for (co_conflict_resolver c') t)"
    using registered_stays [OF assms(3)] by simp
  then have conflict: "check_conflict (co_conflict_resolver c') later \<noteq> NoConflict"
    using assms(5) by (metis empty_iff empty_set no_conflict_iff)
  then obtain existing where found: "check_conflict (co_conflict_resolver c') later = Conflict existing"
    by (cases "check_conflict (co_conflict_resolver c') later") auto
  then have "existing \<noteq> []"
    by (auto simp: check_conflict_concat Let_def split: if_splits)
  then have "\<exists>e. conflict_verdict later c' = Inl e" if "hc_conflict_policy later = 5"
    using that found by (cases existing) (simp_all add: conflict_verdict_def resolve_def Let_def)
  with conflict show ?thesis
    by (auto simp: issue_command_def)
qed

theorem issued_command_blocks_forever_witness:
  "check_conflict (co_conflict_resolver (fst (issue_command accepting_storage 0 5 (example_command ''c1'' ''n1'' 5)
     example_lead))) (example_command ''c2'' ''n1'' 99) \<noteq> NoConflict"
proof -
  have "coordinator_wf example_lead"
    by (simp add: coordinator_wf_def example_lead_def coordinator_new_def conflict_resolver_new_def)
  moreover have "conflict_verdict (example_command ''c1'' ''n1'' 5) example_lead = Inr ()"
    by (simp add: conflict_verdict_def check_conflict_def example_lead_def coordinator_new_def
        conflict_resolver_new_def extract_target_ids_def example_command_def)
  moreover have "''n1'' \<in> set (extract_target_ids (example_command ''c1'' ''n1'' 5))"
    "''n1'' \<in> set (extract_target_ids (example_command ''c2'' ''n1'' 99))"
    by (simp_all add: extract_target_ids_def example_command_def)
  ultimately show ?thesis
    using issued_command_blocks_forever [of example_lead "example_command ''c1'' ''n1'' 5" accepting_storage 0 5]
    by blast
qed


subsection \<open>Acknowledgements\<close>

text \<open>
  A coordinator never sees the acknowledgements of others: in every run, a command that was routed
  to any other node is never reported as acknowledged.
\<close>

theorem routed_command_never_acknowledged:
  assumes "coordinator_step\<^sup>*\<^sup>* (coordinator_new cell n members) c"
    and "hm_get (co_active_commands c) i = Some cmd"
    and "t \<in> set (get_routing_targets (resolve_target (router_new n cell members None) cmd))" "t \<noteq> n"
  shows "\<not> is_command_acknowledged i c"
proof -
  note facts = reachable_facts [OF assms(1)]
  have "ca_node_id a = n" if "a \<in> set (get_command_acknowledgments i c)" for a
    using facts(1,3) that by (auto simp: own_acks_def get_command_acknowledgments_def)
  then have "t \<notin> set (map ca_node_id (get_command_acknowledgments i c))"
    using assms(4) by auto
  then show ?thesis
    using assms(2,3) facts(4)
    by (auto simp: is_command_acknowledged_def Let_def list_all_iff)
qed

theorem routed_command_never_acknowledged_witness:
  "\<not> is_command_acknowledged ''c1'' (fst (issue_command accepting_storage 0 5 (example_command ''c1'' ''n1'' 5)
       (coordinator_new (Some ''alpha'') ''n0'' [''n1'', ''n2''])))"
proof -
  let ?c = "fst (issue_command accepting_storage 0 5 (example_command ''c1'' ''n1'' 5)
       (coordinator_new (Some ''alpha'') ''n0'' [''n1'', ''n2'']))"
  have "coordinator_step\<^sup>*\<^sup>* (coordinator_new (Some ''alpha'') ''n0'' [''n1'', ''n2'']) ?c"
    by (intro r_into_rtranclp coordinator_step.issue)
  moreover have "conflict_verdict (example_command ''c1'' ''n1'' 5)
      (coordinator_new (Some ''alpha'') ''n0'' [''n1'', ''n2'']) = Inr ()"
    by (simp add: conflict_verdict_def check_conflict_def coordinator_new_def
        conflict_resolver_new_def extract_target_ids_def example_command_def)
  then have "hm_get (co_active_commands ?c) ''c1'' = Some (example_command ''c1'' ''n1'' 5)"
    by (simp add: issue_command_state record_command_fields coordinator_new_def)
       (simp add: example_command_def)
  moreover have "''n1'' \<in> set (get_routing_targets (resolve_target
      (router_new ''n0'' (Some ''alpha'') [''n1'', ''n2''] None) (example_command ''c1'' ''n1'' 5)))"
    by code_simp
  ultimately show ?thesis
    using routed_command_never_acknowledged by simp
qed


subsection \<open>Failures, cohorts and states\<close>

text \<open>
  A failed publication does not undo the command: \<open>issue_command\<close> returns the error, but the
  command is active, its status is pending, and issuing it again conflicts with itself.
\<close>

theorem failed_issue_leaves_command:
  assumes "coordinator_wf c" "check_conflict (co_conflict_resolver c) cmd = NoConflict"
    and "should_route (resolve_target (co_router c) cmd)" "publish_command storage cmd = Inl e"
    and "extract_target_ids cmd \<noteq> []"
  shows "let (c', _, res) = issue_command storage clock now cmd c
         in res = Inl e \<and> hm_get (co_active_commands c') (hc_command_id cmd) = Some cmd
            \<and> map_option cst_state (get_command_status (hc_command_id cmd) c') = Some 1
            \<and> check_conflict (co_conflict_resolver c') cmd \<noteq> NoConflict"
proof -
  let ?c' = "record_command clock now cmd c"
  have run: "issue_command storage clock now cmd c = (?c', [PublishedCommand cmd], Inl e)"
    using assms(2-4) by (simp add: issue_command_def conflict_verdict_def route_command_def Let_def record_command_fields)
  obtain t where t: "t \<in> set (extract_target_ids cmd)"
    using assms(5) by (cases "extract_target_ids cmd") auto
  then have "cmd \<in> set (commands_for (co_conflict_resolver ?c') t)"
    using assms(1) by (simp add: record_command_fields coordinator_wf_def commands.register_visible)
  with t have "check_conflict (co_conflict_resolver ?c') cmd \<noteq> NoConflict"
    by (metis empty_iff empty_set no_conflict_iff)
  moreover have "map_option cst_state (get_command_status (hc_command_id cmd) ?c') = Some 1"
    by (simp add: get_command_status_def record_command_def Let_def)
  ultimately show ?thesis
    by (simp add: run record_command_fields)
qed

theorem failed_issue_leaves_command_witness:
  "hm_get (co_active_commands (fst (issue_command failing_storage 0 5 (example_command ''c1'' ''n1'' 5) example_lead)))
     ''c1'' = Some (example_command ''c1'' ''n1'' 5)"
proof -
  have "coordinator_wf example_lead"
    "check_conflict (co_conflict_resolver example_lead) (example_command ''c1'' ''n1'' 5) = NoConflict"
    by (simp_all add: coordinator_wf_def check_conflict_def example_lead_def coordinator_new_def
        conflict_resolver_new_def extract_target_ids_def example_command_def)
  moreover have "should_route (resolve_target (co_router example_lead) (example_command ''c1'' ''n1'' 5))"
    by code_simp
  moreover have "publish_command failing_storage (example_command ''c1'' ''n1'' 5) = Inl (EInternal ''offline'')"
    "extract_target_ids (example_command ''c1'' ''n1'' 5) \<noteq> []" "hc_command_id (example_command ''c1'' ''n1'' 5) = ''c1''"
    by (simp_all add: failing_storage_def extract_target_ids_def example_command_def)
  ultimately show ?thesis
    using failed_issue_leaves_command [of example_lead "example_command ''c1'' ''n1'' 5" failing_storage _ 0 5]
    by (simp add: Let_def case_prod_beta)
qed

text \<open>
  Cohort commands reach nobody: the coordinator builds its router without a cohort, so in every run
  a command of cohort scope is neither executed, acknowledged nor forwarded.
\<close>

theorem cohort_commands_ignored:
  assumes "coordinator_step\<^sup>*\<^sup>* (coordinator_new cell n members) c" "command_scope cmd = ScopeCohort"
  shows "receive_command storage now cmd c = (c, [], Inr ())
         \<and> fst (snd (issue_command storage clock now cmd c)) = []"
proof -
  have res: "resolve_target (co_router c) cmd = NotApplicable"
    using assms(2) reachable_facts(4) [OF assms(1)]
    by (simp add: resolve_target_scope addressed_def router_new_def)
  then show ?thesis
    by (simp add: receive_command_def issue_command_def route_command_def record_command_fields
        should_route_def split: sum.splits)
qed

definition example_cohort_command :: hierarchical_command where
  "example_cohort_command =
     (example_command ''c9'' ''n1'' 5)\<lparr>hc_target := Some \<lparr>ct_scope = 3, ct_target_ids = [''cohort-1'']\<rparr>\<rparr>"

theorem cohort_commands_ignored_witness:
  "receive_command accepting_storage 5 example_cohort_command (coordinator_new (Some ''alpha'') ''n0'' [''n1''])
     = (coordinator_new (Some ''alpha'') ''n0'' [''n1''], [], Inr ())"
proof -
  have "command_scope example_cohort_command = ScopeCohort"
    by (simp add: command_scope_def example_cohort_command_def)
  with cohort_commands_ignored show ?thesis by blast
qed

text \<open>The states of a command as the wire format numbers them.\<close>

datatype command_state =
  StateUnspecified | StatePending | StateDelivered | StateExecuting | StateCompleted | StateFailed
| StateCancelled | StateExpired

fun command_state_of_int :: "int \<Rightarrow> command_state option" where
  "command_state_of_int n =
     (if n = 0 then Some StateUnspecified else if n = 1 then Some StatePending
      else if n = 2 then Some StateDelivered else if n = 3 then Some StateExecuting
      else if n = 4 then Some StateCompleted else if n = 5 then Some StateFailed
      else if n = 6 then Some StateCancelled else if n = 7 then Some StateExpired else None)"

definition states_small :: "command_coordinator \<Rightarrow> bool" where
  "states_small c \<longleftrightarrow> (\<forall>i s. hm_get (co_command_status c) i = Some s \<longrightarrow> cst_state s \<in> {1, 3})"

lemma execute_command_status:
  "hm_get (co_command_status (execute_command now cmd c)) i =
     (if i = hc_command_id cmd
      then Some (case hm_get (co_command_status c) i of
                   Some s \<Rightarrow> s\<lparr>cst_state := 3\<rparr>
                 | None \<Rightarrow> \<lparr>cst_command_id = i, cst_state = 3, cst_acknowledgments = [], cst_last_updated = timestamp_at now\<rparr>)
      else hm_get (co_command_status c) i)"
  by (simp add: execute_command_def Let_def split: option.splits)

lemma send_acknowledgment_status [simp]:
  "co_command_status (fst (send_acknowledgment st now cmd k c)) = co_command_status c"
  by (simp add: send_acknowledgment_def Let_def case_prod_beta split: sum.splits)

lemma receive_command_status:
  "co_command_status (fst (receive_command st now cmd c)) =
     (if resolve_target (co_router c) cmd = TargetSelf then co_command_status (execute_command now cmd c)
      else co_command_status c)"
  by (simp add: receive_command_def Let_def split: target_resolution.splits)

lemma record_command_status:
  "hm_get (co_command_status (record_command clock now cmd c)) i =
     (if i = hc_command_id cmd
      then Some \<lparr>cst_command_id = i, cst_state = 1, cst_acknowledgments = [], cst_last_updated = timestamp_at now\<rparr>
      else hm_get (co_command_status c) i)"
  by (simp add: record_command_def Let_def)

lemma states_small_step: "coordinator_step c c' \<Longrightarrow> states_small c \<Longrightarrow> states_small c'"
  by (erule coordinator_step.cases)
     (auto simp: states_small_def issue_command_state record_command_status receive_command_status
        execute_command_status split: option.splits if_splits)

text \<open>
  An executed command is reported as still executing: receiving a command for this node leaves its
  status at the number the wire format gives to \<open>EXECUTING\<close>, and in no run is any command ever
  reported as completed.
\<close>

theorem no_command_reported_completed:
  assumes "coordinator_step\<^sup>*\<^sup>* (coordinator_new cell n members) c"
  shows "(\<forall>i s. get_command_status i c = Some s \<longrightarrow> command_state_of_int (cst_state s) \<noteq> Some StateCompleted)
         \<and> (resolve_target (co_router c) cmd = TargetSelf \<longrightarrow>
              (\<exists>s. get_command_status (hc_command_id cmd) (fst (receive_command storage now cmd c)) = Some s
                   \<and> command_state_of_int (cst_state s) = Some StateExecuting))"
proof -
  from assms have "states_small c"
    by induction (simp_all add: states_small_step, simp add: states_small_def coordinator_new_def)
  then have "\<forall>i s. get_command_status i c = Some s \<longrightarrow> command_state_of_int (cst_state s) \<noteq> Some StateCompleted"
    by (fastforce simp: states_small_def get_command_status_def)
  then show ?thesis
    by (simp add: get_command_status_def receive_command_status execute_command_status split: option.splits)
qed

theorem no_command_reported_completed_witness:
  "\<exists>s. get_command_status ''c1'' (fst (receive_command accepting_storage 6 (example_command ''c1'' ''n0'' 5)
         (coordinator_new (Some ''alpha'') ''n0'' []))) = Some s
       \<and> command_state_of_int (cst_state s) = Some StateExecuting"
proof -
  have "resolve_target (co_router (coordinator_new (Some ''alpha'') ''n0'' [])) (example_command ''c1'' ''n0'' 5) = TargetSelf"
    "hc_command_id (example_command ''c1'' ''n0'' 5) = ''c1''"
    by code_simp+
  with no_command_reported_completed [of "Some ''alpha''" "''n0''" "[]" _ "example_command ''c1'' ''n0'' 5"]
  show ?thesis by (metis rtranclp.rtrancl_refl)
qed

end
