(* ===== verification/Peat_Float.thy ===== *)
theory Peat_Float
  imports Complex_Main Peat_Prelude
begin

text \<open>
  Floating-point arithmetic as far as the modelled code uses it: a finite value is its exact rational
  value, and each operation rounds the exact result to \<open>p\<close> significant bits, to nearest with ties to
  even (\<open>p = 24\<close> for \<open>f32\<close>, \<open>p = 53\<close> for \<open>f64\<close>). The exponent is not bounded: the modelled code only
  compares results with small constants, and overflow to infinity or underflow does not change
  those comparisons.
\<close>

datatype fval = Fin rat | PosInf | NegInf | FNaN

definition pow2 :: "int \<Rightarrow> rat" where
  "pow2 k = (if 0 \<le> k then 2 ^ nat k else 1 / 2 ^ nat (- k))"

text \<open>The number of binary digits of a natural number, and the exponent of a positive rational.\<close>

fun bits :: "nat \<Rightarrow> nat" where
  "bits n = (if n = 0 then 0 else Suc (bits (n div 2)))"

declare bits.simps [simp del]

definition exponent :: "rat \<Rightarrow> int" where
  "exponent q =
     (let (n, d) = quotient_of \<bar>q\<bar>;
          k = int (bits (nat n)) - int (bits (nat d))
      in if pow2 k \<le> \<bar>q\<bar> then k else k - 1)"

definition round_even :: "rat \<Rightarrow> int" where
  "round_even x =
     (let f = \<lfloor>x\<rfloor>; r = x - of_int f
      in if r < 1 / 2 then f else if r > 1 / 2 then f + 1 else if even f then f else f + 1)"

definition fl :: "nat \<Rightarrow> rat \<Rightarrow> rat" where
  "fl p q =
     (if q = 0 then 0
      else (let e = exponent q - (int p - 1) in of_int (round_even (q / pow2 e)) * pow2 e))"

definition f_mul :: "nat \<Rightarrow> rat \<Rightarrow> fval \<Rightarrow> fval" where
  "f_mul p a b =
     (case b of
        Fin y \<Rightarrow> Fin (fl p (a * y))
      | PosInf \<Rightarrow> (if a = 0 then FNaN else if a > 0 then PosInf else NegInf)
      | NegInf \<Rightarrow> (if a = 0 then FNaN else if a > 0 then NegInf else PosInf)
      | FNaN \<Rightarrow> FNaN)"

definition f_ge :: "fval \<Rightarrow> rat \<Rightarrow> bool" where
  "f_ge a c = (case a of Fin x \<Rightarrow> c \<le> x | PosInf \<Rightarrow> True | NegInf \<Rightarrow> False | FNaN \<Rightarrow> False)"

definition f_partial_cmp :: "fval \<Rightarrow> fval \<Rightarrow> ordering option" where
  "f_partial_cmp a b =
     (case (a, b) of
        (FNaN, _) \<Rightarrow> None
      | (_, FNaN) \<Rightarrow> None
      | (Fin x, Fin y) \<Rightarrow> Some (cmp x y)
      | (Fin _, PosInf) \<Rightarrow> Some OrdLess
      | (Fin _, NegInf) \<Rightarrow> Some OrdGreater
      | (PosInf, PosInf) \<Rightarrow> Some OrdEqual
      | (PosInf, _) \<Rightarrow> Some OrdGreater
      | (NegInf, NegInf) \<Rightarrow> Some OrdEqual
      | (NegInf, _) \<Rightarrow> Some OrdLess)"

text \<open>\<open>Duration::as_secs_f32\<close>: seconds and nanoseconds converted, divided and added in \<open>f32\<close>.\<close>

definition as_secs_f32 :: "nat \<Rightarrow> rat" where
  "as_secs_f32 ns =
     fl 24 (fl 24 (of_nat (ns div 1000000000)) + fl 24 (fl 24 (of_nat (ns mod 1000000000)) / 1000000000))"

lemma pow2_pos [simp]: "0 < pow2 k"
  by (simp add: pow2_def)

lemma round_even_nonneg: "0 \<le> x \<Longrightarrow> 0 \<le> round_even x"
  by (auto simp: round_even_def Let_def)

lemma fl_nonneg: "0 \<le> q \<Longrightarrow> 0 \<le> fl p q"
  by (auto simp: fl_def Let_def intro!: mult_nonneg_nonneg round_even_nonneg less_imp_le [OF pow2_pos]
      divide_nonneg_pos)


subsection \<open>Rounding does not cross a representable value\<close>

lemma pow2_add: "pow2 (a + b) = pow2 a * pow2 b"
  by (simp add: pow2_def nat_add_distrib [symmetric] power_add [symmetric] nat_diff_distrib' field_simps)
     (auto simp: power_add [symmetric] nat_add_distrib [symmetric] field_simps)

lemma pow2_diff: "pow2 (int a - int b) = 2 ^ a / 2 ^ b"
  using pow2_add [of "int a" "- int b"] by (simp add: pow2_def)

lemma bits_bounds: "0 < n \<Longrightarrow> 2 ^ (bits n - 1) \<le> n \<and> n < 2 ^ bits n"
proof (induction n rule: bits.induct)
  case (1 n)
  show ?case
  proof (cases "n div 2 = 0")
    case True
    with "1.prems" have "n = 1" by simp
    then show ?thesis by (simp add: bits.simps)
  next
    case False
    with 1 have ih: "2 ^ (bits (n div 2) - 1) \<le> n div 2" "n div 2 < 2 ^ bits (n div 2)" by simp_all
    have step: "bits n = Suc (bits (n div 2))" using "1.prems" by (subst bits.simps) simp
    moreover have "0 < bits (n div 2)" using False by (subst bits.simps) simp
    then have "(2 :: nat) ^ bits (n div 2) = 2 * 2 ^ (bits (n div 2) - 1)"
      by (metis Suc_diff_1 power_Suc)
    ultimately show ?thesis using ih by (simp, linarith)
  qed
qed

lemma pow2_exponent_le:
  assumes "0 < q"
  shows "pow2 (exponent q) \<le> q"
proof -
  obtain n d where q: "quotient_of q = (n, d)" by (cases "quotient_of q")
  then have d: "0 < d" and qd: "q = of_int n / of_int d"
    by (simp_all add: quotient_of_denom_pos quotient_of_div)
  with assms have n: "0 < n" by (simp add: zero_less_divide_iff)
  let ?bn = "bits (nat n)" and ?bd = "bits (nat d)"
  let ?k = "int ?bn - int ?bd"
  have lo: "(2 :: rat) ^ (?bn - 1) \<le> of_int n" and hi: "of_int d < (2 :: rat) ^ ?bd"
  proof -
    have "of_nat (2 ^ (?bn - 1)) \<le> (of_nat (nat n) :: rat)"
      using bits_bounds [of "nat n"] n unfolding of_nat_le_iff by simp
    then show "(2 :: rat) ^ (?bn - 1) \<le> of_int n" using n by simp
    have "(of_nat (nat d) :: rat) < of_nat (2 ^ ?bd)"
      using bits_bounds [of "nat d"] d unfolding of_nat_less_iff by simp
    then show "of_int d < (2 :: rat) ^ ?bd" using d by simp
  qed
  have "0 < ?bn" using n by (subst bits.simps) simp
  then have "?k - 1 = int (?bn - 1) - int ?bd" by simp
  then have "pow2 (?k - 1) = 2 ^ (?bn - 1) / 2 ^ ?bd"
    by (metis pow2_diff)
  also have "\<dots> \<le> of_int n / of_int d"
    using lo hi d n by (intro frac_le) auto
  finally have "pow2 (?k - 1) \<le> q" by (simp add: qd)
  then show ?thesis
    using assms q by (simp add: exponent_def Let_def)
qed

lemma le_round_even: "of_int n \<le> x \<Longrightarrow> n \<le> round_even x"
proof -
  assume "of_int n \<le> x"
  then have "n \<le> \<lfloor>x\<rfloor>" by (simp add: le_floor_iff)
  then show ?thesis by (auto simp: round_even_def Let_def)
qed

text \<open>A representable \<open>c\<close> below \<open>q\<close> stays below the rounded \<open>q\<close>.\<close>

lemma le_fl:
  assumes "c \<le> q" "0 < c" "c = of_int m * pow2 k" "of_int m < (2 :: rat) ^ p" "0 < p"
  shows "c \<le> fl p q"
proof -
  let ?E = "exponent q" and ?e = "exponent q - (int p - 1)"
  have q: "0 < q" using assms by simp
  have scaled: "c \<le> of_int (round_even (q / pow2 ?e)) * pow2 ?e" if "of_int n * pow2 ?e \<le> q" "c \<le> of_int n * pow2 ?e" for n
  proof -
    have "of_int n \<le> q / pow2 ?e" using that(1) by (simp add: pos_le_divide_eq)
    then have "n \<le> round_even (q / pow2 ?e)" by (rule le_round_even)
    then have "of_int n * pow2 ?e \<le> of_int (round_even (q / pow2 ?e)) * pow2 ?e"
      by (intro mult_right_mono less_imp_le [OF pow2_pos]) simp_all
    with that(2) show ?thesis by (rule order_trans)
  qed
  have "\<exists>n. of_int n * pow2 ?e \<le> q \<and> c \<le> of_int n * pow2 ?e"
  proof (cases "?e \<le> k")
    case True
    then have "pow2 k = pow2 (k - ?e) * pow2 ?e" by (simp add: pow2_add [symmetric])
    also have "pow2 (k - ?e) = of_int (2 ^ nat (k - ?e))" using True by (simp add: pow2_def)
    finally have "c = of_int (m * 2 ^ nat (k - ?e)) * pow2 ?e" by (simp add: assms(3))
    with assms(1) show ?thesis by (intro exI [of _ "m * 2 ^ nat (k - ?e)"]) simp
  next
    case False
    have "pow2 ?E = pow2 (int (p - 1) + ?e)" using assms(5) by (simp add: of_nat_diff)
    also have "\<dots> = 2 ^ (p - 1) * pow2 ?e" by (simp only: pow2_add) (simp add: pow2_def)
    finally have E: "pow2 ?E = of_int (2 ^ (p - 1)) * pow2 ?e" by simp
    have "c \<le> 2 ^ p * pow2 k" using assms(3,4) by (simp add: mult_right_mono less_imp_le)
    also have "2 ^ p * pow2 k = 2 ^ (p - 1) * pow2 (1 + k)"
      using assms(5) pow2_add [of 1 k] by (cases p) (simp_all add: pow2_def [of 1])
    also have "\<dots> \<le> 2 ^ (p - 1) * pow2 ?e"
    proof -
      have "pow2 ?e = pow2 (?e - (1 + k)) * pow2 (1 + k)"
        using pow2_add [of "?e - (1 + k)" "1 + k"] by (simp only: diff_add_cancel)
      moreover have "1 \<le> pow2 (?e - (1 + k))" using False by (simp add: pow2_def)
      ultimately have "pow2 (1 + k) \<le> pow2 ?e" by (simp add: mult_le_cancel_right2)
      then show ?thesis by simp
    qed
    finally show ?thesis
      using pow2_exponent_le [OF q] E by (intro exI [of _ "2 ^ (p - 1)"]) simp
  qed
  then obtain n where "of_int n * pow2 ?e \<le> q" "c \<le> of_int n * pow2 ?e" by blast
  then show ?thesis
    using scaled q by (simp add: fl_def Let_def)
qed

corollary le_fl_nat:
  assumes "of_nat n \<le> q" "0 < n" "n < 2 ^ p" "0 < p"
  shows "of_nat n \<le> fl p q"
proof (rule le_fl [where m = "int n" and k = 0])
  show "of_int (int n) < (2 :: rat) ^ p"
    using assms(3) by (metis of_int_of_nat_eq of_nat_less_iff of_nat_numeral of_nat_power)
qed (use assms in \<open>simp_all add: pow2_def\<close>)

end
