(* ===== verification/Policy_Resolver.thy ===== *)
theory Policy_Resolver
  imports Conflict_Resolver Peat_Float
begin

text \<open>
  The generic conflict engine of \<open>peat-protocol/src/policy\<close>: a resolver for any type with the methods
  of the \<open>Conflictable\<close> trait, its four policies, and the instance for commands in \<open>command/policy_impl.rs\<close>. The trait is a record of the methods the engine calls.
\<close>


subsection \<open>Attributes\<close>

text \<open>An \<open>i64\<close> is an integer of its range; casts between \<open>i64\<close> and \<open>u64\<close> wrap.\<close>

datatype attribute_value =
  AttrString string | AttrInt int | AttrUint u64 | AttrFloat fval | AttrBool bool | AttrTimestamp u64

fun as_int :: "attribute_value \<Rightarrow> int" where
  "as_int (AttrInt v) = v"
| "as_int (AttrUint v) = sint v"
| "as_int _ = 0"

fun as_uint :: "attribute_value \<Rightarrow> u64" where
  "as_uint (AttrUint v) = v"
| "as_uint (AttrTimestamp v) = v"
| "as_uint (AttrInt v) = word_of_int v"
| "as_uint _ = 0"

fun as_float :: "attribute_value \<Rightarrow> fval" where
  "as_float (AttrFloat v) = v"
| "as_float (AttrInt v) = Fin (fl 53 (of_int v))"
| "as_float (AttrUint v) = Fin (fl 53 (of_nat (unat v)))"
| "as_float _ = Fin 0"

fun as_bool :: "attribute_value \<Rightarrow> bool" where
  "as_bool (AttrBool v) = v"
| "as_bool _ = False"

fun as_string :: "attribute_value \<Rightarrow> string" where
  "as_string (AttrString v) = v"
| "as_string _ = []"

text \<open>The match of the two policies' sort closures; \<open>HighestAttributeWinsPolicy\<close> swaps the values.\<close>

definition attribute_cmp :: "bool \<Rightarrow> attribute_value option \<Rightarrow> attribute_value option \<Rightarrow> ordering" where
  "attribute_cmp highest a_val b_val =
     (let dir = (\<lambda>f a b. if highest then f b a else f a b);
          fcmp = (\<lambda>x y. case f_partial_cmp x y of None \<Rightarrow> OrdEqual | Some o' \<Rightarrow> o')
      in case (a_val, b_val) of
           (Some a, Some b) \<Rightarrow>
             (case (a, b) of
                (AttrInt x, AttrInt y) \<Rightarrow> (if highest then cmp y x else cmp x y)
              | (AttrUint x, AttrUint y) \<Rightarrow> (if highest then cmp y x else cmp x y)
              | (AttrFloat x, AttrFloat y) \<Rightarrow> dir fcmp x y
              | _ \<Rightarrow> dir fcmp (as_float a) (as_float b))
         | (Some _, None) \<Rightarrow> OrdLess
         | (None, Some _) \<Rightarrow> OrdGreater
         | (None, None) \<Rightarrow> OrdEqual)"


subsection \<open>The engine\<close>

record 't conflictable =
  it_id :: "'t \<Rightarrow> string"
  it_conflict_keys :: "'t \<Rightarrow> string list"
  it_timestamp :: "'t \<Rightarrow> u64 option"
  it_attributes :: "'t \<Rightarrow> (string, attribute_value) hash_map"

record 't generic_resolver =
  gr_active_items :: "(string, 't list) hash_map"

definition generic_resolver_new :: "'t generic_resolver" where
  "generic_resolver_new = \<lparr>gr_active_items = []\<rparr>"

definition generic_check_conflict :: "'t conflictable \<Rightarrow> 't generic_resolver \<Rightarrow> 't \<Rightarrow> 't conflict_result" where
  "generic_check_conflict T self item =
     (let conflicting =
            fold (\<lambda>key conflicting.
                    case hm_get (gr_active_items self) key of
                      Some existing \<Rightarrow>
                        fold (\<lambda>existing_item conflicting.
                                if \<not> list_ex (\<lambda>c. it_id T c = it_id T existing_item) conflicting
                                then conflicting @ [existing_item] else conflicting)
                          existing conflicting
                    | None \<Rightarrow> conflicting)
              (it_conflict_keys T item) []
      in if conflicting = [] then NoConflict else Conflict conflicting)"

definition generic_register :: "'t conflictable \<Rightarrow> 't \<Rightarrow> 't generic_resolver \<Rightarrow> 't generic_resolver" where
  "generic_register T item self =
     self\<lparr>gr_active_items := fold (\<lambda>key. hm_push key item) (it_conflict_keys T item) (gr_active_items self)\<rparr>"

definition generic_unregister :: "'t conflictable \<Rightarrow> string \<Rightarrow> 't generic_resolver \<Rightarrow> 't generic_resolver" where
  "generic_unregister T item_id self =
     self\<lparr>gr_active_items := hm_purge (\<lambda>item. it_id T item \<noteq> item_id) (gr_active_items self)\<rparr>"

definition get_by_key :: "string \<Rightarrow> 't generic_resolver \<Rightarrow> 't list" where
  "get_by_key key self = (case hm_get (gr_active_items self) key of None \<Rightarrow> [] | Some items \<Rightarrow> items)"

definition last_write_wins_policy :: "'t conflictable \<Rightarrow> 't list \<Rightarrow> peat_error + 't" where
  "last_write_wins_policy T items =
     (if items = [] then Inl (EInvalidInput ''Cannot resolve empty item list'')
      else if length items = 1 then Inr (hd items)
      else Inr (hd (sort_desc_by (\<lambda>i. case it_timestamp T i of None \<Rightarrow> 0 | Some t \<Rightarrow> t) items)))"

definition attribute_wins_policy :: "bool \<Rightarrow> string \<Rightarrow> 't conflictable \<Rightarrow> 't list \<Rightarrow> peat_error + 't" where
  "attribute_wins_policy highest attribute_name T items =
     (if items = [] then Inl (EInvalidInput ''Cannot resolve empty item list'')
      else if length items = 1 then Inr (hd items)
      else Inr (hd (sort_by (\<lambda>a b. attribute_cmp highest (hm_get (it_attributes T a) attribute_name)
                                     (hm_get (it_attributes T b) attribute_name)) items)))"

definition highest_attribute_wins_policy :: "string \<Rightarrow> 't conflictable \<Rightarrow> 't list \<Rightarrow> peat_error + 't" where
  "highest_attribute_wins_policy = attribute_wins_policy True"

definition lowest_attribute_wins_policy :: "string \<Rightarrow> 't conflictable \<Rightarrow> 't list \<Rightarrow> peat_error + 't" where
  "lowest_attribute_wins_policy = attribute_wins_policy False"

definition reject_conflict_policy :: "'t list \<Rightarrow> peat_error + 't" where
  "reject_conflict_policy items =
     (if length items > 1
      then Inl (EConflictDetected
             (''Conflict detected between '' @ display_nat (length items) @ '' items (policy: REJECT)''))
      else (case items of
              item # _ \<Rightarrow> Inr item
            | [] \<Rightarrow> Inl (EInvalidInput ''Empty item list'')))"

definition policy_authority_level :: "string \<Rightarrow> int" where
  "policy_authority_level node_id =
     (if starts_with node_id ''zone-'' then 3
      else if starts_with node_id ''cohort-'' \<or> starts_with node_id ''cell-'' then 2
      else 1)"

definition command_attributes :: "hierarchical_command \<Rightarrow> (string, attribute_value) hash_map" where
  "command_attributes c =
     fold (\<lambda>(k, v). hm_insert k v)
       [(''priority'', AttrInt (hc_priority c)),
        (''originator_id'', AttrString (hc_originator_id c)),
        (''authority_level'', AttrInt (policy_authority_level (hc_originator_id c))),
        (''conflict_policy'', AttrInt (hc_conflict_policy c)),
        (''acknowledgment_policy'', AttrInt (hc_acknowledgment_policy c)),
        (''version'', AttrUint (ucast (hc_version c)))]
       []"

definition command_conflictable :: "hierarchical_command conflictable" where
  "command_conflictable =
     \<lparr>it_id = hc_command_id,
      it_conflict_keys = (\<lambda>c. case hc_target c of None \<Rightarrow> [] | Some t \<Rightarrow> ct_target_ids t),
      it_timestamp = (\<lambda>c. map_option seconds (hc_issued_at c)),
      it_attributes = command_attributes\<rparr>"


subsection \<open>The index\<close>

interpretation generic: item_index "\<lambda>r k. get_by_key k r" "generic_register T" "generic_unregister T"
    "it_conflict_keys T" "\<lambda>i. i" "it_id T" "\<lambda>r. hm_wf (gr_active_items r)"
  for T :: "'t conflictable"
proof -
  have get: "get_by_key k r = hm_list (gr_active_items r) k" for k and r :: "'t generic_resolver"
    by (simp add: get_by_key_def hm_list_def)
  show "item_index (\<lambda>r k. get_by_key k r) (generic_register T) (generic_unregister T)
      (it_conflict_keys T) (\<lambda>i. i) (it_id T) (\<lambda>r. hm_wf (gr_active_items r))"
    by unfold_locales
       (simp_all add: get generic_register_def generic_unregister_def hm_list_push_all hm_list_purge)
qed

lemma fold_dedupe:
  "fold (\<lambda>x acc. if \<not> list_ex (\<lambda>c. f c = f x) acc then acc @ [x] else acc) xs acc = fold (push_new_by f) xs acc"
proof -
  have "(if \<not> list_ex (\<lambda>c. f c = f x) acc then acc @ [x] else acc) = push_new_by f x acc" for x acc
    unfolding push_new_by_def list_ex_iff image_iff by metis
  then show ?thesis by simp
qed

lemma fold_fold: "fold (\<lambda>k acc. fold g (h k) acc) ks acc = fold g (concat (map h ks)) acc"
  by (induction ks arbitrary: acc) simp_all

lemma generic_check_conflict_dedupe:
  "generic_check_conflict T r x =
     (let found = fold (push_new_by (it_id T)) (concat (map (\<lambda>k. get_by_key k r) (it_conflict_keys T x))) []
      in if found = [] then NoConflict else Conflict found)"
proof -
  have "(case hm_get (gr_active_items r) k of
           Some existing \<Rightarrow>
             fold (\<lambda>y acc. if \<not> list_ex (\<lambda>c. it_id T c = it_id T y) acc then acc @ [y] else acc) existing acc
         | None \<Rightarrow> acc) = fold (push_new_by (it_id T)) (get_by_key k r) acc" for k acc
    unfolding fold_dedupe by (simp add: get_by_key_def split: option.splits)
  then show ?thesis
    by (simp add: generic_check_conflict_def fold_fold)
qed

lemma fold_push_new_by_Nil: "fold (push_new_by f) xs [] = [] \<longleftrightarrow> xs = []"
  using keys_fold_push_new_by [of f xs "[]"] set_fold_push_new [of "map f xs" "[]"]
  by (metis Un_empty_left empty_set fold_simps(1) list.map_disc_iff map_is_Nil_conv set_empty)


subsection \<open>The engine on commands\<close>

lemma generic_last_write:
  assumes "xs \<noteq> []"
  shows "last_write_wins_policy command_conflictable xs = resolve xs LastWriteWins"
proof -
  have "(\<lambda>i. case it_timestamp command_conflictable i of None \<Rightarrow> 0 | Some t \<Rightarrow> t) = (\<lambda>c. secs_or_0 (hc_issued_at c))"
    by (simp add: fun_eq_iff command_conflictable_def secs_or_0_def split: option.splits)
  then show ?thesis
    using assms by (simp add: last_write_wins_policy_def resolve_def resolve_last_write_wins_def)
qed

text \<open>A policy on an integer attribute that every item has sorts by that integer.\<close>

lemma highest_attribute_sorts:
  assumes "\<And>x. x \<in> set xs \<Longrightarrow> hm_get (it_attributes T x) a = Some (AttrInt (g x))" "xs \<noteq> []"
  shows "highest_attribute_wins_policy a T xs = Inr (hd (sort_desc_by g xs))"
proof -
  have "sort_by (\<lambda>x y. attribute_cmp True (hm_get (it_attributes T x) a) (hm_get (it_attributes T y) a)) xs =
      sort_desc_by g xs"
    by (rule sort_by_sort_desc) (simp add: assms(1) attribute_cmp_def)
  moreover have "hd xs = hd (sort_desc_by g xs)" if "length xs = 1"
    using that by (cases xs) (simp_all add: sort_desc_by_def)
  ultimately show ?thesis
    using assms(2) by (simp add: highest_attribute_wins_policy_def attribute_wins_policy_def)
qed

lemma generic_highest_authority:
  assumes "xs \<noteq> []"
  shows "highest_attribute_wins_policy ''authority_level'' command_conflictable xs = resolve xs HighestAuthorityWins"
proof -
  let ?level = "\<lambda>c. derive_authority_level (hc_originator_id c)"
  have "highest_attribute_wins_policy ''authority_level'' command_conflictable xs =
      Inr (hd (sort_desc_by (\<lambda>c. policy_authority_level (hc_originator_id c)) xs))"
    by (rule highest_attribute_sorts [OF _ assms]) (simp add: command_conflictable_def command_attributes_def)
  also have "sort_desc_by (\<lambda>c. policy_authority_level (hc_originator_id c)) xs = sort_desc_by ?level xs"
    by (rule sort_desc_by_mono) (simp add: policy_authority_level_def derive_authority_level_def word_le_def)
  moreover have "hd xs = hd (sort_desc_by ?level xs)" if "length xs = 1"
    using that by (cases xs) (simp_all add: sort_desc_by_def)
  ultimately show ?thesis
    using assms by (simp add: resolve_def resolve_highest_authority_wins_def)
qed

lemma generic_highest_priority:
  assumes "xs \<noteq> []" "\<forall>c \<in> set xs. 0 \<le> hc_priority c \<and> hc_priority c \<le> 4"
  shows "highest_attribute_wins_policy ''priority'' command_conflictable xs = resolve xs HighestPriorityWins"
proof -
  have known: "command_priority_to_int (priority_or_routine c) = hc_priority c" if "c \<in> set xs" for c
  proof -
    have "hc_priority c \<in> {0, 1, 2, 3, 4}" using assms(2) that by force
    then show ?thesis by (auto simp: priority_or_routine_def)
  qed
  have "highest_attribute_wins_policy ''priority'' command_conflictable xs = Inr (hd (sort_desc_by hc_priority xs))"
    by (rule highest_attribute_sorts [OF _ assms(1)]) (simp add: command_conflictable_def command_attributes_def)
  also have "sort_desc_by hc_priority xs = sort_desc_by priority_or_routine xs"
    by (rule sort_desc_by_mono) (simp add: known [symmetric] less_eq_command_priority_def)
  moreover have "hd xs = hd (sort_desc_by priority_or_routine xs)" if "length xs = 1"
    using that by (cases xs) (simp_all add: sort_desc_by_def)
  ultimately show ?thesis
    using assms(1) by (simp add: resolve_def resolve_highest_priority_wins_def)
qed

text \<open>The same registrations and unregistrations, applied to the generic engine.\<close>

fun generic_apply :: "resolver_op \<Rightarrow> hierarchical_command generic_resolver \<Rightarrow> hierarchical_command generic_resolver" where
  "generic_apply (Register c) r = generic_register command_conflictable c r"
| "generic_apply (Unregister i) r = generic_unregister command_conflictable i r"

lemma same_index:
  assumes "gr_active_items g = cf_target_commands r"
  shows "gr_active_items (fold generic_apply ops g) = cf_target_commands (fold resolver_apply ops r)"
  using assms
proof (induction ops arbitrary: g r)
  case (Cons op ops)
  have keys: "it_conflict_keys command_conflictable = extract_target_ids"
    by (simp add: fun_eq_iff command_conflictable_def extract_target_ids_def)
  have "gr_active_items (generic_apply op g) = cf_target_commands (resolver_apply op r)"
    using Cons.prems
    by (cases op) (simp_all add: generic_register_def register_command_def generic_unregister_def unregister_command_def keys,
      simp add: command_conflictable_def)
  then show ?case using Cons.IH by simp
qed simp

text \<open>
  C20. The generic engine and the dedicated command resolver agree, up to two differences. After the same
  registrations and unregistrations they report a conflict for the same commands, and the generic engine
  lists what the dedicated one lists without the later commands of an id that occurred before. On every
  non-empty list last-write-wins and the highest authority level pick the same winner, and so does the
  highest priority as long as every priority is a number of the enumeration, 0 to 4.
\<close>

theorem generic_engine_agrees:
  "generic_check_conflict command_conflictable (fold generic_apply ops generic_resolver_new) d =
     (case check_conflict (fold resolver_apply ops conflict_resolver_new) d of
        NoConflict \<Rightarrow> NoConflict
      | Conflict found \<Rightarrow> Conflict (fold (push_new_by hc_command_id) found []))
   \<and> (xs \<noteq> [] \<longrightarrow>
        last_write_wins_policy command_conflictable xs = resolve xs LastWriteWins
        \<and> highest_attribute_wins_policy ''authority_level'' command_conflictable xs = resolve xs HighestAuthorityWins
        \<and> ((\<forall>c \<in> set xs. 0 \<le> hc_priority c \<and> hc_priority c \<le> 4) \<longrightarrow>
             highest_attribute_wins_policy ''priority'' command_conflictable xs = resolve xs HighestPriorityWins))"
proof -
  let ?g = "fold generic_apply ops generic_resolver_new" and ?r = "fold resolver_apply ops conflict_resolver_new"
  have "gr_active_items ?g = cf_target_commands ?r"
    by (rule same_index) (simp add: generic_resolver_new_def conflict_resolver_new_def)
  then have same: "(\<lambda>k. get_by_key k ?g) = commands_for ?r"
    by (simp add: fun_eq_iff get_by_key_def commands_for_def hm_list_def)
  have "it_conflict_keys command_conflictable = extract_target_ids" "it_id command_conflictable = hc_command_id"
    by (simp_all add: fun_eq_iff command_conflictable_def extract_target_ids_def)
  then have "generic_check_conflict command_conflictable ?g d =
      (case check_conflict ?r d of
         NoConflict \<Rightarrow> NoConflict | Conflict found \<Rightarrow> Conflict (fold (push_new_by hc_command_id) found []))"
    by (simp add: generic_check_conflict_dedupe same check_conflict_concat Let_def fold_push_new_by_Nil del: concat_eq_Nil_conv)
  then show ?thesis
    using generic_last_write [of xs] generic_highest_authority [of xs] generic_highest_priority [of xs] by blast
qed

theorem generic_engine_agrees_witness:
  "generic_check_conflict command_conflictable
     (fold generic_apply [Register (example_command ''c1'' ''n1'' 5), Register (example_command ''c1'' ''n1'' 6)] generic_resolver_new)
     (example_command ''c2'' ''n1'' 7) = Conflict [example_command ''c1'' ''n1'' 5]
   \<and> last_write_wins_policy command_conflictable [example_command ''c1'' ''n1'' 5, example_command ''c2'' ''n1'' 6]
     = resolve [example_command ''c1'' ''n1'' 5, example_command ''c2'' ''n1'' 6] LastWriteWins"
proof -
  let ?ops = "[Register (example_command ''c1'' ''n1'' 5), Register (example_command ''c1'' ''n1'' 6)]"
  have "check_conflict (fold resolver_apply ?ops conflict_resolver_new) (example_command ''c2'' ''n1'' 7) =
      Conflict [example_command ''c1'' ''n1'' 5, example_command ''c1'' ''n1'' 6]"
    unfolding check_conflict_concat commands_for_in_force by (simp add: naming_def extract_target_ids_def example_command_def)
  then show ?thesis
    using generic_engine_agrees [of ?ops "example_command ''c2'' ''n1'' 7" "[example_command ''c1'' ''n1'' 5, example_command ''c2'' ''n1'' 6]"]
    by (simp add: push_new_by_def del: fold_simps(2)) (simp add: push_new_by_def example_command_def)
qed

end
