(* ===== verification/Priority_Levels.thy ===== *)
theory Priority_Levels
  imports Peat_Prelude
begin

text \<open>
  Queues with a fixed number of priority levels, each a FIFO: the contract that the event queue and
  the sync queue share. Level 0 is served first. The lemmas of the locale show that popping is
  taking from the front of the levels laid end to end, and that what was pushed comes out in the
  order of a stable sort by level.
\<close>

text \<open>
  The loop \<open>for queue in &mut queues { if let Some(x) = queue.pop_front() { return Some(x) } }\<close>, and
  pushing to the back of one of the queues.
\<close>

fun pop_first :: "'a list list \<Rightarrow> 'a list list \<times> 'a option" where
  "pop_first [] = ([], None)"
| "pop_first ([] # qs) = (let (qs', r) = pop_first qs in ([] # qs', r))"
| "pop_first ((e # es) # qs) = (es # qs, Some e)"

definition push_level :: "nat \<Rightarrow> 'a \<Rightarrow> 'a list list \<Rightarrow> 'a list list" where
  "push_level i x qs = qs[i := qs ! i @ [x]]"

lemma length_pop_first [simp]: "length (fst (pop_first qs)) = length qs"
  by (induction qs rule: pop_first.induct) (simp_all add: case_prod_beta)

lemma pop_first_concat:
  "snd (pop_first qs) = (case concat qs of [] \<Rightarrow> None | e # _ \<Rightarrow> Some e)"
  "concat (fst (pop_first qs)) = tl (concat qs)"
  by (induction qs rule: pop_first.induct) (simp_all add: case_prod_beta)

lemma pop_first_none: "snd (pop_first qs) = None \<Longrightarrow> fst (pop_first qs) = qs"
  by (induction qs rule: pop_first.induct) (simp_all add: case_prod_beta)

lemma pop_first_sub: "set (fst (pop_first qs) ! i) \<subseteq> set (qs ! i)"
proof (induction qs arbitrary: i rule: pop_first.induct)
  case (2 qs)
  then show ?case by (cases i) (simp_all add: case_prod_beta)
next
  case (3 e es qs)
  then show ?case by (cases i) auto
qed simp

lemma length_push_level [simp]: "length (push_level i x qs) = length qs"
  by (simp add: push_level_def)

lemma push_level_nth: "j < length qs \<Longrightarrow> push_level i x qs ! j = (if j = i then qs ! j @ [x] else qs ! j)"
  by (simp add: push_level_def)

text \<open>A stable sort by a small key is the concatenation of the buckets.\<close>

definition buckets :: "('a \<Rightarrow> nat) \<Rightarrow> 'a list \<Rightarrow> nat \<Rightarrow> 'a list" where
  "buckets f xs n = concat (map (\<lambda>k. filter (\<lambda>x. f x = k) xs) [0..<n])"

lemma buckets_Suc: "buckets f xs (Suc m) = buckets f xs m @ filter (\<lambda>x. f x = m) xs"
  by (simp add: buckets_def)

lemma set_buckets: "set (buckets f xs m) = {x \<in> set xs. f x < m}"
  by (auto simp: buckets_def)

lemma mset_buckets: "mset (buckets f xs m) = mset (filter (\<lambda>x. f x < m) xs)"
proof (induction m)
  case (Suc m)
  have "mset (filter (\<lambda>x. f x < Suc m) xs) = mset (filter (\<lambda>x. f x < m) xs) + mset (filter (\<lambda>x. f x = m) xs)"
    by (induction xs) auto
  with Suc show ?case by (simp add: buckets_Suc)
qed (simp add: buckets_def)

lemma filter_buckets: "filter (\<lambda>x. f x = j) (buckets f xs m) = (if j < m then filter (\<lambda>x. f x = j) xs else [])"
proof (induction m)
  case (Suc m)
  have "filter (\<lambda>x. f x = j) (filter (\<lambda>x. f x = m) xs) = (if j = m then filter (\<lambda>x. f x = j) xs else [])"
    by (induction xs) auto
  then have "filter (\<lambda>x. f x = j) (buckets f xs (Suc m)) =
      (if j < m then filter (\<lambda>x. f x = j) xs else []) @ (if j = m then filter (\<lambda>x. f x = j) xs else [])"
    by (simp only: buckets_Suc filter_append Suc)
  then show ?case by (simp only: less_Suc_eq) auto
qed (simp add: buckets_def)

lemma sorted_buckets: "sorted (map f (buckets f xs m))"
proof (induction m)
  case (Suc m)
  have "sorted (map f (filter (\<lambda>x. f x = m) xs))"
    by (induction xs) auto
  moreover have "\<forall>x \<in> set (map f (buckets f xs m)). \<forall>y \<in> set (map f (filter (\<lambda>x. f x = m) xs)). x \<le> y"
    by (auto simp: set_buckets)
  ultimately have "sorted (map f (buckets f xs m) @ map f (filter (\<lambda>x. f x = m) xs))"
    using Suc by (simp only: sorted_append)
  then show ?case by (simp add: buckets_Suc)
qed (simp add: buckets_def)

lemma sort_key_buckets:
  assumes "\<forall>x \<in> set xs. f x < n"
  shows "sort_key f xs = buckets f xs n"
proof (rule properties_for_sort_key)
  have "filter (\<lambda>x. f x < n) xs = xs"
    using assms by (simp add: filter_id_conv)
  then show "mset (buckets f xs n) = mset xs"
    by (simp add: mset_buckets)
  show "filter (\<lambda>x. f k = f x) (buckets f xs n) = filter (\<lambda>x. f k = f x) xs" if "k \<in> set (buckets f xs n)" for k
    using that filter_buckets [of f "f k" xs n] by (simp add: set_buckets eq_commute)
  show "sorted (map f (buckets f xs n))"
    by (rule sorted_buckets)
qed

lemma sort_key_Suc: "sort_key (\<lambda>x. Suc (f x)) xs = sort_key f xs"
proof -
  have "insort_key (\<lambda>x. Suc (f x)) x ys = insort_key f x ys" for x ys
    by (induction ys) simp_all
  then show ?thesis by (induction xs) simp_all
qed

lemma sum_list_filter_split:
  "sum_list (map f (filter P xs)) + sum_list (map f (filter (\<lambda>x. \<not> P x) xs)) = (sum_list (map f xs) :: nat)"
  by (induction xs) auto

text \<open>When every element sits in the list numbered by its key, the lists are the buckets.\<close>

lemma filter_concat_nth:
  assumes "\<forall>j < length qs. \<forall>x \<in> set (qs ! j). f x = j"
  shows "filter (\<lambda>x. f x = k) (concat qs) = (if k < length qs then qs ! k else [])"
  using assms
proof (induction qs rule: rev_induct)
  case (snoc q qs)
  have own: "\<forall>j < length qs. \<forall>x \<in> set (qs ! j). f x = j" "\<forall>x \<in> set q. f x = length qs"
    using snoc.prems by (force simp: nth_append)+
  from own(2) have "filter (\<lambda>x. f x = k) q = (if k = length qs then q else [])"
    by (auto simp: filter_empty_conv filter_id_conv)
  with snoc.IH [OF own(1)] show ?case
    by (simp add: nth_append)
qed simp

lemma concat_sorted_levels:
  assumes "\<forall>j < length qs. \<forall>x \<in> set (qs ! j). f x = j" "\<forall>x \<in> set (concat qs). f x < length qs"
  shows "concat qs = sort_key f (concat qs)"
proof -
  have "buckets f (concat qs) (length qs) = concat (map (\<lambda>k. qs ! k) [0..<length qs])"
    unfolding buckets_def
    by (intro arg_cong [where f = concat] map_cong) (simp_all add: filter_concat_nth [OF assms(1)])
  then show ?thesis
    using sort_key_buckets [OF assms(2)] by (simp add: map_nth)
qed

text \<open>Popping up to \<open>n\<close> times, stopping when nothing is left.\<close>

fun pop_upto :: "('s \<Rightarrow> 's \<times> 'e option) \<Rightarrow> nat \<Rightarrow> 's \<Rightarrow> 's \<times> 'e list" where
  "pop_upto pop 0 s = (s, [])"
| "pop_upto pop (Suc n) s =
     (case pop s of
        (s', None) \<Rightarrow> (s', [])
      | (s', Some e) \<Rightarrow> (let (s'', es) = pop_upto pop n s' in (s'', e # es)))"

locale level_queue =
  fixes levels :: "'s \<Rightarrow> 'e list list"
    and invar :: "'s \<Rightarrow> bool"
    and level :: "'e \<Rightarrow> nat"
    and accepts :: "'e \<Rightarrow> 's \<Rightarrow> bool"
    and push :: "'e \<Rightarrow> 's \<Rightarrow> 's"
    and pop :: "'s \<Rightarrow> 's \<times> 'e option"
    and n_levels :: nat
  assumes level_bound: "level e < n_levels"
    and n_levels: "invar s \<Longrightarrow> length (levels s) = n_levels"
    and sorted_in: "invar s \<Longrightarrow> k < n_levels \<Longrightarrow> e \<in> set (levels s ! k) \<Longrightarrow> level e = k"
    and levels_push: "invar s \<Longrightarrow> accepts e s \<Longrightarrow> levels (push e s) = push_level (level e) e (levels s)"
    and levels_pop: "invar s \<Longrightarrow> levels (fst (pop s)) = fst (pop_first (levels s))"
    and result_pop: "invar s \<Longrightarrow> snd (pop s) = snd (pop_first (levels s))"
    and invar_push: "invar s \<Longrightarrow> invar (push e s)"
    and invar_pop: "invar s \<Longrightarrow> invar (fst (pop s))"
begin

lemma pop_highest:
  assumes "invar s" "snd (pop s) = Some e"
  shows "e \<in> set (concat (levels s))" and "\<forall>x \<in> set (concat (levels s)). level e \<le> level x"
proof -
  from assms have head: "concat (levels s) = e # tl (concat (levels s))"
    by (simp add: result_pop pop_first_concat split: list.splits)
  then show "e \<in> set (concat (levels s))" by (metis list.set_intros(1))
  have own: "\<forall>j < length (levels s). \<forall>x \<in> set (levels s ! j). level x = j"
    using sorted_in [OF assms(1)] n_levels [OF assms(1)] by simp
  have "concat (levels s) = sort_key level (concat (levels s))"
    by (rule concat_sorted_levels [OF own]) (simp add: level_bound n_levels [OF assms(1)])
  then have "sorted (map level (concat (levels s)))"
    by (metis sorted_sort_key)
  then show "\<forall>x \<in> set (concat (levels s)). level e \<le> level x"
    by (subst (asm) head, subst head) auto
qed

lemma pop_upto_conj:
  assumes "invar s"
  shows "snd (pop_upto pop n s) = take n (concat (levels s))
         \<and> concat (levels (fst (pop_upto pop n s))) = drop n (concat (levels s))
         \<and> invar (fst (pop_upto pop n s))"
  using assms
proof (induction n arbitrary: s)
  case (Suc n)
  obtain s' r where p: "pop s = (s', r)" by (cases "pop s")
  have inv: "invar s'" using invar_pop [OF Suc.prems] by (simp add: p)
  have rest: "concat (levels s') = tl (concat (levels s))"
    using levels_pop [OF Suc.prems] by (simp add: p pop_first_concat)
  have res: "r = (case concat (levels s) of [] \<Rightarrow> None | e # _ \<Rightarrow> Some e)"
    using result_pop [OF Suc.prems] by (simp add: p pop_first_concat)
  show ?case
  proof (cases "concat (levels s)")
    case Nil
    with res have "r = None" by (simp del: concat_eq_Nil_conv)
    with p have "pop_upto pop (Suc n) s = (s', [])" by simp
    with rest inv Nil show ?thesis by (simp del: concat_eq_Nil_conv pop_upto.simps)
  next
    case (Cons e es)
    with res have "r = Some e" by simp
    with p have "pop_upto pop (Suc n) s = (fst (pop_upto pop n s'), e # snd (pop_upto pop n s'))"
      by (simp add: case_prod_beta)
    with Suc.IH [OF inv] rest Cons show ?thesis by (simp del: pop_upto.simps)
  qed
qed simp

lemmas pop_upto_take = pop_upto_conj [THEN conjunct1]
  and pop_upto_rest = pop_upto_conj [THEN conjunct2, THEN conjunct1]
  and pop_upto_invar = pop_upto_conj [THEN conjunct2, THEN conjunct2]

text \<open>All of a list pushed, none refused, onto a queue whose levels are empty.\<close>

lemma push_all_conj:
  assumes "invar s" "\<forall>pre e suf. es = pre @ e # suf \<longrightarrow> accepts e (fold push pre s)"
  shows "invar (fold push es s) \<and>
         (\<forall>k < n_levels. levels (fold push es s) ! k = levels s ! k @ filter (\<lambda>e. level e = k) es)"
  using assms
proof (induction es arbitrary: s)
  case (Cons e es)
  have inv: "invar (push e s)" using Cons.prems(1) by (rule invar_push)
  have acc: "\<forall>pre x suf. es = pre @ x # suf \<longrightarrow> accepts x (fold push pre (push e s))"
  proof (intro allI impI)
    fix pre x suf
    assume "es = pre @ x # suf"
    then have "e # es = (e # pre) @ x # suf" by simp
    with Cons.prems(2) have "accepts x (fold push (e # pre) s)" by blast
    then show "accepts x (fold push pre (push e s))" by simp
  qed
  have "accepts e s" using Cons.prems(2) by (metis append_Nil fold_simps(1))
  then have "levels (push e s) ! k = (if k = level e then levels s ! k @ [e] else levels s ! k)"
    if "k < n_levels" for k
    using that Cons.prems(1) by (simp add: levels_push push_level_nth n_levels)
  then show ?case using Cons.IH [OF inv acc] by auto
qed simp

lemmas push_all_invar = push_all_conj [THEN conjunct1]
  and push_all_levels = push_all_conj [THEN conjunct2, THEN spec, THEN mp]

lemma push_all_contents:
  assumes "invar s" "concat (levels s) = []"
    and "\<forall>pre e suf. es = pre @ e # suf \<longrightarrow> accepts e (fold push pre s)"
  shows "concat (levels (fold push es s)) = sort_key level es"
proof -
  let ?s = "fold push es s"
  note inv = push_all_invar [OF assms(1,3)]
  have empty: "levels s ! k = []" if "k < n_levels" for k
    using assms(2) that n_levels [OF assms(1)] by (metis concat_eq_Nil_conv nth_mem)
  have "levels ?s = map (\<lambda>k. levels ?s ! k) [0..<n_levels]"
    using n_levels [OF inv] by (metis map_nth)
  also have "\<dots> = map (\<lambda>k. filter (\<lambda>e. level e = k) es) [0..<n_levels]"
    using push_all_levels [OF assms(1,3)] empty by (intro map_cong) simp_all
  finally have "concat (levels ?s) = buckets level es n_levels"
    unfolding buckets_def by (rule arg_cong)
  then show ?thesis
    using sort_key_buckets [of es level n_levels] level_bound by simp
qed

end

end
