(* ===== verification/Event_Queue.thy ===== *)
theory Event_Queue
  imports Peat_Schema Priority_Levels
begin

text \<open>
  The event transmission queue, \<open>peat-protocol/src/event/priority_queue.rs\<close>: four FIFO levels, strict
  priority for \<open>pop\<close> and weighted shares for \<open>pop_weighted\<close>. It interprets the contract of
  \<open>Priority_Levels\<close>.
\<close>


subsection \<open>Events\<close>

datatype event_priority = PriorityCritical | PriorityHigh | PriorityNormal | PriorityLow

fun event_priority_of_int :: "int \<Rightarrow> event_priority option" where
  "event_priority_of_int n =
     (if n = 0 then Some PriorityCritical else if n = 1 then Some PriorityHigh
      else if n = 2 then Some PriorityNormal else if n = 3 then Some PriorityLow else None)"

record aggregation_policy =
  ap_propagation :: int
  ap_priority :: int
  ap_ttl_seconds :: u32
  ap_aggregation_window_ms :: u32

record peat_event =
  pe_event_id :: string
  pe_timestamp :: "timestamp option"
  pe_source_node_id :: string
  pe_source_formation_id :: string
  pe_source_instance_id :: "string option"
  pe_event_class :: int
  pe_event_type :: string
  pe_routing :: "aggregation_policy option"
  pe_payload_type_url :: string
  pe_payload_value :: "u8 list"


subsection \<open>The queue\<close>

definition PRIORITY_LEVELS :: nat where
  "PRIORITY_LEVELS = 4"

record priority_event_queue =
  pq_queues :: "peat_event list list"

definition event_queue_new :: priority_event_queue where
  "event_queue_new = \<lparr>pq_queues = replicate PRIORITY_LEVELS []\<rparr>"

fun priority_to_level :: "event_priority \<Rightarrow> nat" where
  "priority_to_level PriorityCritical = 0"
| "priority_to_level PriorityHigh = 1"
| "priority_to_level PriorityNormal = 2"
| "priority_to_level PriorityLow = 3"

definition get_priority :: "peat_event \<Rightarrow> event_priority" where
  "get_priority event =
     (case pe_routing event of
        Some r \<Rightarrow> (case event_priority_of_int (ap_priority r) of Some p \<Rightarrow> p | None \<Rightarrow> PriorityNormal)
      | None \<Rightarrow> PriorityNormal)"

definition event_push :: "peat_event \<Rightarrow> priority_event_queue \<Rightarrow> priority_event_queue" where
  "event_push event self =
     (let priority = get_priority event; level = priority_to_level priority
      in self\<lparr>pq_queues := push_level level event (pq_queues self)\<rparr>)"

definition event_pop :: "priority_event_queue \<Rightarrow> priority_event_queue \<times> peat_event option" where
  "event_pop self = (let (queues, r) = pop_first (pq_queues self) in (self\<lparr>pq_queues := queues\<rparr>, r))"

definition pop_critical :: "priority_event_queue \<Rightarrow> priority_event_queue \<times> peat_event list" where
  "pop_critical self = (self\<lparr>pq_queues := (pq_queues self)[0 := []]\<rparr>, pq_queues self ! 0)"

fun pop_from_level ::
    "nat \<Rightarrow> nat \<Rightarrow> priority_event_queue \<Rightarrow> peat_event list \<Rightarrow> priority_event_queue \<times> peat_event list \<times> nat" where
  "pop_from_level level 0 self result = (self, result, 0)"
| "pop_from_level level (Suc n) self result =
     (case pq_queues self ! level of
        event # rest \<Rightarrow>
          (let (s', result', popped) =
                 pop_from_level level n (self\<lparr>pq_queues := (pq_queues self)[level := rest]\<rparr>) (result @ [event])
           in (s', result', popped + 1))
      | [] \<Rightarrow> (self, result, 0))"

definition pop_weighted :: "nat \<Rightarrow> priority_event_queue \<Rightarrow> priority_event_queue \<times> peat_event list" where
  "pop_weighted max_events self =
     (if max_events = 0 then (self, [])
      else (let high_alloc = (max_events * 50) div 100;
                normal_alloc = (max_events * 35) div 100;
                remaining = max_events;
                (s1, result, high_count) = pop_from_level 1 (min high_alloc remaining) self [];
                remaining = remaining - high_count;
                normal_target = normal_alloc + (high_alloc - high_count);
                (s2, result, normal_count) = pop_from_level 2 (min normal_target remaining) s1 result;
                remaining = remaining - normal_count;
                (s3, result, low_count) = pop_from_level 3 remaining s2 result
            in (s3, result)))"

definition event_clear :: "priority_event_queue \<Rightarrow> priority_event_queue" where
  "event_clear self = self\<lparr>pq_queues := map (\<lambda>_. []) (pq_queues self)\<rparr>"


subsection \<open>Strict priority\<close>

definition event_level :: "peat_event \<Rightarrow> nat" where
  "event_level e = priority_to_level (get_priority e)"

definition event_queue_wf :: "priority_event_queue \<Rightarrow> bool" where
  "event_queue_wf q \<longleftrightarrow>
     length (pq_queues q) = PRIORITY_LEVELS \<and>
     (\<forall>k < PRIORITY_LEVELS. \<forall>e \<in> set (pq_queues q ! k). event_level e = k)"

lemma event_level_bound: "event_level e < PRIORITY_LEVELS"
  by (cases "get_priority e") (simp_all add: event_level_def PRIORITY_LEVELS_def)

lemma event_queue_wf_push: "event_queue_wf q \<Longrightarrow> event_queue_wf (event_push e q)"
  using event_level_bound [of e]
  by (auto simp: event_queue_wf_def event_push_def Let_def push_level_nth event_level_def [of e] split: if_splits)

lemma event_queue_wf_pop: "event_queue_wf q \<Longrightarrow> event_queue_wf (fst (event_pop q))"
  using pop_first_sub by (fastforce simp: event_queue_wf_def event_pop_def case_prod_beta)

interpretation events: level_queue pq_queues event_queue_wf event_level "\<lambda>_ _. True" event_push event_pop PRIORITY_LEVELS
  by unfold_locales
     (simp_all add: event_level_bound event_queue_wf_push event_queue_wf_pop,
      simp_all add: event_queue_wf_def event_push_def event_pop_def event_level_def Let_def case_prod_beta)

lemma event_queue_wf_new: "event_queue_wf event_queue_new"
  by (simp add: event_queue_wf_def event_queue_new_def)

text \<open>
  C19. The event queue is a stable sort: after any events are pushed, popping up to \<open>n\<close> of them gives the
  first \<open>n\<close> of the events sorted by priority level, those of one level in the order they came.
\<close>

theorem event_queue_sorts:
  "snd (pop_upto event_pop n (fold event_push es event_queue_new)) = take n (sort_key event_level es)"
proof -
  have "concat (pq_queues event_queue_new) = []"
    by (simp add: event_queue_new_def)
  then have "concat (pq_queues (fold event_push es event_queue_new)) = sort_key event_level es"
    by (intro events.push_all_contents event_queue_wf_new) simp_all
  moreover have "event_queue_wf (fold event_push es event_queue_new)"
    by (rule events.push_all_invar [OF event_queue_wf_new]) simp
  ultimately show ?thesis
    by (simp add: events.pop_upto_take)
qed


subsection \<open>Weighted shares\<close>

lemma pop_from_level_take:
  assumes "level < length (pq_queues q)"
  shows "pop_from_level level n q result =
     (q\<lparr>pq_queues := (pq_queues q)[level := drop n (pq_queues q ! level)]\<rparr>,
      result @ take n (pq_queues q ! level), min n (length (pq_queues q ! level)))"
  using assms
proof (induction n arbitrary: q result)
  case 0
  then show ?case by simp
next
  case (Suc n)
  show ?case
  proof (cases "pq_queues q ! level")
    case Nil
    then have "(pq_queues q)[level := []] = pq_queues q"
      using Suc.prems by (simp add: list_update_same_conv)
    with Nil show ?thesis by simp
  next
    case (Cons e es)
    with Suc show ?thesis by simp
  qed
qed

definition high_share :: "nat \<Rightarrow> nat" where
  "high_share n = (n * 50) div 100"

definition normal_share :: "nat \<Rightarrow> nat" where
  "normal_share n = (n * 35) div 100"

lemma pop_weighted_run:
  assumes "length (pq_queues q) = 4" "n \<noteq> 0"
  defines "h \<equiv> min (min (high_share n) n) (length (pq_queues q ! 1))"
  defines "m \<equiv> min (min (normal_share n + (high_share n - h)) (n - h)) (length (pq_queues q ! 2))"
  shows "snd (pop_weighted n q) =
           take h (pq_queues q ! 1) @ take m (pq_queues q ! 2) @ take (n - h - m) (pq_queues q ! 3)"
    and "pq_queues (fst (pop_weighted n q)) =
           (pq_queues q)[1 := drop h (pq_queues q ! 1), 2 := drop m (pq_queues q ! 2),
                         3 := drop (n - h - m) (pq_queues q ! 3)]"
proof -
  have cut: "take (min k (length xs)) xs = take k xs" "drop (min k (length xs)) xs = drop k xs"
    for k and xs :: "peat_event list"
    by (simp_all add: min_def)
  let ?q1 = "q\<lparr>pq_queues := (pq_queues q)[1 := drop h (pq_queues q ! 1)]\<rparr>"
  let ?q2 = "q\<lparr>pq_queues := (pq_queues q)[1 := drop h (pq_queues q ! 1), 2 := drop m (pq_queues q ! 2)]\<rparr>"
  have s1: "pop_from_level 1 (min (high_share n) n) q [] = (?q1, take h (pq_queues q ! 1), h)"
    unfolding h_def cut using assms(1) by (simp add: pop_from_level_take)
  have s2: "pop_from_level 2 (min (normal_share n + (high_share n - h)) (n - h)) ?q1 r =
      (?q2, r @ take m (pq_queues q ! 2), m)" for r
    unfolding m_def cut using assms(1) by (simp add: pop_from_level_take)
  have s3: "pop_from_level 3 k ?q2 r =
      (q\<lparr>pq_queues := (pq_queues q)[1 := drop h (pq_queues q ! 1), 2 := drop m (pq_queues q ! 2),
                         3 := drop k (pq_queues q ! 3)]\<rparr>,
       r @ take k (pq_queues q ! 3), min k (length (pq_queues q ! 3)))" for k r
    using assms(1) by (simp add: pop_from_level_take)
  have run: "pop_weighted n q =
      (q\<lparr>pq_queues := (pq_queues q)[1 := drop h (pq_queues q ! 1), 2 := drop m (pq_queues q ! 2),
                         3 := drop (n - h - m) (pq_queues q ! 3)]\<rparr>,
       (take h (pq_queues q ! 1) @ take m (pq_queues q ! 2)) @ take (n - h - m) (pq_queues q ! 3))"
    using assms(2)
    by (simp only: pop_weighted_def high_share_def [symmetric] normal_share_def [symmetric] Let_def
        s1 s2 s3 prod.case if_False)
  show "snd (pop_weighted n q) =
          take h (pq_queues q ! 1) @ take m (pq_queues q ! 2) @ take (n - h - m) (pq_queues q ! 3)"
    unfolding run by simp
  show "pq_queues (fst (pop_weighted n q)) =
          (pq_queues q)[1 := drop h (pq_queues q ! 1), 2 := drop m (pq_queues q ! 2),
                         3 := drop (n - h - m) (pq_queues q ! 3)]"
    unfolding run by simp
qed

text \<open>
  \<open>pop_weighted\<close> takes half of the slots from the high level, 35 percent plus what high left unused
  from the normal level, and the rest from the low level, each in order; it never takes a critical
  event and never returns more than was asked for. Slots that normal and low leave unused are not
  given back to high.
\<close>

theorem pop_weighted_shares:
  assumes "event_queue_wf q"
  shows "let high = take (high_share n) (pq_queues q ! 1);
             normal = take (normal_share n + (high_share n - length high)) (pq_queues q ! 2);
             low = take (n - length high - length normal) (pq_queues q ! 3)
         in snd (pop_weighted n q) = high @ normal @ low \<and> length (high @ normal @ low) \<le> n
            \<and> pq_queues (fst (pop_weighted n q)) ! 0 = pq_queues q ! 0"
proof (cases "n = 0")
  case True
  then show ?thesis by (simp add: pop_weighted_def high_share_def normal_share_def)
next
  case False
  let ?H = "pq_queues q ! 1" and ?N = "pq_queues q ! 2" and ?L = "pq_queues q ! 3"
  define h where "h = length (take (high_share n) ?H)"
  define m where "m = length (take (normal_share n + (high_share n - h)) ?N)"
  have len: "length (pq_queues q) = 4"
    using assms by (simp add: event_queue_wf_def PRIORITY_LEVELS_def)
  have shares: "high_share n + normal_share n \<le> n"
    unfolding high_share_def normal_share_def by linarith
  have h: "h = min (min (high_share n) n) (length ?H)" and "h \<le> high_share n"
    using shares by (simp_all add: h_def)
  then have m: "m = min (min (normal_share n + (high_share n - h)) (n - h)) (length ?N)"
    using shares by (simp add: m_def)
  note run = pop_weighted_run [OF len False, folded h, folded m]
  have takes: "take (high_share n) ?H = take h ?H" "take (normal_share n + (high_share n - h)) ?N = take m ?N"
    by (simp_all add: h_def m_def min_def)
  have "h + m \<le> n"
    using \<open>h \<le> high_share n\<close> shares by (simp add: m_def)
  then have "length (take h ?H @ take m ?N @ take (n - h - m) ?L) \<le> n"
    by simp
  moreover have "pq_queues (fst (pop_weighted n q)) ! 0 = pq_queues q ! 0"
    unfolding run(2) by simp
  moreover have lens: "length (take h ?H) = h" "length (take m ?N) = m"
    by (simp_all add: h_def m_def)
  ultimately show ?thesis
    by (simp only: Let_def takes lens run(1) simp_thms)
qed

definition example_event :: "string \<Rightarrow> int \<Rightarrow> peat_event" where
  "example_event i p =
     \<lparr>pe_event_id = i, pe_timestamp = None, pe_source_node_id = ''n1'', pe_source_formation_id = ''alpha'',
      pe_source_instance_id = None, pe_event_class = 1, pe_event_type = ''t'',
      pe_routing = Some \<lparr>ap_propagation = 0, ap_priority = p, ap_ttl_seconds = 60, ap_aggregation_window_ms = 0\<rparr>,
      pe_payload_type_url = '''', pe_payload_value = []\<rparr>"

theorem pop_weighted_shares_witness:
  "let q = fold event_push [example_event ''h1'' 1, example_event ''h2'' 1, example_event ''l1'' 3] event_queue_new;
       high = take (high_share 2) (pq_queues q ! 1);
       normal = take (normal_share 2 + (high_share 2 - length high)) (pq_queues q ! 2);
       low = take (2 - length high - length normal) (pq_queues q ! 3)
   in snd (pop_weighted 2 q) = high @ normal @ low"
proof -
  have "event_queue_wf (fold event_push [example_event ''h1'' 1, example_event ''h2'' 1, example_event ''l1'' 3] event_queue_new)"
    by (rule events.push_all_invar [OF event_queue_wf_new]) simp
  from pop_weighted_shares [OF this, of 2] show ?thesis
    by (simp only: Let_def)
qed

text \<open>
  A budget of one starves everything above low: with a single slot, \<open>pop_weighted\<close> serves only the low
  level, however many high and normal events wait, and returns nothing when the low level is empty.
\<close>

theorem single_slot_starves_high:
  assumes "event_queue_wf q"
  shows "snd (pop_weighted 1 q) = take 1 (pq_queues q ! 3)
         \<and> pq_queues (fst (pop_weighted 1 q)) ! 1 = pq_queues q ! 1
         \<and> pq_queues (fst (pop_weighted 1 q)) ! 2 = pq_queues q ! 2"
proof -
  have "length (pq_queues q) = 4"
    using assms by (simp add: event_queue_wf_def PRIORITY_LEVELS_def)
  note run = pop_weighted_run [OF this, of 1]
  have "high_share 1 = 0" "normal_share 1 = 0"
    by (simp_all add: high_share_def normal_share_def)
  with run show ?thesis by simp
qed

theorem single_slot_starves_high_witness:
  "snd (pop_weighted 1 (event_push (example_event ''h1'' 1) event_queue_new)) = []"
proof -
  have "event_queue_wf (event_push (example_event ''h1'' 1) event_queue_new)"
    by (intro event_queue_wf_push event_queue_wf_new)
  moreover have "pq_queues (event_push (example_event ''h1'' 1) event_queue_new) ! 3 = []"
    by code_simp
  ultimately show ?thesis
    using single_slot_starves_high by simp
qed

end
