(* ===== verification/Qos_Classification.thy ===== *)
theory Qos_Classification
  imports Cell_Messaging
begin

text \<open>
  Quality-of-service classes and the classification of data,
  \<open>peat-protocol/src/qos/classification.rs\<close> and the conversions of \<open>qos/mod.rs\<close>. The class and policy
  types come from the \<open>peat-mesh\<close> crate: the class has the five variants that the source matches on,
  and the policy constructors of that crate are a parameter, a record of five policies.
\<close>

datatype qos_class = QosCritical | QosHigh | QosNormal | QosLow | QosBulk

datatype data_type =
    ContactReport | EmergencyAlert | AbortCommand | RoeUpdate
  | TargetImage | AudioIntercept | MissionRetasking | FormationChangeData
  | HealthStatus | CapabilityChange | FormationUpdate | TaskAssignment
  | PositionUpdate | HeartbeatData | SensorTelemetry | EnvironmentData
  | ModelUpdate | DebugLog | HistoricalTrack | TrainingData
  | CustomData string qos_class

fun default_class :: "data_type \<Rightarrow> qos_class" where
  "default_class ContactReport = QosCritical"
| "default_class EmergencyAlert = QosCritical"
| "default_class AbortCommand = QosCritical"
| "default_class RoeUpdate = QosCritical"
| "default_class TargetImage = QosHigh"
| "default_class AudioIntercept = QosHigh"
| "default_class MissionRetasking = QosHigh"
| "default_class FormationChangeData = QosHigh"
| "default_class HealthStatus = QosNormal"
| "default_class CapabilityChange = QosNormal"
| "default_class FormationUpdate = QosNormal"
| "default_class TaskAssignment = QosNormal"
| "default_class PositionUpdate = QosLow"
| "default_class HeartbeatData = QosLow"
| "default_class SensorTelemetry = QosLow"
| "default_class EnvironmentData = QosLow"
| "default_class ModelUpdate = QosBulk"
| "default_class DebugLog = QosBulk"
| "default_class HistoricalTrack = QosBulk"
| "default_class TrainingData = QosBulk"
| "default_class (CustomData _ c) = c"

record qos_policy =
  qp_base_class :: qos_class
  qp_max_latency_ms :: "nat option"
  qp_max_size_bytes :: "nat option"
  qp_ttl_seconds :: "nat option"
  qp_retention_priority :: nat
  qp_preemptable :: bool

record class_policies =
  policy_critical :: qos_policy
  policy_high :: qos_policy
  policy_default :: qos_policy
  policy_low :: qos_policy
  policy_bulk :: qos_policy

definition policy ::
    "qos_class \<Rightarrow> nat option \<Rightarrow> nat \<Rightarrow> nat option \<Rightarrow> nat \<Rightarrow> bool \<Rightarrow> qos_policy" where
  "policy c latency max_size ttl retention preempt =
     \<lparr>qp_base_class = c, qp_max_latency_ms = latency, qp_max_size_bytes = Some max_size, qp_ttl_seconds = ttl,
      qp_retention_priority = retention, qp_preemptable = preempt\<rparr>"

fun default_policy :: "class_policies \<Rightarrow> data_type \<Rightarrow> qos_policy" where
  "default_policy P ContactReport = policy QosCritical (Some 500) (32 * 1024) None 5 False"
| "default_policy P EmergencyAlert = policy QosCritical (Some 500) (8 * 1024) None 5 False"
| "default_policy P AbortCommand = policy QosCritical (Some 500) 1024 None 5 False"
| "default_policy P RoeUpdate = policy QosCritical (Some 500) (64 * 1024) None 5 False"
| "default_policy P TargetImage = policy QosHigh (Some 5000) (10 * 1024 * 1024) (Some 3600) 4 True"
| "default_policy P AudioIntercept = policy QosHigh (Some 5000) (5 * 1024 * 1024) (Some 3600) 4 True"
| "default_policy P MissionRetasking = policy QosHigh (Some 2000) (64 * 1024) (Some 7200) 4 False"
| "default_policy P FormationChangeData = policy QosHigh (Some 5000) (16 * 1024) (Some 3600) 4 True"
| "default_policy P HealthStatus = policy QosNormal (Some 60000) (8 * 1024) (Some 86400) 3 True"
| "default_policy P CapabilityChange = policy QosNormal (Some 60000) (16 * 1024) (Some 86400) 3 True"
| "default_policy P FormationUpdate = policy QosNormal (Some 60000) (32 * 1024) (Some 43200) 3 True"
| "default_policy P TaskAssignment = policy QosNormal (Some 30000) (16 * 1024) (Some 86400) 3 True"
| "default_policy P PositionUpdate = policy QosLow (Some 300000) 1024 (Some 86400) 2 True"
| "default_policy P HeartbeatData = policy QosLow (Some 300000) 256 (Some 3600) 1 True"
| "default_policy P SensorTelemetry = policy QosLow (Some 300000) (64 * 1024) (Some 43200) 2 True"
| "default_policy P EnvironmentData = policy QosLow (Some 600000) (128 * 1024) (Some 86400) 2 True"
| "default_policy P ModelUpdate = policy QosBulk None (500 * 1024 * 1024) (Some 604800) 2 True"
| "default_policy P DebugLog = policy QosBulk None (10 * 1024 * 1024) (Some 259200) 1 True"
| "default_policy P HistoricalTrack = policy QosBulk None (100 * 1024 * 1024) (Some 604800) 2 True"
| "default_policy P TrainingData = policy QosBulk None (1024 * 1024 * 1024) (Some 2592000) 2 True"
| "default_policy P (CustomData _ c) =
     (case c of
        QosCritical \<Rightarrow> policy_critical P
      | QosHigh \<Rightarrow> policy_high P
      | QosNormal \<Rightarrow> policy_default P
      | QosLow \<Rightarrow> policy_low P
      | QosBulk \<Rightarrow> policy_bulk P)"

definition all_predefined :: "data_type list" where
  "all_predefined =
     [ContactReport, EmergencyAlert, AbortCommand, RoeUpdate, TargetImage, AudioIntercept, MissionRetasking,
      FormationChangeData, HealthStatus, CapabilityChange, FormationUpdate, TaskAssignment, PositionUpdate,
      HeartbeatData, SensorTelemetry, EnvironmentData, ModelUpdate, DebugLog, HistoricalTrack, TrainingData]"

fun display_data_type :: "data_type \<Rightarrow> string" where
  "display_data_type ContactReport = ''ContactReport''"
| "display_data_type EmergencyAlert = ''EmergencyAlert''"
| "display_data_type AbortCommand = ''AbortCommand''"
| "display_data_type RoeUpdate = ''RoeUpdate''"
| "display_data_type TargetImage = ''TargetImage''"
| "display_data_type AudioIntercept = ''AudioIntercept''"
| "display_data_type MissionRetasking = ''MissionRetasking''"
| "display_data_type FormationChangeData = ''FormationChange''"
| "display_data_type HealthStatus = ''HealthStatus''"
| "display_data_type CapabilityChange = ''CapabilityChange''"
| "display_data_type FormationUpdate = ''FormationUpdate''"
| "display_data_type TaskAssignment = ''TaskAssignment''"
| "display_data_type PositionUpdate = ''PositionUpdate''"
| "display_data_type HeartbeatData = ''Heartbeat''"
| "display_data_type SensorTelemetry = ''SensorTelemetry''"
| "display_data_type EnvironmentData = ''EnvironmentData''"
| "display_data_type ModelUpdate = ''ModelUpdate''"
| "display_data_type DebugLog = ''DebugLog''"
| "display_data_type HistoricalTrack = ''HistoricalTrack''"
| "display_data_type TrainingData = ''TrainingData''"
| "display_data_type (CustomData name _) = ''Custom('' @ name @ '')''"

text \<open>Conversions to and from the priorities of the cell message bus.\<close>

fun message_priority_from_qos :: "qos_class \<Rightarrow> message_priority" where
  "message_priority_from_qos QosCritical = PrioCritical"
| "message_priority_from_qos QosHigh = PrioHigh"
| "message_priority_from_qos QosNormal = PrioNormal"
| "message_priority_from_qos QosLow = PrioLow"
| "message_priority_from_qos QosBulk = PrioLow"

fun qos_from_message_priority :: "message_priority \<Rightarrow> qos_class" where
  "qos_from_message_priority PrioCritical = QosCritical"
| "qos_from_message_priority PrioHigh = QosHigh"
| "qos_from_message_priority PrioNormal = QosNormal"
| "qos_from_message_priority PrioLow = QosLow"

lemma priority_qos_roundtrip: "message_priority_from_qos (qos_from_message_priority p) = p"
  by (cases p) simp_all

text \<open>
  The two tables agree when the crate's own policies carry the class they are named after, as their
  names promise.
\<close>

definition policies_named :: "class_policies \<Rightarrow> bool" where
  "policies_named P \<longleftrightarrow>
     qp_base_class (policy_critical P) = QosCritical \<and> qp_base_class (policy_high P) = QosHigh \<and>
     qp_base_class (policy_default P) = QosNormal \<and> qp_base_class (policy_low P) = QosLow \<and>
     qp_base_class (policy_bulk P) = QosBulk"

lemma default_policy_class: "policies_named P \<Longrightarrow> qp_base_class (default_policy P d) = default_class d"
  by (cases "(P, d)" rule: default_policy.cases)
     (simp_all add: policies_named_def policy_def split: qos_class.splits)

end
