(* ===== verification/Sync_Queue.thy ===== *)
theory Sync_Queue
  imports Qos_Classification Priority_Levels Peat_Float Peat_Error
begin

text \<open>
  The sync queue, \<open>peat-protocol/src/qos/sync_queue.rs\<close>: five FIFO levels with a byte budget and
  priority aging. The number \<open>as_u8\<close> of a QoS class is a function of the \<open>peat-mesh\<close> crate and an
  argument here; the theorems assume its documented numbering, P1 to P5. Byte counters are natural
  numbers: the accounting theorem shows that they are exact, so that no subtraction goes below zero.
\<close>


subsection \<open>State and operations\<close>

record pending_sync =
  ps_data :: "u8 list"
  ps_qos_class :: qos_class
  ps_data_type :: data_type
  ps_queued_at :: instant
  ps_priority_multiplier :: fval

definition pending_sync_new :: "instant \<Rightarrow> u8 list \<Rightarrow> qos_class \<Rightarrow> data_type \<Rightarrow> pending_sync" where
  "pending_sync_new now data c data_type =
     \<lparr>ps_data = data, ps_qos_class = c, ps_data_type = data_type, ps_queued_at = now,
      ps_priority_multiplier = Fin 1\<rparr>"

definition with_multiplier :: "instant \<Rightarrow> u8 list \<Rightarrow> qos_class \<Rightarrow> data_type \<Rightarrow> fval \<Rightarrow> pending_sync" where
  "with_multiplier now data c data_type multiplier =
     \<lparr>ps_data = data, ps_qos_class = c, ps_data_type = data_type, ps_queued_at = now,
      ps_priority_multiplier = multiplier\<rparr>"

definition queue_duration :: "instant \<Rightarrow> pending_sync \<Rightarrow> nat" where
  "queue_duration now self = elapsed now (ps_queued_at self)"

definition effective_class :: "instant \<Rightarrow> pending_sync \<Rightarrow> qos_class" where
  "effective_class now self =
     (let wait_hours = fl 24 (as_secs_f32 (queue_duration now self) / 3600);
          adjusted_hours = f_mul 24 wait_hours (ps_priority_multiplier self)
      in if ps_qos_class self = QosBulk \<and> f_ge adjusted_hours 1 then QosLow
         else if ps_qos_class self = QosLow \<and> f_ge adjusted_hours 2 then QosNormal
         else ps_qos_class self)"

definition should_promote :: "instant \<Rightarrow> pending_sync \<Rightarrow> bool" where
  "should_promote now self \<longleftrightarrow> effective_class now self \<noteq> ps_qos_class self"

definition sync_size :: "pending_sync \<Rightarrow> nat" where
  "sync_size self = length (ps_data self)"

record priority_sync_queue =
  sq_queues :: "pending_sync list list"
  sq_total_bytes :: nat
  sq_max_bytes :: nat
  sq_aging_promotions :: nat

definition sync_queue_new :: "nat \<Rightarrow> priority_sync_queue" where
  "sync_queue_new max_bytes =
     \<lparr>sq_queues = [[], [], [], [], []], sq_total_bytes = 0, sq_max_bytes = max_bytes, sq_aging_promotions = 0\<rparr>"

definition queue_index :: "(qos_class \<Rightarrow> u8) \<Rightarrow> qos_class \<Rightarrow> nat" where
  "queue_index as_u8 c = unat (as_u8 c - 1)"

definition enqueue ::
    "(qos_class \<Rightarrow> u8) \<Rightarrow> pending_sync \<Rightarrow> priority_sync_queue \<Rightarrow> priority_sync_queue \<times> (peat_error + unit)" where
  "enqueue as_u8 sync self =
     (let size = sync_size sync; current_bytes = sq_total_bytes self
      in if current_bytes + size > sq_max_bytes self
         then (self, Inl (EInternal (''Queue full: '' @ display_nat current_bytes @ '' + '' @ display_nat size @
                            '' > '' @ display_nat (sq_max_bytes self) @ '' bytes'')))
         else (self\<lparr>sq_queues := push_level (queue_index as_u8 (ps_qos_class sync)) sync (sq_queues self),
                    sq_total_bytes := sq_total_bytes self + size\<rparr>, Inr ()))"

definition dequeue_highest :: "priority_sync_queue \<Rightarrow> priority_sync_queue \<times> pending_sync option" where
  "dequeue_highest self =
     (case pop_first (sq_queues self) of
        (queues, Some sync) \<Rightarrow>
          (self\<lparr>sq_queues := queues, sq_total_bytes := sq_total_bytes self - sync_size sync\<rparr>, Some sync)
      | (queues, None) \<Rightarrow> (self\<lparr>sq_queues := queues\<rparr>, None))"

fun first_front :: "'a list list \<Rightarrow> 'a option" where
  "first_front [] = None"
| "first_front ([] # qs) = first_front qs"
| "first_front ((e # _) # _) = Some e"

definition peek_highest :: "priority_sync_queue \<Rightarrow> pending_sync option" where
  "peek_highest self = first_front (sq_queues self)"

text \<open>One of the two halves of \<open>apply_aging\<close>: promote what is due from one class to the next.\<close>

definition promote_class ::
    "(qos_class \<Rightarrow> u8) \<Rightarrow> instant \<Rightarrow> qos_class \<Rightarrow> qos_class \<Rightarrow> pending_sync list list \<Rightarrow> pending_sync list list \<times> nat" where
  "promote_class as_u8 now from_class to_class queues =
     (let from_idx = queue_index as_u8 from_class; to_idx = queue_index as_u8 to_class;
          due = (\<lambda>sync. should_promote now sync \<and> effective_class now sync = to_class);
          to_promote = filter due (queues ! from_idx);
          queues = queues[from_idx := filter (\<lambda>sync. \<not> due sync) (queues ! from_idx)];
          queues = fold (\<lambda>sync. push_level to_idx (sync\<lparr>ps_qos_class := to_class\<rparr>)) to_promote queues
      in (queues, length to_promote))"

definition apply_aging ::
    "(qos_class \<Rightarrow> u8) \<Rightarrow> instant \<Rightarrow> priority_sync_queue \<Rightarrow> priority_sync_queue \<times> nat" where
  "apply_aging as_u8 now self =
     (let (queues, bulk_promoted) = promote_class as_u8 now QosBulk QosLow (sq_queues self);
          (queues, low_promoted) = promote_class as_u8 now QosLow QosNormal queues;
          promoted = bulk_promoted + low_promoted;
          s1 = self\<lparr>sq_queues := queues\<rparr>
      in (if promoted > 0 then s1\<lparr>sq_aging_promotions := sq_aging_promotions s1 + promoted\<rparr> else s1, promoted))"

definition queue_depth :: "(qos_class \<Rightarrow> u8) \<Rightarrow> qos_class \<Rightarrow> priority_sync_queue \<Rightarrow> nat" where
  "queue_depth as_u8 c self = length (sq_queues self ! queue_index as_u8 c)"

definition total_items :: "priority_sync_queue \<Rightarrow> nat" where
  "total_items self = sum_list (map length (sq_queues self))"

definition available_bytes :: "priority_sync_queue \<Rightarrow> nat" where
  "available_bytes self = sq_max_bytes self - sq_total_bytes self"

definition sync_clear :: "priority_sync_queue \<Rightarrow> priority_sync_queue" where
  "sync_clear self = self\<lparr>sq_queues := map (\<lambda>_. []) (sq_queues self), sq_total_bytes := 0\<rparr>"

definition drain_class ::
    "(qos_class \<Rightarrow> u8) \<Rightarrow> qos_class \<Rightarrow> priority_sync_queue \<Rightarrow> priority_sync_queue \<times> pending_sync list" where
  "drain_class as_u8 c self =
     (let idx = queue_index as_u8 c; items = sq_queues self ! idx; bytes = sum_list (map sync_size items)
      in (self\<lparr>sq_queues := (sq_queues self)[idx := []], sq_total_bytes := sq_total_bytes self - bytes\<rparr>, items))"

definition remove_stale :: "instant \<Rightarrow> nat \<Rightarrow> priority_sync_queue \<Rightarrow> priority_sync_queue \<times> nat" where
  "remove_stale now max_age self =
     (let keep = (\<lambda>sync. queue_duration now sync < max_age);
          queues = map (filter keep) (sq_queues self);
          removed = sum_list (map (\<lambda>q. length q - length (filter keep q)) (sq_queues self));
          bytes_removed = sum_list (map (\<lambda>q. sum_list (map sync_size (filter (\<lambda>x. \<not> keep x) q))) (sq_queues self));
          s1 = self\<lparr>sq_queues := queues\<rparr>
      in (if bytes_removed > 0 then s1\<lparr>sq_total_bytes := sq_total_bytes s1 - bytes_removed\<rparr> else s1, removed))"

definition dequeue_batch :: "nat \<Rightarrow> priority_sync_queue \<Rightarrow> priority_sync_queue \<times> pending_sync list" where
  "dequeue_batch max_items self = pop_upto dequeue_highest max_items self"

lemma pop_first_total:
  "snd (pop_first qs) = Some e \<Longrightarrow> sum_list (map length (fst (pop_first qs))) < sum_list (map length qs)"
  by (induction qs rule: pop_first.induct) (auto simp: case_prod_beta)

lemma dequeue_total_items: "dequeue_highest q = (q', Some e) \<Longrightarrow> total_items q' < total_items q"
  using pop_first_total [of "sq_queues q"]
  by (auto simp: dequeue_highest_def total_items_def split: prod.splits option.splits)

function dequeue_bytes_loop ::
    "nat \<Rightarrow> priority_sync_queue \<Rightarrow> pending_sync list \<Rightarrow> nat \<Rightarrow> priority_sync_queue \<times> pending_sync list" where
  "dequeue_bytes_loop max_bytes self batch total_bytes =
     (if \<not> total_bytes < max_bytes then (self, batch)
      else if (case peek_highest self of
                 Some peek \<Rightarrow> total_bytes + sync_size peek > max_bytes \<and> batch \<noteq> []
               | None \<Rightarrow> False)
      then (self, batch)
      else (case dequeue_highest self of
              (self', Some sync) \<Rightarrow>
                dequeue_bytes_loop max_bytes self' (batch @ [sync]) (total_bytes + sync_size sync)
            | (self', None) \<Rightarrow> (self', batch)))"
  by pat_completeness auto
termination
  by (relation "measure (\<lambda>(_, self, _, _). total_items self)") (auto simp: dequeue_total_items [OF sym])

declare dequeue_bytes_loop.simps [simp del]

definition dequeue_bytes :: "nat \<Rightarrow> priority_sync_queue \<Rightarrow> priority_sync_queue \<times> pending_sync list" where
  "dequeue_bytes max_bytes self = dequeue_bytes_loop max_bytes self [] 0"

record queue_stats =
  qs_total_items :: nat
  qs_total_bytes :: nat
  qs_max_bytes :: nat
  qs_depth_critical :: nat
  qs_depth_high :: nat
  qs_depth_normal :: nat
  qs_depth_low :: nat
  qs_depth_bulk :: nat
  qs_aging_promotions :: nat

definition sync_stats :: "(qos_class \<Rightarrow> u8) \<Rightarrow> priority_sync_queue \<Rightarrow> queue_stats" where
  "sync_stats as_u8 self =
     \<lparr>qs_total_items = total_items self, qs_total_bytes = sq_total_bytes self, qs_max_bytes = sq_max_bytes self,
      qs_depth_critical = queue_depth as_u8 QosCritical self, qs_depth_high = queue_depth as_u8 QosHigh self,
      qs_depth_normal = queue_depth as_u8 QosNormal self, qs_depth_low = queue_depth as_u8 QosLow self,
      qs_depth_bulk = queue_depth as_u8 QosBulk self, qs_aging_promotions = sq_aging_promotions self\<rparr>"

definition utilization :: "queue_stats \<Rightarrow> rat" where
  "utilization self =
     (if qs_max_bytes self = 0 then 0
      else fl 53 (fl 53 (of_nat (qs_total_bytes self)) / fl 53 (of_nat (qs_max_bytes self))))"


subsection \<open>Accounting\<close>

text \<open>The documented numbering of the classes: P1 critical to P5 bulk.\<close>

fun qos_u8 :: "qos_class \<Rightarrow> u8" where
  "qos_u8 QosCritical = 1"
| "qos_u8 QosHigh = 2"
| "qos_u8 QosNormal = 3"
| "qos_u8 QosLow = 4"
| "qos_u8 QosBulk = 5"

definition qos_numbering :: "(qos_class \<Rightarrow> u8) \<Rightarrow> bool" where
  "qos_numbering as_u8 \<longleftrightarrow>
     as_u8 QosCritical = 1 \<and> as_u8 QosHigh = 2 \<and> as_u8 QosNormal = 3 \<and> as_u8 QosLow = 4 \<and> as_u8 QosBulk = 5"

lemma qos_numbering_unique: "qos_numbering as_u8 \<Longrightarrow> as_u8 = qos_u8"
  unfolding qos_numbering_def fun_eq_iff by (metis qos_class.exhaust qos_u8.simps)

definition sync_level :: "pending_sync \<Rightarrow> nat" where
  "sync_level x = queue_index qos_u8 (ps_qos_class x)"

lemma queue_index_values [simp]:
  "queue_index qos_u8 QosCritical = 0" "queue_index qos_u8 QosHigh = 1" "queue_index qos_u8 QosNormal = 2"
  "queue_index qos_u8 QosLow = 3" "queue_index qos_u8 QosBulk = 4"
  by (simp_all add: queue_index_def)

lemma queue_index_bound: "queue_index qos_u8 c < 5"
  by (cases c) simp_all

definition items_bytes :: "pending_sync list list \<Rightarrow> nat" where
  "items_bytes qs = sum_list (map sync_size (concat qs))"

definition sync_queue_wf :: "priority_sync_queue \<Rightarrow> bool" where
  "sync_queue_wf q \<longleftrightarrow>
     length (sq_queues q) = 5 \<and> (\<forall>k < 5. \<forall>x \<in> set (sq_queues q ! k). sync_level x = k) \<and>
     sq_total_bytes q = items_bytes (sq_queues q) \<and> sq_total_bytes q \<le> sq_max_bytes q"

lemma items_bytes_update:
  "i < length qs \<Longrightarrow> items_bytes (qs[i := x]) + sum_list (map sync_size (qs ! i)) = items_bytes qs + sum_list (map sync_size x)"
  unfolding items_bytes_def
proof (induction qs arbitrary: i)
  case (Cons q qs)
  then show ?case by (cases i) auto
qed simp

lemma items_bytes_push: "i < length qs \<Longrightarrow> items_bytes (push_level i x qs) = items_bytes qs + sync_size x"
  using items_bytes_update [of i qs "qs ! i @ [x]"] by (simp add: push_level_def)

lemma items_bytes_pop: "snd (pop_first qs) = Some x \<Longrightarrow> items_bytes qs = sync_size x + items_bytes (fst (pop_first qs))"
  unfolding items_bytes_def pop_first_concat by (cases "concat qs") (simp_all split: list.splits)

lemma sync_queue_wf_new: "sync_queue_wf (sync_queue_new n)"
  by (auto simp: sync_queue_wf_def sync_queue_new_def items_bytes_def nth_Cons split: nat.splits)

lemma sync_queue_wf_enqueue: "sync_queue_wf q \<Longrightarrow> sync_queue_wf (fst (enqueue qos_u8 x q))"
  using queue_index_bound [of "ps_qos_class x"]
  by (auto simp: sync_queue_wf_def enqueue_def Let_def items_bytes_push push_level_nth
      sync_level_def [of x] split: if_splits)

lemma dequeue_highest_parts:
  "dequeue_highest q =
     (q\<lparr>sq_queues := fst (pop_first (sq_queues q)),
        sq_total_bytes := (case snd (pop_first (sq_queues q)) of
                             Some x \<Rightarrow> sq_total_bytes q - sync_size x | None \<Rightarrow> sq_total_bytes q)\<rparr>,
      snd (pop_first (sq_queues q)))"
  by (simp add: dequeue_highest_def split: prod.splits option.splits)

lemma sync_queue_wf_dequeue:
  assumes "sync_queue_wf q"
  shows "sync_queue_wf (fst (dequeue_highest q))"
proof -
  let ?p = "pop_first (sq_queues q)"
  have "\<forall>k < 5. \<forall>x \<in> set (fst ?p ! k). sync_level x = k"
    using assms pop_first_sub [of "sq_queues q"] by (force simp: sync_queue_wf_def)
  moreover have "(case snd ?p of Some x \<Rightarrow> sq_total_bytes q - sync_size x | None \<Rightarrow> sq_total_bytes q) = items_bytes (fst ?p)"
    using assms items_bytes_pop [of "sq_queues q"] pop_first_none [of "sq_queues q"]
    by (auto simp: sync_queue_wf_def split: option.splits)
  moreover have "items_bytes (fst ?p) \<le> items_bytes (sq_queues q)"
    using items_bytes_pop [of "sq_queues q"] pop_first_none [of "sq_queues q"] by (cases "snd ?p") auto
  ultimately show ?thesis
    using assms by (simp add: dequeue_highest_parts sync_queue_wf_def)
qed

interpretation syncs: level_queue sq_queues sync_queue_wf sync_level
    "\<lambda>x q. sq_total_bytes q + sync_size x \<le> sq_max_bytes q" "\<lambda>x q. fst (enqueue qos_u8 x q)" dequeue_highest 5
proof unfold_locales
  show "sync_level x < 5" for x
    by (simp add: sync_level_def queue_index_bound)
  show "sync_queue_wf q \<Longrightarrow> length (sq_queues q) = 5" for q
    by (simp add: sync_queue_wf_def)
  show "sync_queue_wf q \<Longrightarrow> k < 5 \<Longrightarrow> x \<in> set (sq_queues q ! k) \<Longrightarrow> sync_level x = k" for q k x
    by (simp add: sync_queue_wf_def)
  show "sq_queues (fst (enqueue qos_u8 x q)) = push_level (sync_level x) x (sq_queues q)"
    if "sq_total_bytes q + sync_size x \<le> sq_max_bytes q" for q x
    using that by (simp add: enqueue_def sync_level_def)
  show "sq_queues (fst (dequeue_highest q)) = fst (pop_first (sq_queues q))"
    "snd (dequeue_highest q) = snd (pop_first (sq_queues q))" for q
    by (simp_all add: dequeue_highest_parts)
qed (simp_all add: sync_queue_wf_enqueue sync_queue_wf_dequeue)

lemma sync_queue_wf_batch: "sync_queue_wf q \<Longrightarrow> sync_queue_wf (fst (dequeue_batch n q))"
  unfolding dequeue_batch_def by (rule syncs.pop_upto_invar)

lemma sync_queue_wf_bytes: "sync_queue_wf q \<Longrightarrow> sync_queue_wf (fst (dequeue_bytes_loop n q b t))"
proof (induction n q b t rule: dequeue_bytes_loop.induct)
  case (1 n q b t)
  from sync_queue_wf_dequeue [OF "1.prems"] show ?case
    using 1 by (subst dequeue_bytes_loop.simps) (auto split: prod.splits option.splits)
qed

lemma sync_queue_wf_clear: "sync_queue_wf q \<Longrightarrow> sync_queue_wf (sync_clear q)"
proof -
  have "concat (map (\<lambda>_. []) xs) = []" for xs :: "pending_sync list list"
    by (induction xs) simp_all
  then show "sync_queue_wf q \<Longrightarrow> sync_queue_wf (sync_clear q)"
    by (simp add: sync_queue_wf_def sync_clear_def items_bytes_def)
qed

lemma sync_queue_wf_drain: "sync_queue_wf q \<Longrightarrow> sync_queue_wf (fst (drain_class qos_u8 c q))"
  using queue_index_bound [of c] items_bytes_update [of "queue_index qos_u8 c" "sq_queues q" "[]"]
  by (auto simp: sync_queue_wf_def drain_class_def Let_def nth_list_update split: if_splits)

lemma items_bytes_filter:
  "items_bytes (map (filter keep) qs) + sum_list (map (\<lambda>q. sum_list (map sync_size (filter (\<lambda>x. \<not> keep x) q))) qs)
     = items_bytes qs"
  unfolding items_bytes_def
proof (induction qs)
  case (Cons q qs)
  then show ?case using sum_list_filter_split [of sync_size keep q] by simp
qed simp

lemma sync_queue_wf_stale:
  assumes "sync_queue_wf q"
  shows "sync_queue_wf (fst (remove_stale now age q))"
proof -
  let ?keep = "\<lambda>x. queue_duration now x < age"
  define r where "r = sum_list (map (\<lambda>q. sum_list (map sync_size (filter (\<lambda>x. \<not> ?keep x) q))) (sq_queues q))"
  have "items_bytes (map (filter ?keep) (sq_queues q)) + r = sq_total_bytes q"
    using assms items_bytes_filter [of ?keep "sq_queues q"] by (simp add: sync_queue_wf_def r_def)
  moreover have "fst (remove_stale now age q) =
      q\<lparr>sq_queues := map (filter ?keep) (sq_queues q), sq_total_bytes := sq_total_bytes q - r\<rparr>"
    unfolding remove_stale_def Let_def r_def [symmetric] by simp
  ultimately show ?thesis
    using assms by (auto simp: sync_queue_wf_def)
qed

lemma fold_push_level:
  "i < length qs \<Longrightarrow> fold (\<lambda>x. push_level i (g x)) xs qs = qs[i := qs ! i @ map g xs]"
  by (induction xs arbitrary: qs) (simp_all add: push_level_def)

definition due :: "instant \<Rightarrow> qos_class \<Rightarrow> pending_sync \<Rightarrow> bool" where
  "due now to_class x \<longleftrightarrow> should_promote now x \<and> effective_class now x = to_class"

lemma promote_class_result:
  assumes "length qs = 5" "queue_index qos_u8 a \<noteq> queue_index qos_u8 b"
  shows "promote_class qos_u8 now a b qs =
     (qs[queue_index qos_u8 a := filter (\<lambda>x. \<not> due now b x) (qs ! queue_index qos_u8 a),
         queue_index qos_u8 b := qs ! queue_index qos_u8 b @
           map (\<lambda>x. x\<lparr>ps_qos_class := b\<rparr>) (filter (due now b) (qs ! queue_index qos_u8 a))],
      length (filter (due now b) (qs ! queue_index qos_u8 a)))"
  using assms queue_index_bound [of a] queue_index_bound [of b]
  unfolding due_def [abs_def]
  by (simp add: promote_class_def Let_def fold_push_level nth_list_update)

lemma sync_size_reclass: "sync_size (x\<lparr>ps_qos_class := c\<rparr>) = sync_size x"
  by (simp add: sync_size_def)

lemma promote_class_keeps:
  assumes "length qs = 5" "\<forall>k < 5. \<forall>x \<in> set (qs ! k). sync_level x = k"
    and "queue_index qos_u8 a \<noteq> queue_index qos_u8 b"
  shows "length (fst (promote_class qos_u8 now a b qs)) = 5"
    and "\<forall>k < 5. \<forall>x \<in> set (fst (promote_class qos_u8 now a b qs) ! k). sync_level x = k"
    and "items_bytes (fst (promote_class qos_u8 now a b qs)) = items_bytes qs"
proof -
  let ?i = "queue_index qos_u8 a" and ?j = "queue_index qos_u8 b"
  note bound = queue_index_bound [of a] queue_index_bound [of b]
  note res = promote_class_result [OF assms(1,3), of now]
  show "length (fst (promote_class qos_u8 now a b qs)) = 5"
    by (simp add: res assms(1))
  show "\<forall>k < 5. \<forall>x \<in> set (fst (promote_class qos_u8 now a b qs) ! k). sync_level x = k"
    using assms bound by (auto simp: res nth_list_update sync_level_def split: if_splits)
  let ?stay = "filter (\<lambda>x. \<not> due now b x) (qs ! ?i)" and ?go = "filter (due now b) (qs ! ?i)"
  have parts: "sum_list (map sync_size ?stay) + sum_list (map sync_size ?go) = sum_list (map sync_size (qs ! ?i))"
    using sum_list_filter_split [of sync_size "due now b" "qs ! ?i"] by (simp add: add.commute)
  have moved: "sum_list (map sync_size (map (\<lambda>x. x\<lparr>ps_qos_class := b\<rparr>) ?go)) = sum_list (map sync_size ?go)"
    by (simp add: o_def sync_size_reclass)
  have "items_bytes (qs[?i := ?stay]) + sum_list (map sync_size (qs ! ?i)) = items_bytes qs + sum_list (map sync_size ?stay)"
    using bound assms(1) by (intro items_bytes_update) simp
  moreover have "items_bytes (qs[?i := ?stay, ?j := qs ! ?j @ map (\<lambda>x. x\<lparr>ps_qos_class := b\<rparr>) ?go]) +
      sum_list (map sync_size (qs ! ?j)) =
      items_bytes (qs[?i := ?stay]) + sum_list (map sync_size (qs ! ?j)) + sum_list (map sync_size ?go)"
    using items_bytes_update [of ?j "qs[?i := ?stay]" "qs ! ?j @ map (\<lambda>x. x\<lparr>ps_qos_class := b\<rparr>) ?go"]
      bound assms(1,3) moved by simp
  ultimately show "items_bytes (fst (promote_class qos_u8 now a b qs)) = items_bytes qs"
    using parts by (simp add: res)
qed

lemma sync_queue_wf_aging:
  assumes "sync_queue_wf q"
  shows "sync_queue_wf (fst (apply_aging qos_u8 now q))"
proof -
  let ?q1 = "fst (promote_class qos_u8 now QosBulk QosLow (sq_queues q))"
  let ?q2 = "fst (promote_class qos_u8 now QosLow QosNormal ?q1)"
  have q: "length (sq_queues q) = 5" "\<forall>k < 5. \<forall>x \<in> set (sq_queues q ! k). sync_level x = k"
    using assms by (simp_all add: sync_queue_wf_def)
  note k1 = promote_class_keeps [OF q, of QosBulk QosLow now, simplified]
  note k2 = promote_class_keeps [OF k1(1,2), of QosLow QosNormal now, simplified]
  have "sq_queues (fst (apply_aging qos_u8 now q)) = ?q2"
    "sq_total_bytes (fst (apply_aging qos_u8 now q)) = sq_total_bytes q"
    "sq_max_bytes (fst (apply_aging qos_u8 now q)) = sq_max_bytes q"
    by (simp_all add: apply_aging_def Let_def case_prod_beta)
  then show ?thesis
    using assms k1 k2 by (simp add: sync_queue_wf_def)
qed

inductive sync_step :: "(qos_class \<Rightarrow> u8) \<Rightarrow> priority_sync_queue \<Rightarrow> priority_sync_queue \<Rightarrow> bool" for as_u8 where
  enqueue: "sync_step as_u8 q (fst (enqueue as_u8 x q))"
| dequeue: "sync_step as_u8 q (fst (dequeue_highest q))"
| aging: "sync_step as_u8 q (fst (apply_aging as_u8 now q))"
| clear: "sync_step as_u8 q (sync_clear q)"
| drain: "sync_step as_u8 q (fst (drain_class as_u8 c q))"
| stale: "sync_step as_u8 q (fst (remove_stale now age q))"
| batch: "sync_step as_u8 q (fst (dequeue_batch n q))"
| bytes: "sync_step as_u8 q (fst (dequeue_bytes n q))"

lemma sync_step_wf: "sync_step qos_u8 q q' \<Longrightarrow> sync_queue_wf q \<Longrightarrow> sync_queue_wf q'"
  by (erule sync_step.cases)
     (simp_all add: sync_queue_wf_enqueue sync_queue_wf_dequeue sync_queue_wf_aging sync_queue_wf_clear
       sync_queue_wf_drain sync_queue_wf_stale sync_queue_wf_batch sync_queue_wf_bytes dequeue_bytes_def)

text \<open>
  C3. Byte accounting is exact: along every run of queue operations \<open>total_bytes\<close> is the sum of the sizes
  of the queued items and never exceeds \<open>max_bytes\<close>, and every item sits in the queue of its class.
\<close>

theorem sync_queue_accounting:
  assumes "qos_numbering as_u8" "(sync_step as_u8)\<^sup>*\<^sup>* (sync_queue_new n) q"
  shows "sq_total_bytes q = sum_list (map sync_size (concat (sq_queues q)))
         \<and> sq_total_bytes q \<le> sq_max_bytes q
         \<and> (\<forall>c. \<forall>x \<in> set (sq_queues q ! queue_index as_u8 c). ps_qos_class x = c)"
proof -
  have u8: "as_u8 = qos_u8" by (rule qos_numbering_unique [OF assms(1)])
  from assms(2) have "sync_queue_wf q"
    unfolding u8 by induction (simp_all add: sync_queue_wf_new sync_step_wf)
  moreover have "ps_qos_class x = c" if "sync_level x = queue_index qos_u8 c" for x c
    using that by (cases c; cases "ps_qos_class x") (simp_all add: sync_level_def)
  ultimately show ?thesis
    using queue_index_bound by (simp add: u8 sync_queue_wf_def items_bytes_def)
qed

definition example_sync :: "qos_class \<Rightarrow> nat \<Rightarrow> pending_sync" where
  "example_sync c n = pending_sync_new 0 (replicate n 0) c DebugLog"

theorem sync_queue_accounting_witness:
  "sq_total_bytes (fst (enqueue qos_u8 (example_sync QosBulk 4) (sync_queue_new 10))) \<le> 10"
proof -
  have "qos_numbering qos_u8" by (simp add: qos_numbering_def)
  moreover have "(sync_step qos_u8)\<^sup>*\<^sup>* (sync_queue_new 10) (fst (enqueue qos_u8 (example_sync QosBulk 4) (sync_queue_new 10)))"
    by (intro r_into_rtranclp sync_step.enqueue)
  moreover have "sq_max_bytes (fst (enqueue qos_u8 (example_sync QosBulk 4) (sync_queue_new 10))) = 10"
    by (simp add: enqueue_def Let_def sync_queue_new_def)
  ultimately show ?thesis
    using sync_queue_accounting by metis
qed


subsection \<open>Order\<close>

text \<open>
  C18. The sync queue is a stable sort by class: after items that all fit are enqueued, a batch of up to
  \<open>n\<close> is the first \<open>n\<close> of them sorted by class number, those of one class in order of arrival.
\<close>

theorem sync_queue_sorts:
  assumes "qos_numbering as_u8" "sum_list (map sync_size xs) \<le> n"
  shows "snd (dequeue_batch k (fold (\<lambda>x q. fst (enqueue as_u8 x q)) xs (sync_queue_new n))) =
           take k (sort_key (\<lambda>x. unat (as_u8 (ps_qos_class x))) xs)"
proof -
  have u8: "as_u8 = qos_u8" by (rule qos_numbering_unique [OF assms(1)])
  let ?push = "\<lambda>x q. fst (enqueue qos_u8 x q)"
  let ?q = "\<lambda>ys. fold ?push ys (sync_queue_new n)"
  have total: "sq_total_bytes (?q ys) = sum_list (map sync_size ys) \<and> sq_max_bytes (?q ys) = n"
    if "sum_list (map sync_size ys) \<le> n" for ys
    using that by (induction ys rule: rev_induct) (auto simp: sync_queue_new_def enqueue_def Let_def)
  have fits: "\<forall>pre x suf. xs = pre @ x # suf \<longrightarrow> sq_total_bytes (?q pre) + sync_size x \<le> sq_max_bytes (?q pre)"
  proof (intro allI impI)
    fix pre x suf
    assume "xs = pre @ x # suf"
    with assms(2) have "sum_list (map sync_size pre) + sync_size x \<le> n" by simp
    with total [of pre] show "sq_total_bytes (?q pre) + sync_size x \<le> sq_max_bytes (?q pre)" by simp
  qed
  have "concat (sq_queues (?q xs)) = sort_key sync_level xs"
    by (rule syncs.push_all_contents [OF sync_queue_wf_new _ fits]) (simp add: sync_queue_new_def)
  moreover have "sync_queue_wf (?q xs)"
    by (rule syncs.push_all_invar [OF sync_queue_wf_new fits])
  ultimately have batch: "snd (dequeue_batch k (?q xs)) = take k (sort_key sync_level xs)"
    by (simp add: dequeue_batch_def syncs.pop_upto_take)
  have "unat (qos_u8 (ps_qos_class x)) = Suc (sync_level x)" for x
    by (cases "ps_qos_class x") (simp_all add: sync_level_def)
  then have "sort_key (\<lambda>x. unat (qos_u8 (ps_qos_class x))) xs = sort_key (\<lambda>x. Suc (sync_level x)) xs"
    by simp
  also have "\<dots> = sort_key sync_level xs"
    by (rule sort_key_Suc)
  finally show ?thesis
    by (simp add: u8 batch)
qed

theorem sync_queue_sorts_witness:
  "snd (dequeue_batch 1 (fold (\<lambda>x q. fst (enqueue qos_u8 x q)) [example_sync QosBulk 4, example_sync QosHigh 3]
     (sync_queue_new 10))) = [example_sync QosHigh 3]"
proof -
  have "qos_numbering qos_u8" "sum_list (map sync_size [example_sync QosBulk 4, example_sync QosHigh 3]) \<le> 10"
    by (simp_all add: qos_numbering_def example_sync_def pending_sync_new_def sync_size_def)
  from sync_queue_sorts [OF this, of 1] show ?thesis
    by (simp add: example_sync_def pending_sync_new_def)
qed


subsection \<open>Batches by size\<close>

lemma first_front_pop: "first_front qs = snd (pop_first qs)"
  by (induction qs rule: pop_first.induct) (simp_all add: case_prod_beta)

lemma dequeue_peek: "snd (dequeue_highest q) = peek_highest q"
  by (simp add: dequeue_highest_parts peek_highest_def first_front_pop)

lemma dequeue_contents:
  "dequeue_highest q = (q', Some x) \<Longrightarrow> concat (sq_queues q) = x # concat (sq_queues q')"
  by (auto simp: dequeue_highest_parts pop_first_concat split: list.splits)

lemma dequeue_none: "dequeue_highest q = (q', None) \<Longrightarrow> concat (sq_queues q) = [] \<and> concat (sq_queues q') = []"
  by (auto simp: dequeue_highest_parts pop_first_concat simp del: concat_eq_Nil_conv split: list.splits)

text \<open>What the loop keeps and what holds when it stops.\<close>

definition fits_budget :: "nat \<Rightarrow> pending_sync list \<Rightarrow> bool" where
  "fits_budget n batch \<longleftrightarrow> length batch \<le> 1 \<or> sum_list (map sync_size batch) \<le> n"

definition batch_stops :: "nat \<Rightarrow> pending_sync list \<Rightarrow> pending_sync list \<Rightarrow> bool" where
  "batch_stops n batch rest \<longleftrightarrow>
     rest = [] \<or> n \<le> sum_list (map sync_size batch) \<or>
     batch \<noteq> [] \<and> n < sum_list (map sync_size batch) + sync_size (hd rest)"

lemma dequeue_bytes_loop_spec:
  assumes "used = sum_list (map sync_size batch)" "fits_budget n batch"
  shows "let (q', out) = dequeue_bytes_loop n q batch used
         in out @ concat (sq_queues q') = batch @ concat (sq_queues q) \<and> fits_budget n out
            \<and> batch_stops n out (concat (sq_queues q'))"
  using assms
proof (induction n q batch used rule: dequeue_bytes_loop.induct)
  case (1 n q batch used)
  let ?over = "case peek_highest q of Some p \<Rightarrow> used + sync_size p > n \<and> batch \<noteq> [] | None \<Rightarrow> False"
  show ?case
  proof (cases "used < n \<and> \<not> ?over")
    case False
    have "batch_stops n batch (concat (sq_queues q))"
    proof (cases "used < n")
      case True
      with False obtain p where "peek_highest q = Some p" "used + sync_size p > n" "batch \<noteq> []"
        by (auto split: option.splits)
      moreover from this(1) obtain ps where "concat (sq_queues q) = p # ps"
        by (auto simp: peek_highest_def first_front_pop pop_first_concat split: list.splits)
      ultimately show ?thesis using "1.prems"(1) by (simp add: batch_stops_def)
    qed (use "1.prems"(1) in \<open>simp add: batch_stops_def\<close>)
    with False "1.prems" show ?thesis by (subst dequeue_bytes_loop.simps) auto
  next
    case True
    then have step: "dequeue_bytes_loop n q batch used = (case dequeue_highest q of
        (q', Some x) \<Rightarrow> dequeue_bytes_loop n q' (batch @ [x]) (used + sync_size x) | (q', None) \<Rightarrow> (q', batch))"
      by (subst dequeue_bytes_loop.simps) (simp only: simp_thms if_False)
    obtain q' r where pop: "dequeue_highest q = (q', r)" by (cases "dequeue_highest q")
    show ?thesis
    proof (cases r)
      case None
      then have "dequeue_bytes_loop n q batch used = (q', batch)" by (simp only: step pop prod.case option.case)
      with pop None dequeue_none [of q q'] "1.prems" show ?thesis
        by (simp add: batch_stops_def del: concat_eq_Nil_conv)
    next
      case (Some x)
      have "peek_highest q = Some x" using dequeue_peek [of q] pop Some by simp
      with True "1.prems" have "fits_budget n (batch @ [x])"
        by (cases batch) (auto simp: fits_budget_def)
      moreover have "used + sync_size x = sum_list (map sync_size (batch @ [x]))"
        using "1.prems"(1) by simp
      moreover have "\<not> \<not> used < n" "\<not> ?over" using True by simp_all
      moreover have "dequeue_bytes_loop n q batch used = dequeue_bytes_loop n q' (batch @ [x]) (used + sync_size x)"
        by (simp only: step pop Some prod.case option.case)
      ultimately show ?thesis
        using "1.IH" [OF _ _ pop [symmetric] Some] dequeue_contents [of q q' x] pop Some by simp
    qed
  qed
qed

text \<open>
  \<open>dequeue_bytes\<close> takes a prefix of the queue in priority order. Unless the batch is one single item,
  its size is within the limit; and it stops only when the queue is empty, the limit is reached, or
  the next item would exceed it. A positive limit on a non-empty queue always yields something.
\<close>

theorem dequeue_bytes_batch:
  "let (q', batch) = dequeue_bytes n q
   in batch @ concat (sq_queues q') = concat (sq_queues q)
      \<and> (length batch \<le> 1 \<or> sum_list (map sync_size batch) \<le> n)
      \<and> (concat (sq_queues q') = [] \<or> n \<le> sum_list (map sync_size batch)
         \<or> batch \<noteq> [] \<and> n < sum_list (map sync_size batch) + sync_size (hd (concat (sq_queues q'))))
      \<and> (0 < n \<and> concat (sq_queues q) \<noteq> [] \<longrightarrow> batch \<noteq> [])"
proof -
  have "fits_budget n []" by (simp add: fits_budget_def)
  from dequeue_bytes_loop_spec [OF _ this, of 0 q] show ?thesis
    by (auto simp: dequeue_bytes_def Let_def case_prod_beta fits_budget_def batch_stops_def
        simp del: concat_eq_Nil_conv Nil_eq_concat_conv)
qed

theorem dequeue_bytes_batch_witness:
  "snd (dequeue_bytes 5 (fst (enqueue qos_u8 (example_sync QosHigh 9) (sync_queue_new 10)))) \<noteq> []"
proof -
  let ?q = "fst (enqueue qos_u8 (example_sync QosHigh 9) (sync_queue_new 10))"
  have "concat (sq_queues ?q) \<noteq> []"
    by (simp add: enqueue_def Let_def sync_queue_new_def example_sync_def pending_sync_new_def sync_size_def push_level_def)
  with dequeue_bytes_batch [of 5 ?q] show ?thesis
    by (simp add: case_prod_beta Let_def del: concat_eq_Nil_conv)
qed


subsection \<open>Aging\<close>

lemma as_secs_f32_ge:
  assumes "from_secs n \<le> ns" "0 < n" "n < 2 ^ 24"
  shows "of_nat n \<le> as_secs_f32 ns"
proof -
  have "n \<le> ns div 1000000000"
    using assms(1) by (simp add: from_secs_def less_eq_div_iff_mult_less_eq)
  then have "of_nat n \<le> fl 24 (of_nat (ns div 1000000000))"
    using assms(2,3) by (intro le_fl_nat) simp_all
  moreover have "0 \<le> fl 24 (fl 24 (of_nat (ns mod 1000000000)) / 1000000000)"
    by (intro fl_nonneg divide_nonneg_pos) simp_all
  ultimately show ?thesis
    unfolding as_secs_f32_def using assms(2,3) by (intro le_fl_nat) linarith+
qed

lemma bulk_due:
  assumes "ps_qos_class x = QosBulk" "ps_priority_multiplier x = Fin m" "1 \<le> m"
    and "from_secs 3600 \<le> queue_duration now x"
  shows "due now QosLow x"
proof -
  have "3600 \<le> as_secs_f32 (queue_duration now x)"
    using as_secs_f32_ge [OF assms(4)] by simp
  then have hours: "1 \<le> fl 24 (as_secs_f32 (queue_duration now x) / 3600)"
    using le_fl_nat [of 1 _ 24] by simp
  then have "1 \<le> fl 24 (as_secs_f32 (queue_duration now x) / 3600) * m"
    using mult_mono [OF hours assms(3)] hours by simp
  then have "1 \<le> fl 24 (fl 24 (as_secs_f32 (queue_duration now x) / 3600) * m)"
    using le_fl_nat [of 1 _ 24] by simp
  then show ?thesis
    by (simp add: due_def should_promote_def effective_class_def Let_def assms f_mul_def f_ge_def)
qed

text \<open>
  Aging prevents starvation of bulk data: an item that waited an hour, with a multiplier of at least
  one, leaves the bulk queue at the next aging pass and is found in the low or the normal queue.
\<close>

theorem bulk_item_promoted:
  assumes "qos_numbering as_u8" "sync_queue_wf q" "x \<in> set (sq_queues q ! queue_index as_u8 QosBulk)"
    and "ps_priority_multiplier x = Fin m" "1 \<le> m" "from_secs 3600 \<le> queue_duration now x"
  shows "let q' = fst (apply_aging as_u8 now q)
         in x \<notin> set (sq_queues q' ! queue_index as_u8 QosBulk)
            \<and> (x\<lparr>ps_qos_class := QosLow\<rparr> \<in> set (sq_queues q' ! queue_index as_u8 QosLow)
               \<or> x\<lparr>ps_qos_class := QosNormal\<rparr> \<in> set (sq_queues q' ! queue_index as_u8 QosNormal))"
proof -
  have u8: "as_u8 = qos_u8" by (rule qos_numbering_unique [OF assms(1)])
  have len: "length (sq_queues q) = 5" using assms(2) by (simp add: sync_queue_wf_def)
  have bulk: "x \<in> set (sq_queues q ! 4)" using assms(3) by (simp add: u8)
  then have "sync_level x = 4" using assms(2) by (simp add: sync_queue_wf_def)
  then have "ps_qos_class x = QosBulk"
    by (cases "ps_qos_class x") (simp_all add: sync_level_def)
  then have due: "due now QosLow x" using bulk_due assms(4-6) by blast
  define q1 where "q1 = fst (promote_class qos_u8 now QosBulk QosLow (sq_queues q))"
  have q1: "q1 = (sq_queues q)[4 := filter (\<lambda>x. \<not> due now QosLow x) (sq_queues q ! 4),
      3 := sq_queues q ! 3 @ map (\<lambda>x. x\<lparr>ps_qos_class := QosLow\<rparr>) (filter (due now QosLow) (sq_queues q ! 4))]"
    using promote_class_result [OF len, of QosBulk QosLow now] by (simp add: q1_def)
  then have len1: "length q1 = 5" and gone: "x \<notin> set (q1 ! 4)" and low: "x\<lparr>ps_qos_class := QosLow\<rparr> \<in> set (q1 ! 3)"
    using len bulk due by auto
  have "sq_queues (fst (apply_aging qos_u8 now q)) = fst (promote_class qos_u8 now QosLow QosNormal q1)"
    by (simp add: apply_aging_def Let_def case_prod_beta q1_def)
  also have "\<dots> = q1[3 := filter (\<lambda>x. \<not> due now QosNormal x) (q1 ! 3),
      2 := q1 ! 2 @ map (\<lambda>x. x\<lparr>ps_qos_class := QosNormal\<rparr>) (filter (due now QosNormal) (q1 ! 3))]"
    using promote_class_result [OF len1, of QosLow QosNormal now] by simp
  finally have q2: "sq_queues (fst (apply_aging qos_u8 now q)) = \<dots>" .
  have "x\<lparr>ps_qos_class := QosLow\<rparr> \<in> set (sq_queues (fst (apply_aging qos_u8 now q)) ! 3)
      \<or> x\<lparr>ps_qos_class := QosNormal\<rparr> \<in> set (sq_queues (fst (apply_aging qos_u8 now q)) ! 2)"
  proof (cases "due now QosNormal (x\<lparr>ps_qos_class := QosLow\<rparr>)")
    case True
    with low have "x\<lparr>ps_qos_class := QosLow\<rparr>\<lparr>ps_qos_class := QosNormal\<rparr> \<in>
        (\<lambda>x. x\<lparr>ps_qos_class := QosNormal\<rparr>) ` set (filter (due now QosNormal) (q1 ! 3))"
      by (intro imageI) simp
    then show ?thesis using len1 by (simp add: q2)
  next
    case False
    with low len1 show ?thesis by (simp add: q2)
  qed
  with gone len1 show ?thesis
    by (simp add: u8 Let_def q2)
qed

theorem bulk_item_promoted_witness:
  "example_sync QosBulk 4 \<notin> set (sq_queues (fst (apply_aging qos_u8 (from_secs 3600)
     (fst (enqueue qos_u8 (example_sync QosBulk 4) (sync_queue_new 10))))) ! queue_index qos_u8 QosBulk)"
proof -
  have "qos_numbering qos_u8" by (simp add: qos_numbering_def)
  moreover have "sync_queue_wf (fst (enqueue qos_u8 (example_sync QosBulk 4) (sync_queue_new 10)))"
    by (intro sync_queue_wf_enqueue sync_queue_wf_new)
  moreover have "example_sync QosBulk 4 \<in> set (sq_queues (fst (enqueue qos_u8 (example_sync QosBulk 4)
      (sync_queue_new 10))) ! queue_index qos_u8 QosBulk)"
    by (simp add: enqueue_def Let_def sync_queue_new_def example_sync_def pending_sync_new_def sync_size_def push_level_def)
  moreover have "ps_priority_multiplier (example_sync QosBulk 4) = Fin 1"
    "from_secs 3600 \<le> queue_duration (from_secs 3600) (example_sync QosBulk 4)"
    by (simp_all add: example_sync_def pending_sync_new_def queue_duration_def elapsed_def)
  ultimately show ?thesis
    using bulk_item_promoted [of qos_u8 _ "example_sync QosBulk 4" 1 "from_secs 3600"] by (simp add: Let_def)
qed

end
