(* ===== verification/Wire_Bytes.thy ===== *)
theory Wire_Bytes
  imports Peat_Prelude
begin

text \<open>
  What the wire formats use of the Rust standard library: integers in little- and big-endian byte
  order, strings as their UTF-8 bytes, and \<open>String::from_utf8\<close> with the error it reports. A string of
  the model is the list of its bytes, so that \<open>len\<close> counts bytes as it does in Rust.
\<close>

unbundle bit_operations_syntax


subsection \<open>Integers\<close>

definition to_le_bytes :: "u64 \<Rightarrow> u8 list" where
  "to_le_bytes w = map (\<lambda>i. ucast (drop_bit (8 * i) w)) [0..<8]"

definition to_be_bytes :: "u64 \<Rightarrow> u8 list" where
  "to_be_bytes w = rev (to_le_bytes w)"

definition from_le_bytes :: "u8 list \<Rightarrow> u64" where
  "from_le_bytes bs = foldr (\<lambda>b acc. ucast b OR push_bit 8 acc) bs 0"

lemma length_to_le_bytes [simp]: "length (to_le_bytes w) = 8"
  by (simp add: to_le_bytes_def)

lemma bit_u8_bound: "bit (b :: u8) n \<Longrightarrow> n < 8"
  using bit_imp_le_length [of b n] by simp

lemma bit_u64_of_u8 [simp]: "bit (ucast (b :: u8) :: u64) n \<longleftrightarrow> bit b n"
  by (auto simp: bit_ucast_iff dest: bit_u8_bound)

lemma bit_from_le_bytes:
  "bit (from_le_bytes bs) n \<longleftrightarrow> n < 64 \<and> n div 8 < length bs \<and> bit (bs ! (n div 8)) (n mod 8)"
proof (induction bs arbitrary: n)
  case (Cons b bs)
  have step: "bit (from_le_bytes (b # bs)) n \<longleftrightarrow> bit b n \<or> 8 \<le> n \<and> n < 64 \<and> bit (from_le_bytes bs) (n - 8)"
    by (auto simp: from_le_bytes_def bit_simps)
  show ?case
  proof (cases "n < 8")
    case True
    then show ?thesis by (auto simp: step)
  next
    case False
    then have "n div 8 = Suc ((n - 8) div 8)" "n mod 8 = (n - 8) mod 8"
      by (simp_all add: le_div_geq le_mod_geq)
    with False show ?thesis by (auto simp: step Cons.IH dest: bit_u8_bound)
  qed
qed (simp add: from_le_bytes_def)

lemma from_to_le_bytes [simp]: "from_le_bytes (to_le_bytes w) = w"
  by (rule bit_word_eqI) (auto simp: bit_from_le_bytes to_le_bytes_def bit_simps)

lemma to_from_le_bytes: "length bs = 8 \<Longrightarrow> to_le_bytes (from_le_bytes bs) = bs"
  by (rule nth_equalityI)
     (auto intro!: bit_word_eqI simp: to_le_bytes_def bit_simps bit_from_le_bytes dest: bit_u8_bound)

lemma to_le_bytes_inj: "to_le_bytes v = to_le_bytes w \<longleftrightarrow> v = w"
  by (metis from_to_le_bytes)

definition to_le_bytes32 :: "u32 \<Rightarrow> u8 list" where
  "to_le_bytes32 w = map (\<lambda>i. ucast (drop_bit (8 * i) w)) [0..<4]"

lemma length_to_le_bytes32 [simp]: "length (to_le_bytes32 w) = 4"
  by (simp add: to_le_bytes32_def)

lemma bit_le_bytes32: "n < 32 \<Longrightarrow> bit (to_le_bytes32 w ! (n div 8)) (n mod 8) \<longleftrightarrow> bit w n"
proof -
  assume n: "n < 32"
  then have "[0..<4] ! (n div 8) = n div 8" by (subst nth_upt) auto
  with n show ?thesis by (auto simp: to_le_bytes32_def bit_simps)
qed

lemma to_le_bytes32_inj: "to_le_bytes32 v = to_le_bytes32 w \<longleftrightarrow> v = w"
proof
  assume eq: "to_le_bytes32 v = to_le_bytes32 w"
  show "v = w"
  proof (rule bit_word_eqI)
    fix n
    assume "n < LENGTH(32)"
    then show "bit v n = bit w n"
      using bit_le_bytes32 [of n v] bit_le_bytes32 [of n w] eq by simp
  qed
qed simp


subsection \<open>Strings\<close>

definition byte_of_char :: "char \<Rightarrow> u8" where
  "byte_of_char c = word_of_nat (of_char c)"

definition char_of_byte :: "u8 \<Rightarrow> char" where
  "char_of_byte b = char_of (unat b)"

definition as_bytes :: "string \<Rightarrow> u8 list" where
  "as_bytes s = map byte_of_char s"

lemma char_of_byte_of_char [simp]: "char_of_byte (byte_of_char c) = c"
  by (simp add: char_of_byte_def byte_of_char_def unat_of_nat)

lemma byte_of_char_of_byte [simp]: "byte_of_char (char_of_byte b) = b"
proof -
  have "unat b < 256" using unsigned_less [of b, where ?'a = nat] by simp
  then show ?thesis by (simp add: char_of_byte_def byte_of_char_def)
qed

lemma length_as_bytes [simp]: "length (as_bytes s) = length s"
  by (simp add: as_bytes_def)

lemma map_char_as_bytes [simp]: "map char_of_byte (as_bytes s) = s"
  by (simp add: as_bytes_def o_def)

lemma as_bytes_map_char [simp]: "as_bytes (map char_of_byte bs) = bs"
  by (simp add: as_bytes_def o_def)

lemma as_bytes_inj [simp]: "as_bytes s = as_bytes t \<longleftrightarrow> s = t"
  by (metis map_char_as_bytes)

text \<open>
  \<open>String::from_utf8\<close>: the bytes are scanned one code point at a time. The error says up to where the
  bytes were valid and how many bytes the offending sequence has, or that the input ended inside one.
\<close>

record utf8_error =
  valid_up_to :: nat
  error_len :: "nat option"

definition continuation :: "u8 \<Rightarrow> bool" where
  "continuation b \<longleftrightarrow> 0x80 \<le> b \<and> b \<le> 0xBF"

text \<open>The allowed second byte after each lead byte of three or four bytes.\<close>

definition second_ok :: "u8 \<Rightarrow> u8 \<Rightarrow> bool" where
  "second_ok b c \<longleftrightarrow>
     (if b = 0xE0 then 0xA0 \<le> c \<and> c \<le> 0xBF
      else if b = 0xED then 0x80 \<le> c \<and> c \<le> 0x9F
      else if b = 0xF0 then 0x90 \<le> c \<and> c \<le> 0xBF
      else if b = 0xF4 then 0x80 \<le> c \<and> c \<le> 0x8F
      else continuation c)"

definition utf8_width :: "u8 \<Rightarrow> nat" where
  "utf8_width b =
     (if b < 0x80 then 1 else if 0xC2 \<le> b \<and> b \<le> 0xDF then 2
      else if 0xE0 \<le> b \<and> b \<le> 0xEF then 3 else if 0xF0 \<le> b \<and> b \<le> 0xF4 then 4 else 0)"

function utf8_scan :: "nat \<Rightarrow> u8 list \<Rightarrow> utf8_error option" where
  "utf8_scan i [] = None"
| "utf8_scan i (b # bs) =
     (let err = (\<lambda>n. Some \<lparr>valid_up_to = i, error_len = n\<rparr>); w = utf8_width b
      in if w = 1 then utf8_scan (i + 1) bs
         else if w = 0 then err (Some 1)
         else (case bs of
                 [] \<Rightarrow> err None
               | c # cs \<Rightarrow>
                   if \<not> second_ok b c then err (Some 1)
                   else if w = 2 then utf8_scan (i + 2) cs
                   else (case cs of
                           [] \<Rightarrow> err None
                         | d # ds \<Rightarrow>
                             if \<not> continuation d then err (Some 2)
                             else if w = 3 then utf8_scan (i + 3) ds
                             else (case ds of
                                     [] \<Rightarrow> err None
                                   | e # es \<Rightarrow>
                                       if \<not> continuation e then err (Some 3) else utf8_scan (i + 4) es))))"
  by pat_completeness auto
termination
  by (relation "measure (\<lambda>(_, bs). length bs)") auto

definition from_utf8 :: "u8 list \<Rightarrow> utf8_error + string" where
  "from_utf8 bs = (case utf8_scan 0 bs of None \<Rightarrow> Inr (map char_of_byte bs) | Some e \<Rightarrow> Inl e)"

definition display_utf8_error :: "utf8_error \<Rightarrow> string" where
  "display_utf8_error e =
     (case error_len e of
        Some n \<Rightarrow> ''invalid utf-8 sequence of '' @ display_nat n @ '' bytes from index '' @ display_nat (valid_up_to e)
      | None \<Rightarrow> ''incomplete utf-8 byte sequence from index '' @ display_nat (valid_up_to e))"

definition valid_utf8 :: "string \<Rightarrow> bool" where
  "valid_utf8 s \<longleftrightarrow> utf8_scan 0 (as_bytes s) = None"

lemma from_utf8_as_bytes: "valid_utf8 s \<Longrightarrow> from_utf8 (as_bytes s) = Inr s"
  by (simp add: from_utf8_def valid_utf8_def)

lemma from_utf8_Inr: "from_utf8 bs = Inr s \<Longrightarrow> as_bytes s = bs \<and> valid_utf8 s"
  by (auto simp: from_utf8_def valid_utf8_def split: option.splits)

text \<open>Every string of ASCII characters is valid.\<close>

lemma utf8_scan_ascii: "\<forall>b \<in> set bs. b < 0x80 \<Longrightarrow> utf8_scan i bs = None"
  by (induction bs arbitrary: i) (auto simp: utf8_width_def)

end
