(* ===== verification/Security_Base.thy ===== *)
theory Security_Base
  imports Wire_Bytes
begin

text \<open>
  What the security components share: the errors they return (the variants of \<open>SecurityError\<close> the
  sources build) and the key operations of the crates \<open>peat-mesh\<close> and \<open>ed25519-dalek\<close>, which are not
  part of this repository and are a record of parameters. A private key is a value of a type
  variable, and so is a device id; keys, messages and signatures are bytes.
\<close>

datatype security_error =
    SInvalidPublicKey string
  | SInvalidSignature string
  | SSerializationError string
  | SPermissionDenied string string "string list"
  | SUserNotFound string
  | SUserAlreadyExists string
  | SAccountLocked string
  | SAccountDisabled string
  | SAccountPending string
  | SInvalidCredential string
  | SInvalidMfaCode
  | SSessionNotFound
  | SSessionExpired
  | SUnsupportedAuthMethod string
  | SPasswordHashError string
  | STotpError string
  | SAuthenticationFailed string
  | SChallengeExpired u64
  | SInternal string

record ('k, 'd) device_crypto =
  kp_public_key :: "'k \<Rightarrow> u8 list"
  kp_sign :: "'k \<Rightarrow> u8 list \<Rightarrow> u8 list"
  vk_from_bytes :: "u8 list \<Rightarrow> string option"
  vk_verify :: "u8 list \<Rightarrow> u8 list \<Rightarrow> u8 list \<Rightarrow> string option"
  verifying_key_from_bytes :: "u8 list \<Rightarrow> security_error + u8 list"
  signature_from_bytes :: "u8 list \<Rightarrow> security_error + u8 list"
  verify_with_key :: "u8 list \<Rightarrow> u8 list \<Rightarrow> u8 list \<Rightarrow> security_error + unit"
  id_from_public_key :: "u8 list \<Rightarrow> 'd"
  id_to_hex :: "'d \<Rightarrow> string"

text \<open>
  The documented behaviour the theorems rely on: keys have 32 bytes and signatures 64, both parse,
  and a signature verifies under the public key of its signer. Nothing is assumed about forgery.
\<close>

definition signatures_verify :: "('k, 'd) device_crypto \<Rightarrow> bool" where
  "signatures_verify C \<longleftrightarrow>
     (\<forall>k. length (kp_public_key C k) = 32 \<and> vk_from_bytes C (kp_public_key C k) = None
          \<and> verifying_key_from_bytes C (kp_public_key C k) = Inr (kp_public_key C k))
     \<and> (\<forall>k m. length (kp_sign C k m) = 64 \<and> vk_verify C (kp_public_key C k) m (kp_sign C k m) = None
            \<and> signature_from_bytes C (kp_sign C k m) = Inr (kp_sign C k m)
            \<and> verify_with_key C (kp_public_key C k) m (kp_sign C k m) = Inr ())"

text \<open>A concrete instance, for the witnesses: a key is a byte and signs by repeating itself.\<close>

definition example_crypto :: "(u8, u8 list) device_crypto" where
  "example_crypto =
     \<lparr>kp_public_key = (\<lambda>k. replicate 32 k), kp_sign = (\<lambda>k m. replicate 64 k),
      vk_from_bytes = (\<lambda>pk. if length pk = 32 then None else Some ''bad key''),
      vk_verify = (\<lambda>pk m s. if s = replicate 64 (hd pk) then None else Some ''signature error''),
      verifying_key_from_bytes = (\<lambda>pk. if length pk = 32 then Inr pk else Inl (SInvalidPublicKey ''bad key'')),
      signature_from_bytes = (\<lambda>s. if length s = 64 then Inr s else Inl (SInvalidSignature ''bad length'')),
      verify_with_key = (\<lambda>pk m s. if s = replicate 64 (hd pk) then Inr () else Inl (SInvalidSignature ''mismatch'')),
      id_from_public_key = (\<lambda>pk. pk), id_to_hex = map char_of_byte\<rparr>"

lemma example_crypto_verifies: "signatures_verify example_crypto"
  by (simp add: signatures_verify_def example_crypto_def)

end
