(* ===== verification/Membership.thy ===== *)
theory Membership
  imports Security_Base
begin

text \<open>
  Membership certificates, \<open>peat-protocol/src/security/membership.rs\<close>: their validity windows, wire
  format and registry. A key of \<open>[u8; 32]\<close> and a signature of \<open>[u8; 64]\<close> are byte lists of that length.
  Sums of millisecond times are \<open>u64\<close> and wrap, as in a release build.
\<close>


subsection \<open>Certificates\<close>

definition CERTIFICATE_BASE_SIZE :: nat where
  "CERTIFICATE_BASE_SIZE = 154"

definition MAX_CALLSIGN_LEN :: nat where
  "MAX_CALLSIGN_LEN = 16"

definition MESH_ID_LEN :: nat where
  "MESH_ID_LEN = 8"

text \<open>The permission flags are the bits of a byte.\<close>

definition RELAY :: u8 where
  "RELAY = 0x01"

definition EMERGENCY :: u8 where
  "EMERGENCY = 0x02"

definition ENROLL :: u8 where
  "ENROLL = 0x04"

definition ADMIN :: u8 where
  "ADMIN = 0x80"

definition AUTHORITY :: u8 where
  "AUTHORITY = RELAY OR EMERGENCY OR ENROLL OR ADMIN"

definition STANDARD :: u8 where
  "STANDARD = RELAY OR EMERGENCY"

definition from_bits_truncate :: "u8 \<Rightarrow> u8" where
  "from_bits_truncate b = b AND AUTHORITY"

record membership_certificate =
  mc_member_public_key :: "u8 list"
  mc_callsign :: string
  mc_mesh_id :: string
  mc_issued_at_ms :: u64
  mc_expires_at_ms :: u64
  mc_permissions :: u8
  mc_issuer_public_key :: "u8 list"
  mc_issuer_signature :: "u8 list"

definition certificate_new ::
    "u8 list \<Rightarrow> string \<Rightarrow> string \<Rightarrow> u64 \<Rightarrow> u64 \<Rightarrow> u8 \<Rightarrow> u8 list \<Rightarrow> membership_certificate" where
  "certificate_new member_public_key callsign mesh_id issued_at_ms expires_at_ms permissions issuer_public_key =
     \<lparr>mc_member_public_key = member_public_key, mc_callsign = callsign, mc_mesh_id = mesh_id,
      mc_issued_at_ms = issued_at_ms, mc_expires_at_ms = expires_at_ms, mc_permissions = permissions,
      mc_issuer_public_key = issuer_public_key, mc_issuer_signature = replicate 64 0\<rparr>"

definition signable_bytes :: "membership_certificate \<Rightarrow> u8 list" where
  "signable_bytes self =
     mc_member_public_key self
     @ [word_of_nat (length (mc_callsign self))] @ as_bytes (mc_callsign self)
     @ as_bytes (mc_mesh_id self)
     @ to_le_bytes (mc_issued_at_ms self)
     @ to_le_bytes (mc_expires_at_ms self)
     @ [mc_permissions self]
     @ mc_issuer_public_key self"

definition sign_with :: "('k, 'd) device_crypto \<Rightarrow> 'k \<Rightarrow> membership_certificate \<Rightarrow> membership_certificate" where
  "sign_with C issuer_keypair self = self\<lparr>mc_issuer_signature := kp_sign C issuer_keypair (signable_bytes self)\<rparr>"

definition signed_certificate :: "('k, 'd) device_crypto \<Rightarrow> 'k \<Rightarrow> membership_certificate \<Rightarrow> membership_certificate" where
  "signed_certificate C issuer_keypair self = sign_with C issuer_keypair self"

definition new_root :: "('k, 'd) device_crypto \<Rightarrow> 'k \<Rightarrow> string \<Rightarrow> string \<Rightarrow> u64 \<Rightarrow> u64 \<Rightarrow> membership_certificate" where
  "new_root C authority_keypair callsign mesh_id issued_at_ms expires_at_ms =
     (let public_key = kp_public_key C authority_keypair
      in sign_with C authority_keypair
           (certificate_new public_key callsign mesh_id issued_at_ms expires_at_ms AUTHORITY public_key))"

definition verify_certificate :: "('k, 'd) device_crypto \<Rightarrow> membership_certificate \<Rightarrow> security_error + unit" where
  "verify_certificate C self =
     (case vk_from_bytes C (mc_issuer_public_key self) of
        Some e \<Rightarrow> Inl (SInvalidPublicKey e)
      | None \<Rightarrow>
          (case vk_verify C (mc_issuer_public_key self) (signable_bytes self) (mc_issuer_signature self) of
             Some e \<Rightarrow> Inl (SInvalidSignature e)
           | None \<Rightarrow> Inr ()))"

definition certificate_is_valid :: "u64 \<Rightarrow> membership_certificate \<Rightarrow> bool" where
  "certificate_is_valid now_ms self \<longleftrightarrow>
     (if mc_expires_at_ms self = 0 then True
      else now_ms \<ge> mc_issued_at_ms self \<and> now_ms < mc_expires_at_ms self)"

definition is_in_grace_period :: "u64 \<Rightarrow> u64 \<Rightarrow> membership_certificate \<Rightarrow> bool" where
  "is_in_grace_period now_ms grace_period_ms self \<longleftrightarrow>
     (if mc_expires_at_ms self = 0 then False
      else now_ms \<ge> mc_expires_at_ms self \<and> now_ms < mc_expires_at_ms self + grace_period_ms)"

definition certificate_is_expired :: "u64 \<Rightarrow> u64 \<Rightarrow> membership_certificate \<Rightarrow> bool" where
  "certificate_is_expired now_ms grace_period_ms self \<longleftrightarrow>
     (if mc_expires_at_ms self = 0 then False else now_ms \<ge> mc_expires_at_ms self + grace_period_ms)"

definition encode :: "membership_certificate \<Rightarrow> u8 list" where
  "encode self =
     mc_member_public_key self
     @ [word_of_nat (length (mc_callsign self))]
     @ as_bytes (mc_callsign self)
     @ as_bytes (mc_mesh_id self)
     @ to_le_bytes (mc_issued_at_ms self)
     @ to_le_bytes (mc_expires_at_ms self)
     @ [mc_permissions self]
     @ mc_issuer_public_key self
     @ mc_issuer_signature self"

text \<open>\<open>data[offset..offset + n]\<close>, where the bounds were checked before.\<close>

definition bytes_at :: "nat \<Rightarrow> nat \<Rightarrow> 'a list \<Rightarrow> 'a list" where
  "bytes_at offset n data = take n (drop offset data)"

definition decode :: "u8 list \<Rightarrow> security_error + membership_certificate" where
  "decode data =
     (if length data < CERTIFICATE_BASE_SIZE
      then Inl (SSerializationError (''certificate too short: '' @ display_nat (length data) @
             '' bytes, need at least '' @ display_nat CERTIFICATE_BASE_SIZE))
      else
        let offset = 0; member_public_key = bytes_at offset 32 data; offset = offset + 32;
            callsign_len = unat (data ! offset); offset = offset + 1
        in if callsign_len > MAX_CALLSIGN_LEN
           then Inl (SSerializationError (''callsign too long: '' @ display_nat callsign_len @ '' bytes, max '' @
                  display_nat MAX_CALLSIGN_LEN))
           else if offset + callsign_len > length data then Inl (SSerializationError ''truncated callsign'')
           else case from_utf8 (bytes_at offset callsign_len data) of
             Inl e \<Rightarrow> Inl (SSerializationError (''invalid callsign UTF-8: '' @ display_utf8_error e))
           | Inr callsign \<Rightarrow>
             let offset = offset + callsign_len
             in if offset + MESH_ID_LEN > length data then Inl (SSerializationError ''truncated mesh_id'')
                else case from_utf8 (bytes_at offset MESH_ID_LEN data) of
                  Inl e \<Rightarrow> Inl (SSerializationError (''invalid mesh_id UTF-8: '' @ display_utf8_error e))
                | Inr mesh_id \<Rightarrow>
                  let offset = offset + MESH_ID_LEN
                  in if offset + 8 > length data then Inl (SSerializationError ''truncated issued_at'')
                     else
                       let issued_at_ms = from_le_bytes (bytes_at offset 8 data); offset = offset + 8
                       in if offset + 8 > length data then Inl (SSerializationError ''truncated expires_at'')
                          else
                            let expires_at_ms = from_le_bytes (bytes_at offset 8 data); offset = offset + 8
                            in if offset + 1 > length data then Inl (SSerializationError ''truncated permissions'')
                               else
                                 let permissions = from_bits_truncate (data ! offset); offset = offset + 1
                                 in if offset + 32 > length data
                                    then Inl (SSerializationError ''truncated issuer_public_key'')
                                    else
                                      let issuer_public_key = bytes_at offset 32 data; offset = offset + 32
                                      in if offset + 64 > length data
                                         then Inl (SSerializationError ''truncated signature'')
                                         else Inr \<lparr>mc_member_public_key = member_public_key,
                                                   mc_callsign = callsign, mc_mesh_id = mesh_id,
                                                   mc_issued_at_ms = issued_at_ms, mc_expires_at_ms = expires_at_ms,
                                                   mc_permissions = permissions,
                                                   mc_issuer_public_key = issuer_public_key,
                                                   mc_issuer_signature = bytes_at offset 64 data\<rparr>)"


subsection \<open>The registry\<close>

record certificate_registry =
  cg_by_public_key :: "(u8 list, membership_certificate) hash_map"
  cg_callsign_to_pubkey :: "(string, u8 list) hash_map"

definition registry_new :: certificate_registry where
  "registry_new = \<lparr>cg_by_public_key = [], cg_callsign_to_pubkey = []\<rparr>"

definition register_certificate ::
    "membership_certificate \<Rightarrow> certificate_registry \<Rightarrow> certificate_registry \<times> membership_certificate option" where
  "register_certificate cert self =
     (let pubkey = mc_member_public_key cert; callsign = mc_callsign cert;
          index = (case hm_get (cg_by_public_key self) pubkey of
                     Some old_cert \<Rightarrow> hm_remove (mc_callsign old_cert) (cg_callsign_to_pubkey self)
                   | None \<Rightarrow> cg_callsign_to_pubkey self)
      in (self\<lparr>cg_callsign_to_pubkey := hm_insert callsign pubkey index,
               cg_by_public_key := hm_insert pubkey cert (cg_by_public_key self)\<rparr>,
          hm_get (cg_by_public_key self) pubkey))"

definition get_by_pubkey :: "u8 list \<Rightarrow> certificate_registry \<Rightarrow> membership_certificate option" where
  "get_by_pubkey pubkey self = hm_get (cg_by_public_key self) pubkey"

definition get_by_callsign :: "string \<Rightarrow> certificate_registry \<Rightarrow> membership_certificate option" where
  "get_by_callsign callsign self =
     Option.bind (hm_get (cg_callsign_to_pubkey self) callsign) (hm_get (cg_by_public_key self))"

definition remove_certificate ::
    "u8 list \<Rightarrow> certificate_registry \<Rightarrow> certificate_registry \<times> membership_certificate option" where
  "remove_certificate pubkey self =
     (case hm_get (cg_by_public_key self) pubkey of
        Some cert \<Rightarrow>
          (self\<lparr>cg_by_public_key := hm_remove pubkey (cg_by_public_key self),
                cg_callsign_to_pubkey := hm_remove (mc_callsign cert) (cg_callsign_to_pubkey self)\<rparr>, Some cert)
      | None \<Rightarrow> (self, None))"

definition is_callsign_taken :: "string \<Rightarrow> certificate_registry \<Rightarrow> bool" where
  "is_callsign_taken callsign self = hm_contains_key (cg_callsign_to_pubkey self) callsign"

definition certificates :: "certificate_registry \<Rightarrow> membership_certificate list" where
  "certificates self = map snd (cg_by_public_key self)"

definition remove_expired :: "u64 \<Rightarrow> u64 \<Rightarrow> certificate_registry \<Rightarrow> certificate_registry \<times> nat" where
  "remove_expired now_ms grace_period_ms self =
     (let expired = map fst (filter (\<lambda>(_, cert). certificate_is_expired now_ms grace_period_ms cert) (cg_by_public_key self))
      in (fold (\<lambda>pk s. fst (remove_certificate pk s)) expired self, length expired))"

subsection \<open>Conversion of mesh ids for tokens\<close>

text \<open>
  The mesh id of a certificate is eight hexadecimal digits, that of a token four bytes.
  \<open>u8::from_str_radix\<close> takes an optional plus sign and digits of either case.
\<close>

definition hex_digit :: "u8 \<Rightarrow> nat option" where
  "hex_digit b =
     (if 0x30 \<le> b \<and> b \<le> 0x39 then Some (unat b - 0x30)
      else if 0x41 \<le> b \<and> b \<le> 0x46 then Some (unat b - 0x37)
      else if 0x61 \<le> b \<and> b \<le> 0x66 then Some (unat b - 0x57) else None)"

fun from_str_radix_16 :: "u8 list \<Rightarrow> u8 option" where
  "from_str_radix_16 [a, b] =
     (if a = 0x2B then map_option word_of_nat (hex_digit b)
      else (case (hex_digit a, hex_digit b) of
              (Some x, Some y) \<Rightarrow> Some (word_of_nat (16 * x + y))
            | _ \<Rightarrow> None))"
| "from_str_radix_16 _ = None"

definition hex_byte :: "u8 list \<Rightarrow> u8" where
  "hex_byte chunk =
     (let s = (case from_utf8 chunk of Inr s \<Rightarrow> as_bytes s | Inl _ \<Rightarrow> as_bytes ''00'')
      in (case from_str_radix_16 s of None \<Rightarrow> 0 | Some b \<Rightarrow> b))"

definition hex_to_bytes :: "string \<Rightarrow> u8 list" where
  "hex_to_bytes hex =
     (let bs = as_bytes hex
      in if length bs = 8 then map (\<lambda>i. hex_byte (bytes_at (2 * i) 2 bs)) [0..<4] else [0, 0, 0, 0])"

definition upper_hex_digit :: "nat \<Rightarrow> char" where
  "upper_hex_digit n = ''0123456789ABCDEF'' ! n"

definition mesh_id_hex :: "u8 list \<Rightarrow> string" where
  "mesh_id_hex mesh_id =
     concat (map (\<lambda>b. [upper_hex_digit (unat b div 16), upper_hex_digit (unat b mod 16)]) mesh_id)"


subsection \<open>Wire format\<close>

definition certificate_wf :: "membership_certificate \<Rightarrow> bool" where
  "certificate_wf c \<longleftrightarrow>
     length (mc_member_public_key c) = 32 \<and> length (mc_issuer_public_key c) = 32 \<and>
     length (mc_issuer_signature c) = 64 \<and> length (mc_callsign c) \<le> MAX_CALLSIGN_LEN \<and> valid_utf8 (mc_callsign c) \<and>
     length (mc_mesh_id c) = MESH_ID_LEN \<and> valid_utf8 (mc_mesh_id c) \<and>
     mc_permissions c AND AUTHORITY = mc_permissions c"

lemmas certificate_sizes = CERTIFICATE_BASE_SIZE_def MAX_CALLSIGN_LEN_def MESH_ID_LEN_def

lemma bytes_at_front [simp]: "length xs = n \<Longrightarrow> bytes_at 0 n (xs @ ys) = xs"
  by (simp add: bytes_at_def)

lemma bytes_at_skip: "length xs \<le> k \<Longrightarrow> bytes_at k n (xs @ ys) = bytes_at (k - length xs) n ys"
  by (simp add: bytes_at_def)

lemma bytes_at_Cons: "0 < k \<Longrightarrow> bytes_at k n (x # ys) = bytes_at (k - 1) n ys"
  by (simp add: bytes_at_def drop_Cons')

lemma bytes_at_drop: "a + n \<le> length d \<Longrightarrow> drop a d = bytes_at a n d @ drop (a + n) d \<and> length (bytes_at a n d) = n"
  by (metis (no_types, lifting) add.commute append_take_drop_id drop_drop length_drop length_take le_diff_conv2
      min.absorb2 add_leD1 bytes_at_def)

text \<open>Decoding seven fields of the right lengths, whatever follows them.\<close>

lemma decode_fields:
  assumes "length k = 32" "length cs \<le> 16" "length ms = 8" "length is = 8" "length es = 8" "length ik = 32" "length sg = 64"
  shows "decode (k @ word_of_nat (length cs) # cs @ ms @ is @ es @ p # ik @ sg @ rest) =
    (case from_utf8 cs of
       Inl e \<Rightarrow> Inl (SSerializationError (''invalid callsign UTF-8: '' @ display_utf8_error e))
     | Inr callsign \<Rightarrow>
         (case from_utf8 ms of
            Inl e \<Rightarrow> Inl (SSerializationError (''invalid mesh_id UTF-8: '' @ display_utf8_error e))
          | Inr mesh_id \<Rightarrow>
              Inr \<lparr>mc_member_public_key = k, mc_callsign = callsign, mc_mesh_id = mesh_id,
                   mc_issued_at_ms = from_le_bytes is, mc_expires_at_ms = from_le_bytes es,
                   mc_permissions = from_bits_truncate p, mc_issuer_public_key = ik, mc_issuer_signature = sg\<rparr>))"
proof -
  have n: "unat (word_of_nat (length cs) :: u8) = length cs"
    using assms(2) by (simp add: unat_of_nat)
  show ?thesis
    using assms
    by (simp add: decode_def Let_def certificate_sizes nth_append bytes_at_skip bytes_at_Cons n split: sum.splits)
qed

lemma encode_append:
  "encode c @ rest =
     mc_member_public_key c @ word_of_nat (length (as_bytes (mc_callsign c))) # as_bytes (mc_callsign c)
     @ as_bytes (mc_mesh_id c) @ to_le_bytes (mc_issued_at_ms c) @ to_le_bytes (mc_expires_at_ms c)
     @ mc_permissions c # mc_issuer_public_key c @ mc_issuer_signature c @ rest"
  by (simp add: encode_def)

lemma decode_encode:
  assumes "certificate_wf c" "p AND AUTHORITY = mc_permissions c"
  shows "decode (encode (c\<lparr>mc_permissions := p\<rparr>) @ rest) = Inr c"
proof -
  have "from_utf8 (as_bytes (mc_callsign c)) = Inr (mc_callsign c)" "from_utf8 (as_bytes (mc_mesh_id c)) = Inr (mc_mesh_id c)"
    using assms(1) by (simp_all add: certificate_wf_def from_utf8_as_bytes)
  then show ?thesis
    unfolding encode_append using assms
    by (subst decode_fields) (simp_all add: certificate_wf_def certificate_sizes from_bits_truncate_def)
qed

lemma split_fields:
  assumes "154 + n \<le> length d"
  shows "d = bytes_at 0 32 d @ d ! 32 # bytes_at 33 n d @ bytes_at (33 + n) 8 d @ bytes_at (41 + n) 8 d @ bytes_at (49 + n) 8 d
           @ d ! (57 + n) # bytes_at (58 + n) 32 d @ bytes_at (90 + n) 64 d @ drop (154 + n) d"
proof -
  have part: "drop a d = bytes_at a k d @ drop (a + k) d" if "a + k \<le> 154 + n" for a k
    using bytes_at_drop [of a k d] that assms by simp
  have one: "drop a d = d ! a # drop (Suc a) d" if "a < 154 + n" for a
    using that assms by (simp add: Cons_nth_drop_Suc)
  have "d = bytes_at 0 32 d @ drop 32 d" using part [of 0 32] by simp
  also have "drop 32 d = d ! 32 # drop 33 d" using one [of 32] by simp
  also have "drop 33 d = bytes_at 33 n d @ drop (33 + n) d" by (rule part) simp
  also have "drop (33 + n) d = bytes_at (33 + n) 8 d @ drop (41 + n) d" using part [of "33 + n" 8] by simp
  also have "drop (41 + n) d = bytes_at (41 + n) 8 d @ drop (49 + n) d" using part [of "41 + n" 8] by simp
  also have "drop (49 + n) d = bytes_at (49 + n) 8 d @ drop (57 + n) d" using part [of "49 + n" 8] by simp
  also have "drop (57 + n) d = d ! (57 + n) # drop (58 + n) d" using one [of "57 + n"] by simp
  also have "drop (58 + n) d = bytes_at (58 + n) 32 d @ drop (90 + n) d" using part [of "58 + n" 32] by simp
  also have "drop (90 + n) d = bytes_at (90 + n) 64 d @ drop (154 + n) d" using part [of "90 + n" 64] by simp
  finally show ?thesis .
qed

lemma decode_Inr:
  assumes "decode d = Inr c"
  shows "certificate_wf c \<and> (\<exists>p rest. d = encode (c\<lparr>mc_permissions := p\<rparr>) @ rest \<and> p AND AUTHORITY = mc_permissions c)"
proof -
  define n where "n = unat (d ! 32)"
  have len: "154 + n \<le> length d" and small: "n \<le> 16"
    using assms by (auto simp: decode_def Let_def certificate_sizes n_def split: if_splits sum.splits)
  have w: "word_of_nat (length (bytes_at 33 n d)) = d ! 32"
    using bytes_at_drop [of 33 n d] len by (simp add: n_def)
  have sizes: "length (bytes_at a k d) = k" if "a + k \<le> 154 + n" for a k
    using bytes_at_drop [of a k d] len that by simp
  note fields = split_fields [OF len, folded w]
  from assms have "decode (bytes_at 0 32 d @ word_of_nat (length (bytes_at 33 n d)) # bytes_at 33 n d @ bytes_at (33 + n) 8 d
      @ bytes_at (41 + n) 8 d @ bytes_at (49 + n) 8 d @ d ! (57 + n) # bytes_at (58 + n) 32 d @ bytes_at (90 + n) 64 d
      @ drop (154 + n) d) = Inr c"
    unfolding fields [symmetric] .
  then obtain cs ms where u: "from_utf8 (bytes_at 33 n d) = Inr cs" "from_utf8 (bytes_at (33 + n) 8 d) = Inr ms"
    and c: "c = \<lparr>mc_member_public_key = bytes_at 0 32 d, mc_callsign = cs, mc_mesh_id = ms,
      mc_issued_at_ms = from_le_bytes (bytes_at (41 + n) 8 d), mc_expires_at_ms = from_le_bytes (bytes_at (49 + n) 8 d),
      mc_permissions = from_bits_truncate (d ! (57 + n)), mc_issuer_public_key = bytes_at (58 + n) 32 d,
      mc_issuer_signature = bytes_at (90 + n) 64 d\<rparr>"
    by (subst (asm) decode_fields) (auto simp: sizes small split: sum.splits)
  have b: "as_bytes cs = bytes_at 33 n d" "as_bytes ms = bytes_at (33 + n) 8 d" "valid_utf8 cs" "valid_utf8 ms"
    using u by (simp_all add: from_utf8_Inr)
  have "length (as_bytes cs) = n" "length (as_bytes ms) = 8"
    unfolding b by (simp_all add: sizes)
  then have "length cs = n" "length ms = 8" by simp_all
  then have wf: "certificate_wf c"
    using b small by (simp add: c certificate_wf_def certificate_sizes sizes from_bits_truncate_def)
  have "d = encode (c\<lparr>mc_permissions := d ! (57 + n)\<rparr>) @ drop (154 + n) d"
    unfolding encode_append using fields b sizes by (simp add: c to_from_le_bytes)
  with wf show ?thesis by (auto simp: c from_bits_truncate_def)
qed

text \<open>
  C6. The wire format of certificates is exact: decoding yields a certificate exactly when the bytes are
  the encoding of it, up to unknown permission bits, which are dropped, followed by anything. What
  is decoded is always well formed: lengths, UTF-8 and permission bits are in range.
\<close>

theorem certificate_wire_format:
  "decode data = Inr c \<longleftrightarrow>
     certificate_wf c \<and> (\<exists>p rest. data = encode (c\<lparr>mc_permissions := p\<rparr>) @ rest \<and> p AND AUTHORITY = mc_permissions c)"
  using decode_Inr decode_encode by blast


subsection \<open>Signatures\<close>

lemma append_eq_same_length: "length xs = length ys \<Longrightarrow> xs @ us = ys @ vs \<longleftrightarrow> xs = ys \<and> us = vs"
  by simp

text \<open>
  C35. The signed bytes determine the certificate: two certificates whose callsigns are shorter than 256
  bytes and whose signed bytes coincide agree in every field but the signature. No signature can be
  moved to another key, callsign, mesh, validity period or set of permissions.
\<close>

theorem signed_bytes_determine_certificate:
  assumes "length (mc_member_public_key c) = 32" "length (mc_member_public_key d) = 32"
    and "length (mc_issuer_public_key c) = 32" "length (mc_issuer_public_key d) = 32"
    and "length (mc_callsign c) < 256" "length (mc_callsign d) < 256"
    and "signable_bytes c = signable_bytes d"
  shows "d = c\<lparr>mc_issuer_signature := mc_issuer_signature d\<rparr>"
proof -
  let ?tail = "\<lambda>c. as_bytes (mc_callsign c) @ as_bytes (mc_mesh_id c) @ to_le_bytes (mc_issued_at_ms c)
     @ to_le_bytes (mc_expires_at_ms c) @ mc_permissions c # mc_issuer_public_key c"
  have key: "mc_member_public_key c = mc_member_public_key d"
    and n: "(word_of_nat (length (mc_callsign c)) :: u8) = word_of_nat (length (mc_callsign d))" and tail: "?tail c = ?tail d"
    using assms(1,2,7) by (simp_all add: signable_bytes_def)
  have "length (mc_callsign c) = length (mc_callsign d)"
    using arg_cong [OF n, of unat] assms(5,6) by (simp add: unat_of_nat)
  then have cs: "mc_callsign c = mc_callsign d" and t2: "as_bytes (mc_mesh_id c) @ to_le_bytes (mc_issued_at_ms c)
      @ to_le_bytes (mc_expires_at_ms c) @ mc_permissions c # mc_issuer_public_key c =
      as_bytes (mc_mesh_id d) @ to_le_bytes (mc_issued_at_ms d)
      @ to_le_bytes (mc_expires_at_ms d) @ mc_permissions d # mc_issuer_public_key d"
    using tail by (simp_all add: append_eq_same_length)
  have "length (mc_mesh_id c) = length (mc_mesh_id d)"
    using arg_cong [OF t2, of length] assms(3,4) by simp
  with t2 have "mc_mesh_id c = mc_mesh_id d \<and> mc_issued_at_ms c = mc_issued_at_ms d \<and>
      mc_expires_at_ms c = mc_expires_at_ms d \<and> mc_permissions c = mc_permissions d \<and>
      mc_issuer_public_key c = mc_issuer_public_key d"
    by (simp add: append_eq_same_length to_le_bytes_inj)
  with key cs show ?thesis by simp
qed

definition example_certificate :: "u8 \<Rightarrow> string \<Rightarrow> membership_certificate" where
  "example_certificate k callsign =
     certificate_new (replicate 32 k) callsign ''A1B2C3D4'' 1000 5000 STANDARD (replicate 32 7)"

theorem signed_bytes_determine_certificate_witness:
  "signable_bytes (example_certificate 1 ''ALPHA-01'') \<noteq> signable_bytes (example_certificate 1 ''ALPHA-02'')"
proof
  assume "signable_bytes (example_certificate 1 ''ALPHA-01'') = signable_bytes (example_certificate 1 ''ALPHA-02'')"
  then have "example_certificate 1 ''ALPHA-02'' = (example_certificate 1 ''ALPHA-01'')\<lparr>mc_issuer_signature :=
      mc_issuer_signature (example_certificate 1 ''ALPHA-02'')\<rparr>"
    by (intro signed_bytes_determine_certificate) (simp_all add: example_certificate_def certificate_new_def)
  then show False by (simp add: example_certificate_def certificate_new_def)
qed

text \<open>
  A certificate issued by an authority survives the wire and verifies: signed with the key it names
  as issuer, encoded and decoded, it comes back unchanged and its signature is accepted.
\<close>

theorem issued_certificate_verifies:
  assumes "signatures_verify C" "mc_issuer_public_key c = kp_public_key C k" "certificate_wf c"
  shows "decode (encode (signed_certificate C k c)) = Inr (signed_certificate C k c)
         \<and> verify_certificate C (signed_certificate C k c) = Inr ()"
proof -
  let ?s = "signed_certificate C k c"
  have "signable_bytes ?s = signable_bytes c"
    by (simp add: signed_certificate_def sign_with_def signable_bytes_def)
  with assms(1,2) have "verify_certificate C ?s = Inr ()"
    by (simp add: verify_certificate_def signatures_verify_def signed_certificate_def sign_with_def)
  moreover have "certificate_wf ?s"
    using assms by (simp add: certificate_wf_def signatures_verify_def signed_certificate_def sign_with_def)
  then have "decode (encode ?s) = Inr ?s"
    using decode_encode [of ?s "mc_permissions ?s" "[]"] by (simp add: certificate_wf_def)
  ultimately show ?thesis by simp
qed

lemma example_certificate_wf: "certificate_wf (example_certificate k ''ALPHA-01'')"
  by (simp add: certificate_wf_def example_certificate_def certificate_new_def certificate_sizes valid_utf8_def
      as_bytes_def byte_of_char_def utf8_width_def STANDARD_def RELAY_def EMERGENCY_def AUTHORITY_def ENROLL_def ADMIN_def)

theorem issued_certificate_verifies_witness:
  "verify_certificate example_crypto (signed_certificate example_crypto 7 (example_certificate 1 ''ALPHA-01'')) = Inr ()"
proof -
  have "mc_issuer_public_key (example_certificate 1 ''ALPHA-01'') = kp_public_key example_crypto 7"
    by (simp add: example_certificate_def certificate_new_def example_crypto_def)
  from issued_certificate_verifies [OF example_crypto_verifies this example_certificate_wf] show ?thesis by blast
qed


subsection \<open>The registry's index\<close>

text \<open>The callsign index points to registered certificates that carry the callsign.\<close>

definition registry_wf :: "certificate_registry \<Rightarrow> bool" where
  "registry_wf r \<longleftrightarrow>
     hm_wf (cg_by_public_key r) \<and> hm_wf (cg_callsign_to_pubkey r) \<and>
     (\<forall>pk c. hm_get (cg_by_public_key r) pk = Some c \<longrightarrow> mc_member_public_key c = pk) \<and>
     (\<forall>cs pk. hm_get (cg_callsign_to_pubkey r) cs = Some pk \<longrightarrow>
        (\<exists>c. hm_get (cg_by_public_key r) pk = Some c \<and> mc_callsign c = cs))"

text \<open>Every registered certificate is found under its callsign.\<close>

definition index_complete :: "certificate_registry \<Rightarrow> bool" where
  "index_complete r \<longleftrightarrow>
     (\<forall>pk c. hm_get (cg_by_public_key r) pk = Some c \<longrightarrow> hm_get (cg_callsign_to_pubkey r) (mc_callsign c) = Some pk)"

lemma registry_wf_new: "registry_wf registry_new" "index_complete registry_new"
  by (simp_all add: registry_wf_def index_complete_def registry_new_def)

lemma register_fields:
  "cg_by_public_key (fst (register_certificate c r)) = hm_insert (mc_member_public_key c) c (cg_by_public_key r)"
  "hm_get (cg_callsign_to_pubkey (fst (register_certificate c r))) cs =
     (if cs = mc_callsign c then Some (mc_member_public_key c)
      else if \<exists>old. hm_get (cg_by_public_key r) (mc_member_public_key c) = Some old \<and> mc_callsign old = cs then None
      else hm_get (cg_callsign_to_pubkey r) cs)"
  by (auto simp: register_certificate_def Let_def split: option.splits)

lemma registry_wf_register: "registry_wf r \<Longrightarrow> registry_wf (fst (register_certificate c r))"
proof -
  assume wf: "registry_wf r"
  have "hm_wf (cg_callsign_to_pubkey (fst (register_certificate c r)))"
    using wf by (auto simp: registry_wf_def register_certificate_def Let_def split: option.splits)
  moreover have "\<exists>d. hm_get (hm_insert (mc_member_public_key c) c (cg_by_public_key r)) pk = Some d \<and> mc_callsign d = cs"
    if "hm_get (cg_callsign_to_pubkey (fst (register_certificate c r))) cs = Some pk" for cs pk
    using that wf by (fastforce simp: register_fields registry_wf_def split: if_splits)
  ultimately show ?thesis
    using wf by (auto simp: registry_wf_def register_fields(1))
qed

lemma index_complete_register:
  assumes "registry_wf r" "index_complete r"
    and "hm_get (cg_callsign_to_pubkey r) (mc_callsign c) \<in> {None, Some (mc_member_public_key c)}"
  shows "index_complete (fst (register_certificate c r))"
  unfolding index_complete_def
proof (intro allI impI)
  fix pk d
  assume "hm_get (cg_by_public_key (fst (register_certificate c r))) pk = Some d"
  then consider "pk = mc_member_public_key c" "d = c"
    | "pk \<noteq> mc_member_public_key c" "hm_get (cg_by_public_key r) pk = Some d"
    by (auto simp: register_fields(1) split: if_splits)
  then show "hm_get (cg_callsign_to_pubkey (fst (register_certificate c r))) (mc_callsign d) = Some pk"
  proof cases
    case 1
    then show ?thesis by (simp add: register_fields(2))
  next
    case 2
    then have idx: "hm_get (cg_callsign_to_pubkey r) (mc_callsign d) = Some pk"
      using assms(2) by (simp add: index_complete_def)
    moreover from idx 2 assms(3) have "mc_callsign d \<noteq> mc_callsign c" by auto
    moreover have "\<not> (\<exists>old. hm_get (cg_by_public_key r) (mc_member_public_key c) = Some old \<and> mc_callsign old = mc_callsign d)"
    proof clarify
      fix old
      assume old: "hm_get (cg_by_public_key r) (mc_member_public_key c) = Some old" "mc_callsign old = mc_callsign d"
      then have "hm_get (cg_callsign_to_pubkey r) (mc_callsign d) = Some (mc_member_public_key c)"
        using assms(2) unfolding index_complete_def by metis
      with idx 2 show False by simp
    qed
    ultimately show ?thesis by (simp add: register_fields(2))
  qed
qed

lemma remove_fields:
  "hm_get (cg_by_public_key (fst (remove_certificate pk r))) = (hm_get (cg_by_public_key r))(pk := None)"
  "hm_get (cg_callsign_to_pubkey (fst (remove_certificate pk r))) =
     (case hm_get (cg_by_public_key r) pk of
        Some c \<Rightarrow> (hm_get (cg_callsign_to_pubkey r))(mc_callsign c := None)
      | None \<Rightarrow> hm_get (cg_callsign_to_pubkey r))"
  by (auto simp: remove_certificate_def split: option.splits)

lemma registry_wf_remove:
  assumes "registry_wf r"
  shows "registry_wf (fst (remove_certificate pk r))"
proof -
  have "hm_wf (cg_by_public_key (fst (remove_certificate pk r)))" "hm_wf (cg_callsign_to_pubkey (fst (remove_certificate pk r)))"
    using assms by (auto simp: registry_wf_def remove_certificate_def split: option.splits)
  moreover have "\<exists>c. ((hm_get (cg_by_public_key r))(pk := None)) pk' = Some c \<and> mc_callsign c = cs"
    if idx: "hm_get (cg_callsign_to_pubkey (fst (remove_certificate pk r))) cs = Some pk'" for cs pk'
  proof -
    have old: "hm_get (cg_callsign_to_pubkey r) cs = Some pk'"
      using idx by (auto simp: remove_fields split: option.splits if_splits)
    then obtain c where c: "hm_get (cg_by_public_key r) pk' = Some c" "mc_callsign c = cs"
      using assms unfolding registry_wf_def by blast
    with idx have "pk' \<noteq> pk" by (auto simp: remove_fields)
    with c show ?thesis by simp
  qed
  ultimately show ?thesis
    using assms by (simp add: registry_wf_def remove_fields(1))
qed

lemma index_complete_remove:
  assumes "registry_wf r" "index_complete r"
  shows "index_complete (fst (remove_certificate pk r))"
  unfolding index_complete_def remove_fields
proof (intro allI impI)
  fix pk' c
  assume "((hm_get (cg_by_public_key r))(pk := None)) pk' = Some c"
  then have c: "pk' \<noteq> pk" "hm_get (cg_by_public_key r) pk' = Some c" by (simp_all split: if_splits)
  then have idx: "hm_get (cg_callsign_to_pubkey r) (mc_callsign c) = Some pk'"
    using assms(2) by (simp add: index_complete_def)
  show "(case hm_get (cg_by_public_key r) pk of
           Some c \<Rightarrow> (hm_get (cg_callsign_to_pubkey r))(mc_callsign c := None)
         | None \<Rightarrow> hm_get (cg_callsign_to_pubkey r)) (mc_callsign c) = Some pk'"
  proof (cases "hm_get (cg_by_public_key r) pk")
    case (Some d)
    then have "hm_get (cg_callsign_to_pubkey r) (mc_callsign d) = Some pk"
      using assms(2) by (simp add: index_complete_def)
    with idx c(1) have "mc_callsign c \<noteq> mc_callsign d" by auto
    with Some idx show ?thesis by simp
  qed (simp add: idx)
qed

lemma registry_wf_remove_all:
  "registry_wf r \<Longrightarrow> registry_wf (fold (\<lambda>pk s. fst (remove_certificate pk s)) pks r)"
  "registry_wf r \<Longrightarrow> index_complete r \<Longrightarrow> index_complete (fold (\<lambda>pk s. fst (remove_certificate pk s)) pks r)"
  by (induction pks arbitrary: r) (simp_all add: registry_wf_remove index_complete_remove)

inductive registry_step :: "certificate_registry \<Rightarrow> certificate_registry \<Rightarrow> bool" where
  register: "registry_step r (fst (register_certificate c r))"
| remove: "registry_step r (fst (remove_certificate pk r))"
| expire: "registry_step r (fst (remove_expired now grace r))"

lemma registry_step_wf: "registry_step r r' \<Longrightarrow> registry_wf r \<Longrightarrow> registry_wf r'"
  by (erule registry_step.cases)
     (simp_all add: registry_wf_register registry_wf_remove remove_expired_def Let_def registry_wf_remove_all)

text \<open>
  Lookups by callsign are sound: along every run of the registry, the certificate found under a
  callsign carries that callsign and is the one registered for its own public key.
\<close>

theorem callsign_lookup_sound:
  assumes "registry_step\<^sup>*\<^sup>* registry_new r" "get_by_callsign cs r = Some c"
  shows "mc_callsign c = cs \<and> get_by_pubkey (mc_member_public_key c) r = Some c"
proof -
  from assms(1) have "registry_wf r"
    by induction (simp_all add: registry_wf_new registry_step_wf)
  with assms(2) show ?thesis
    unfolding registry_wf_def get_by_callsign_def get_by_pubkey_def by (force simp: bind_eq_Some_conv)
qed

theorem callsign_lookup_sound_witness:
  "get_by_pubkey (replicate 32 1) (fst (register_certificate (example_certificate 1 ''ALPHA-01'') registry_new)) =
     Some (example_certificate 1 ''ALPHA-01'')"
proof -
  let ?c = "example_certificate 1 ''ALPHA-01''" and ?r = "fst (register_certificate (example_certificate 1 ''ALPHA-01'') registry_new)"
  have "registry_step\<^sup>*\<^sup>* registry_new ?r" by (intro r_into_rtranclp registry_step.register)
  moreover have "get_by_callsign ''ALPHA-01'' ?r = Some ?c"
    by (simp add: get_by_callsign_def register_certificate_def registry_new_def example_certificate_def certificate_new_def Let_def)
  ultimately have "get_by_pubkey (mc_member_public_key ?c) ?r = Some ?c"
    using callsign_lookup_sound by blast
  then show ?thesis by (simp add: example_certificate_def certificate_new_def)
qed

text \<open>
  A reused callsign hides its holder: when a second member registers a callsign in use and the first
  one's certificate is then removed, the second is registered but cannot be found by callsign, and
  the callsign counts as free, even if the index was complete before.
\<close>

theorem reused_callsign_hides_member:
  assumes "registry_wf r" "index_complete r" "hm_get (cg_by_public_key r) pk1 = Some c1" "mc_callsign c2 = mc_callsign c1"
    and "mc_member_public_key c2 \<noteq> pk1"
    and "r' = fst (remove_certificate pk1 (fst (register_certificate c2 r)))"
  shows "get_by_pubkey (mc_member_public_key c2) r' = Some c2
         \<and> get_by_callsign (mc_callsign c2) r' = None \<and> \<not> is_callsign_taken (mc_callsign c2) r'"
proof -
  have "hm_get (cg_by_public_key (fst (register_certificate c2 r))) pk1 = Some c1"
    using assms(3,5) by (simp add: register_fields(1))
  then have "hm_get (cg_callsign_to_pubkey r') (mc_callsign c2) = None"
    using assms(4,6) by (simp add: remove_fields(2))
  moreover have "hm_get (cg_by_public_key r') (mc_member_public_key c2) = Some c2"
    using assms(5,6) by (simp add: remove_fields(1) register_fields(1))
  ultimately show ?thesis
    by (simp add: get_by_pubkey_def get_by_callsign_def is_callsign_taken_def hm_contains_key_def)
qed

theorem reused_callsign_hides_member_witness:
  "let r = fst (register_certificate (example_certificate 1 ''ALPHA-01'') registry_new);
       r' = fst (remove_certificate (replicate 32 1) (fst (register_certificate (example_certificate 2 ''ALPHA-01'') r)))
   in get_by_pubkey (replicate 32 2) r' = Some (example_certificate 2 ''ALPHA-01'') \<and> get_by_callsign ''ALPHA-01'' r' = None"
proof -
  let ?r = "fst (register_certificate (example_certificate 1 ''ALPHA-01'') registry_new)"
  have "registry_wf ?r" "index_complete ?r"
    by (intro registry_wf_register registry_wf_new index_complete_register; simp add: registry_new_def)+
  moreover have "hm_get (cg_by_public_key ?r) (replicate 32 1) = Some (example_certificate 1 ''ALPHA-01'')"
    by (simp add: register_fields(1) example_certificate_def certificate_new_def)
  ultimately show ?thesis
    using reused_callsign_hides_member [of ?r "replicate 32 1" "example_certificate 1 ''ALPHA-01''"
        "example_certificate 2 ''ALPHA-01''", OF _ _ _ _ _ refl]
    by (simp add: Let_def example_certificate_def certificate_new_def)
qed

end
