(* ===== verification/Auth_State.thy ===== *)
theory Auth_State
  imports Membership
begin

text \<open>
  The expiry tracker of certificates, \<open>peat-protocol/src/security/auth_state.rs\<close>: a certificate passes
  from valid over a warning window and a grace period to expired, and a monitor reports the
  transitions it sees. Times are \<open>u64\<close> milliseconds.
\<close>


subsection \<open>States and tracker\<close>

datatype certificate_state = CsValid u64 | CsWarning u64 | CsGracePeriod u64 | CsExpired

fun state_is_operational :: "certificate_state \<Rightarrow> bool" where
  "state_is_operational CsExpired = False"
| "state_is_operational _ = True"

fun should_reauth :: "certificate_state \<Rightarrow> bool" where
  "should_reauth (CsWarning _) = True"
| "should_reauth (CsGracePeriod _) = True"
| "should_reauth _ = False"

fun state_is_expired :: "certificate_state \<Rightarrow> bool" where
  "state_is_expired CsExpired = True"
| "state_is_expired _ = False"

record auth_config =
  auth_interval_hours :: u16
  grace_period_hours :: u16
  warning_threshold_hours :: u16

definition auth_config_default :: auth_config where
  "auth_config_default = \<lparr>auth_interval_hours = 24, grace_period_hours = 4, warning_threshold_hours = 1\<rparr>"

definition grace_period_ms :: "auth_config \<Rightarrow> u64" where
  "grace_period_ms self = ucast (grace_period_hours self) * 3600000"

definition warning_threshold_ms :: "auth_config \<Rightarrow> u64" where
  "warning_threshold_ms self = ucast (warning_threshold_hours self) * 3600000"

text \<open>The tracker is its configuration.\<close>

definition check_state :: "auth_config \<Rightarrow> membership_certificate \<Rightarrow> u64 \<Rightarrow> certificate_state" where
  "check_state config cert now_ms =
     (let expires_at = mc_expires_at_ms cert
      in if now_ms < expires_at
         then (let expires_in_ms = expires_at - now_ms
               in if expires_in_ms \<le> warning_threshold_ms config then CsWarning expires_in_ms else CsValid expires_in_ms)
         else (let expired_for_ms = now_ms - expires_at
               in if expired_for_ms < grace_period_ms config
                  then CsGracePeriod (grace_period_ms config - expired_for_ms)
                  else CsExpired))"

definition needs_reauth :: "auth_config \<Rightarrow> membership_certificate \<Rightarrow> u64 \<Rightarrow> bool" where
  "needs_reauth config cert now_ms = should_reauth (check_state config cert now_ms)"

definition is_operational :: "auth_config \<Rightarrow> membership_certificate \<Rightarrow> u64 \<Rightarrow> bool" where
  "is_operational config cert now_ms = state_is_operational (check_state config cert now_ms)"

definition tracker_is_expired :: "auth_config \<Rightarrow> membership_certificate \<Rightarrow> u64 \<Rightarrow> bool" where
  "tracker_is_expired config cert now_ms = state_is_expired (check_state config cert now_ms)"

text \<open>\<open>u64\<close> subtraction and addition that stop at the ends of the range.\<close>

definition sat_sub :: "u64 \<Rightarrow> u64 \<Rightarrow> u64" where
  "sat_sub a b = (if b \<le> a then a - b else 0)"

definition sat_add :: "u64 \<Rightarrow> u64 \<Rightarrow> u64" where
  "sat_add a b = (if unat a + unat b < 2 ^ 64 then a + b else - 1)"

definition reauth_deadline :: "auth_config \<Rightarrow> membership_certificate \<Rightarrow> u64" where
  "reauth_deadline config cert = sat_sub (mc_expires_at_ms cert) (warning_threshold_ms config)"

definition hard_cutoff :: "auth_config \<Rightarrow> membership_certificate \<Rightarrow> u64" where
  "hard_cutoff config cert = sat_add (mc_expires_at_ms cert) (grace_period_ms config)"


subsection \<open>The monitor\<close>

datatype auth_state_event =
  EnteringWarning u64 | EnteringGracePeriod u64 | ExpiredEvent | Renewed u64

record auth_state_monitor =
  am_tracker :: auth_config
  am_last_state :: "certificate_state option"

definition monitor_new :: "auth_config \<Rightarrow> auth_state_monitor" where
  "monitor_new tracker = \<lparr>am_tracker = tracker, am_last_state = None\<rparr>"

definition transition_event :: "certificate_state option \<Rightarrow> certificate_state \<Rightarrow> auth_state_event option" where
  "transition_event last_state new_state =
     (case (last_state, new_state) of
        (Some (CsValid _), CsWarning expires_in_ms) \<Rightarrow> Some (EnteringWarning expires_in_ms)
      | (None, CsWarning expires_in_ms) \<Rightarrow> Some (EnteringWarning expires_in_ms)
      | (Some (CsWarning _), CsGracePeriod grace_remaining_ms) \<Rightarrow> Some (EnteringGracePeriod grace_remaining_ms)
      | (Some state, CsExpired) \<Rightarrow> (if state \<noteq> CsExpired then Some ExpiredEvent else None)
      | _ \<Rightarrow> None)"

definition monitor_update ::
    "membership_certificate \<Rightarrow> u64 \<Rightarrow> auth_state_monitor \<Rightarrow> auth_state_monitor \<times> auth_state_event option" where
  "monitor_update cert now_ms self =
     (let new_state = check_state (am_tracker self) cert now_ms
      in (self\<lparr>am_last_state := Some new_state\<rparr>, transition_event (am_last_state self) new_state))"

definition notify_renewed :: "membership_certificate \<Rightarrow> auth_state_monitor \<Rightarrow> auth_state_monitor \<times> auth_state_event" where
  "notify_renewed new_cert self =
     (self\<lparr>am_last_state := Some (CsValid (mc_expires_at_ms new_cert))\<rparr>, Renewed (mc_expires_at_ms new_cert))"


subsection \<open>The timeline\<close>

lemma hours_ms: "unat (ucast (h :: u16) * 3600000 :: u64) = unat h * 3600000"
proof -
  have "unat h < 65536" using unsigned_less [of h, where ?'a = nat] by simp
  then have "unat h * 3600000 < 2 ^ 64" by simp
  then show ?thesis
    by (simp add: unat_word_ariths unsigned_ucast_eq take_bit_nat_eq_self)
qed

lemma config_ms:
  "unat (warning_threshold_ms config) = unat (warning_threshold_hours config) * 3600000"
  "unat (grace_period_ms config) = unat (grace_period_hours config) * 3600000"
  by (simp_all add: warning_threshold_ms_def grace_period_ms_def hours_ms)

lemma check_state_nat:
  "check_state config cert now =
     (let e = mc_expires_at_ms cert
      in if unat now + unat (warning_threshold_hours config) * 3600000 < unat e then CsValid (e - now)
         else if unat now < unat e then CsWarning (e - now)
         else if unat now < unat e + unat (grace_period_hours config) * 3600000
         then CsGracePeriod (grace_period_ms config - (now - e)) else CsExpired)"
proof -
  define e where "e = mc_expires_at_ms cert"
  have sub: "unat (a - b) = unat a - unat b" if "b \<le> a" for a b :: u64
    using that by (simp add: unat_sub)
  show ?thesis
  proof (cases "now < e")
    case True
    have "unat (e - now) = unat e - unat now" using True by (simp add: sub less_imp_le)
    moreover have "unat now < unat e" using True by (simp add: word_less_nat_alt)
    ultimately show ?thesis
      using True by (auto simp: Let_def check_state_def word_le_nat_alt config_ms e_def [symmetric])
  next
    case False
    have "unat (now - e) = unat now - unat e" using False by (simp add: sub)
    moreover have "unat e \<le> unat now" using False by (simp add: word_less_nat_alt)
    ultimately show ?thesis
      using False by (auto simp: Let_def check_state_def word_less_nat_alt config_ms e_def [symmetric])
  qed
qed

lemma operational_nat:
  "is_operational config cert now \<longleftrightarrow>
     unat now < unat (mc_expires_at_ms cert) + unat (grace_period_hours config) * 3600000"
  by (auto simp: is_operational_def check_state_nat Let_def)

lemma tracker_expired_nat:
  "tracker_is_expired config cert now \<longleftrightarrow>
     unat (mc_expires_at_ms cert) + unat (grace_period_hours config) * 3600000 \<le> unat now"
  by (auto simp: tracker_is_expired_def check_state_nat Let_def)


subsection \<open>Two notions of expiry\<close>

lemma unat_add_no_overflow: "unat a + unat b < 2 ^ 64 \<Longrightarrow> unat (a + b) = unat a + unat (b :: u64)"
  by (simp add: unat_word_ariths)

text \<open>
  The tracker and the certificate's own checks agree on expiry and grace for every certificate that
  expires and whose cutoff fits in 64 bits. They disagree on a certificate without expiry: it says
  of itself that it is valid for ever, and the tracker treats it as expired once the clock has
  passed the grace period.
\<close>

theorem expiry_checks_agree:
  assumes "unat (mc_expires_at_ms cert) + unat (grace_period_hours config) * 3600000 < 2 ^ 64"
  shows "if mc_expires_at_ms cert \<noteq> 0
         then tracker_is_expired config cert now = certificate_is_expired now (grace_period_ms config) cert
              \<and> (\<exists>t. check_state config cert now = CsGracePeriod t) = is_in_grace_period now (grace_period_ms config) cert
         else certificate_is_valid now cert \<and> \<not> certificate_is_expired now (grace_period_ms config) cert
              \<and> tracker_is_expired config cert now = (grace_period_ms config \<le> now)"
proof -
  have "unat (mc_expires_at_ms cert + grace_period_ms config) =
      unat (mc_expires_at_ms cert) + unat (grace_period_hours config) * 3600000"
    using assms by (simp add: unat_add_no_overflow config_ms)
  then show ?thesis
    by (auto simp: tracker_expired_nat check_state_nat certificate_is_expired_def is_in_grace_period_def
        certificate_is_valid_def word_le_nat_alt word_less_nat_alt Let_def config_ms)
qed

theorem expiry_checks_agree_witness:
  "certificate_is_valid 20000000 ((example_certificate 1 ''ALPHA-01'')\<lparr>mc_expires_at_ms := 0\<rparr>)
   \<and> tracker_is_expired auth_config_default ((example_certificate 1 ''ALPHA-01'')\<lparr>mc_expires_at_ms := 0\<rparr>) 20000000"
  using expiry_checks_agree [of "(example_certificate 1 ''ALPHA-01'')\<lparr>mc_expires_at_ms := 0\<rparr>" auth_config_default 20000000]
  by (simp add: auth_config_default_def grace_period_ms_def)


subsection \<open>What the monitor reports\<close>

fun monitor_run :: "membership_certificate \<Rightarrow> u64 list \<Rightarrow> auth_state_monitor \<Rightarrow> auth_state_event list" where
  "monitor_run cert [] m = []"
| "monitor_run cert (t # ts) m =
     (let (m', e) = monitor_update cert t m in (case e of None \<Rightarrow> [] | Some ev \<Rightarrow> [ev]) @ monitor_run cert ts m')"

lemma monitor_run_Cons [simp]:
  "monitor_run cert (t # ts) m =
     (case transition_event (am_last_state m) (check_state (am_tracker m) cert t) of None \<Rightarrow> [] | Some ev \<Rightarrow> [ev])
     @ monitor_run cert ts (m\<lparr>am_last_state := Some (check_state (am_tracker m) cert t)\<rparr>)"
  by (simp add: monitor_update_def Let_def)

declare monitor_run.simps(2) [simp del]

lemma monitor_run_append:
  "monitor_run cert (ts @ us) m =
     monitor_run cert ts m
     @ monitor_run cert us (if ts = [] then m else m\<lparr>am_last_state := Some (check_state (am_tracker m) cert (last ts))\<rparr>)"
  by (induction ts arbitrary: m) auto

text \<open>Polls that see one kind of state only report at most when they are first.\<close>

fun same_kind :: "certificate_state \<Rightarrow> certificate_state \<Rightarrow> bool" where
  "same_kind (CsValid _) (CsValid _) = True"
| "same_kind (CsWarning _) (CsWarning _) = True"
| "same_kind (CsGracePeriod _) (CsGracePeriod _) = True"
| "same_kind CsExpired CsExpired = True"
| "same_kind _ _ = False"

lemma same_kind_silent: "same_kind a b \<Longrightarrow> transition_event (Some a) b = None"
  by (cases a; cases b) (simp_all add: transition_event_def)

lemma same_kind_trans: "same_kind a b \<Longrightarrow> same_kind a c \<Longrightarrow> same_kind b c"
  by (cases a; cases b; cases c) simp_all

lemma monitor_run_silent:
  "am_last_state m = Some a \<Longrightarrow> \<forall>t \<in> set ts. same_kind a (check_state (am_tracker m) cert t) \<Longrightarrow> monitor_run cert ts m = []"
proof (induction ts arbitrary: m a)
  case (Cons t ts)
  then have "monitor_run cert ts (m\<lparr>am_last_state := Some (check_state (am_tracker m) cert t)\<rparr>) = []"
    by (intro Cons.IH) (auto intro: same_kind_trans)
  then show ?case using Cons.prems by (simp add: same_kind_silent)
qed simp

lemma monitor_run_phase:
  assumes "\<forall>t \<in> set ts. same_kind a (check_state (am_tracker m) cert t)"
  shows "monitor_run cert ts m =
    (if ts = [] then []
     else case transition_event (am_last_state m) (check_state (am_tracker m) cert (hd ts)) of None \<Rightarrow> [] | Some ev \<Rightarrow> [ev])"
proof (cases ts)
  case (Cons t us)
  let ?m = "m\<lparr>am_last_state := Some (check_state (am_tracker m) cert t)\<rparr>"
  have "monitor_run cert us ?m = []"
    using assms Cons by (intro monitor_run_silent) (auto intro: same_kind_trans)
  then show ?thesis by (simp add: Cons split: option.split)
qed simp

lemma monitor_run_phases:
  assumes V: "\<And>t. t \<in> set V \<Longrightarrow> check_state config cert t = CsValid (v t)"
    and W: "\<And>t. t \<in> set W \<Longrightarrow> check_state config cert t = CsWarning (w t)"
    and G: "\<And>t. t \<in> set G \<Longrightarrow> check_state config cert t = CsGracePeriod (g t)"
    and X: "\<And>t. t \<in> set X \<Longrightarrow> check_state config cert t = CsExpired"
  shows "monitor_run cert (V @ W @ G @ X) (monitor_new config) =
    (if W = [] then [] else EnteringWarning (w (hd W)) # (if G = [] then [] else [EnteringGracePeriod (g (hd G))]))
    @ (if X \<noteq> [] \<and> V @ W @ G \<noteq> [] then [ExpiredEvent] else [])"
proof -
  have phase: "monitor_run cert V m = (if V = [] then [] else case transition_event (am_last_state m) (CsValid (v (hd V))) of None \<Rightarrow> [] | Some ev \<Rightarrow> [ev])"
    "monitor_run cert W m = (if W = [] then [] else case transition_event (am_last_state m) (CsWarning (w (hd W))) of None \<Rightarrow> [] | Some ev \<Rightarrow> [ev])"
    "monitor_run cert G m = (if G = [] then [] else case transition_event (am_last_state m) (CsGracePeriod (g (hd G))) of None \<Rightarrow> [] | Some ev \<Rightarrow> [ev])"
    "monitor_run cert X m = (if X = [] then [] else case transition_event (am_last_state m) CsExpired of None \<Rightarrow> [] | Some ev \<Rightarrow> [ev])"
    if m: "am_tracker m = config" for m
    using monitor_run_phase [of V "CsValid 0" m cert] monitor_run_phase [of W "CsWarning 0" m cert]
      monitor_run_phase [of G "CsGracePeriod 0" m cert] monitor_run_phase [of X CsExpired m cert]
    by (simp_all add: m V W G X)
  have last: "V \<noteq> [] \<Longrightarrow> check_state config cert (last V) = CsValid (v (last V))"
    "W \<noteq> [] \<Longrightarrow> check_state config cert (last W) = CsWarning (w (last W))"
    "G \<noteq> [] \<Longrightarrow> check_state config cert (last G) = CsGracePeriod (g (last G))"
    by (simp_all add: V W G)
  show ?thesis
    by (cases "V = []"; cases "W = []"; cases "G = []"; cases "X = []")
      (simp_all add: monitor_run_append phase last monitor_new_def transition_event_def)
qed

text \<open>Sorted polls, cut at the ends of the phases.\<close>

lemma sorted_cut:
  "sorted ts \<Longrightarrow> filter (\<lambda>t. t < c) ts @ filter (\<lambda>t. c \<le> t) ts = (ts :: u64 list)"
proof (induction ts)
  case (Cons t ts)
  show ?case
  proof (cases "t < c")
    case False
    then have "filter (\<lambda>t. t < c) ts = []" using Cons.prems by (auto simp: filter_empty_conv not_less intro: order_trans)
    then show ?thesis using Cons False by simp
  qed (use Cons in simp)
qed simp

lemma sorted_cut3:
  assumes "sorted ts" "a \<le> b" "b \<le> (c :: u64)"
  shows "filter (\<lambda>t. t < a) ts @ filter (\<lambda>t. a \<le> t \<and> t < b) ts @ filter (\<lambda>t. b \<le> t \<and> t < c) ts @ filter (\<lambda>t. c \<le> t) ts = ts"
proof -
  have sub: "filter (\<lambda>t. P t \<and> t < d) ts @ filter (\<lambda>t. P t \<and> d \<le> t) ts = filter P ts" for d P
    using sorted_cut [of "filter P ts" d] assms(1) by (simp add: sorted_wrt_filter)
  have "(\<lambda>t. a \<le> t \<and> b \<le> t) = (\<lambda>t. b \<le> t)" "(\<lambda>t. b \<le> t \<and> c \<le> t) = (\<lambda>t. c \<le> t)"
    using assms(2,3) by auto
  then show ?thesis
    using sub [of "\<lambda>t. a \<le> t" b] sub [of "\<lambda>t. b \<le> t" c] sorted_cut [OF assms(1), of a] by simp
qed

lemma phases:
  assumes "unat (mc_expires_at_ms cert) + unat (grace_period_hours config) * 3600000 < 2 ^ 64"
  defines "e \<equiv> mc_expires_at_ms cert"
  shows "check_state config cert t =
    (if t < reauth_deadline config cert then CsValid (e - t) else if t < e then CsWarning (e - t)
     else if t < hard_cutoff config cert then CsGracePeriod (hard_cutoff config cert - t) else CsExpired)"
    and "reauth_deadline config cert \<le> e" and "e \<le> hard_cutoff config cert"
proof -
  have cut: "hard_cutoff config cert = e + grace_period_ms config" "unat (e + grace_period_ms config) = unat e + unat (grace_period_hours config) * 3600000"
    using assms(1) by (simp_all add: hard_cutoff_def sat_add_def config_ms e_def unat_add_no_overflow)
  have dead: "unat (reauth_deadline config cert) = unat e - unat (warning_threshold_hours config) * 3600000"
    by (simp add: reauth_deadline_def sat_sub_def e_def unat_sub word_le_nat_alt flip: config_ms)
  show "reauth_deadline config cert \<le> e" "e \<le> hard_cutoff config cert"
    by (simp_all add: word_le_nat_alt cut dead)
  have "grace_period_ms config - (t - e) = e + grace_period_ms config - t" by simp
  then show "check_state config cert t = (if t < reauth_deadline config cert then CsValid (e - t) else if t < e then CsWarning (e - t)
     else if t < hard_cutoff config cert then CsGracePeriod (hard_cutoff config cert - t) else CsExpired)"
    using dead cut unfolding check_state_nat Let_def e_def [symmetric] word_less_nat_alt by auto
qed

text \<open>
  C26. What the monitor reports, for a certificate that expires (an expiry of 0 stands for none and is
  excluded) and whose hard cutoff fits in 64 bits. Polled by a new monitor at any times in ascending
  order, the first poll from the re-authentication deadline on and before the expiry is reported as entering
  the warning state with the time left; if there was such a poll, the first one from the expiry on and
  before the hard cutoff is reported as entering the grace period with the time left to the cutoff; and
  the expiry is reported once if there are polls both before the cutoff and from it on. Nothing else is
  reported, so a monitor that sees no poll in the warning window never reports the grace period.
\<close>

theorem monitor_reports_exactly:
  fixes config :: auth_config and ts :: "u64 list"
  assumes "sorted ts" "mc_expires_at_ms cert \<noteq> 0"
    and "unat (mc_expires_at_ms cert) + unat (grace_period_hours config) * 3600000 < 2 ^ 64"
  defines "expiry \<equiv> mc_expires_at_ms cert" and "cutoff \<equiv> hard_cutoff config cert"
  defines "warning \<equiv> filter (\<lambda>t. reauth_deadline config cert \<le> t \<and> t < expiry) ts"
    and "grace \<equiv> filter (\<lambda>t. expiry \<le> t \<and> t < cutoff) ts" and "expired \<equiv> filter (\<lambda>t. cutoff \<le> t) ts"
  shows "monitor_run cert ts (monitor_new config) =
    (case warning of [] \<Rightarrow> []
     | w # _ \<Rightarrow> EnteringWarning (expiry - w) # (case grace of [] \<Rightarrow> [] | g # _ \<Rightarrow> [EnteringGracePeriod (cutoff - g)]))
    @ (if expired \<noteq> [] \<and> expired \<noteq> ts then [ExpiredEvent] else [])"
proof -
  note phases = phases [OF assms(3), folded expiry_def cutoff_def]
  define valid where "valid = filter (\<lambda>t. t < reauth_deadline config cert) ts"
  have ts: "ts = valid @ warning @ grace @ expired"
    unfolding valid_def warning_def grace_def expired_def by (rule sorted_cut3 [OF assms(1) phases(2,3), symmetric])
  have "monitor_run cert (valid @ warning @ grace @ expired) (monitor_new config) =
    (if warning = [] then [] else EnteringWarning (expiry - hd warning) # (if grace = [] then [] else [EnteringGracePeriod (cutoff - hd grace)]))
    @ (if expired \<noteq> [] \<and> valid @ warning @ grace \<noteq> [] then [ExpiredEvent] else [])"
    using phases(2,3)
    by (intro monitor_run_phases [where v = "\<lambda>t. expiry - t"]) (auto simp: phases(1) valid_def warning_def grace_def expired_def)
  moreover have "(valid @ warning @ grace \<noteq> []) = (expired \<noteq> ts)"
    by (subst ts) auto
  ultimately show ?thesis
    unfolding ts [symmetric] by (cases warning; cases grace) simp_all
qed

theorem monitor_reports_exactly_witness:
  "monitor_run (example_certificate 1 ''ALPHA-01'') [1000, 6000, 20000000]
     (monitor_new auth_config_default) = [EnteringWarning 4000, EnteringGracePeriod 14399000, ExpiredEvent]"
  using monitor_reports_exactly [of "[1000, 6000, 20000000]" "example_certificate 1 ''ALPHA-01''" auth_config_default]
  by (simp add: example_certificate_def certificate_new_def auth_config_default_def reauth_deadline_def hard_cutoff_def
      sat_sub_def sat_add_def warning_threshold_ms_def grace_period_ms_def)

lemma monitor_run_grace:
  assumes "\<forall>t \<in> set ts. \<exists>g. check_state (am_tracker m) cert t = CsGracePeriod g"
    and "\<forall>w. am_last_state m \<noteq> Some (CsWarning w)"
  shows "monitor_run cert ts m = []"
  using assms
proof (induction ts arbitrary: m)
  case (Cons t ts)
  then obtain g where g: "check_state (am_tracker m) cert t = CsGracePeriod g" by auto
  then have "transition_event (am_last_state m) (CsGracePeriod g) = None"
    using Cons.prems(2) by (auto simp: transition_event_def split: option.splits certificate_state.splits)
  with g Cons show ?case by (simp add: monitor_update_def Let_def)
qed simp

text \<open>
  The monitor can miss the grace period: polled first, or after a gap as long as the warning window,
  when the certificate is already in its grace period, it emits nothing then and nothing at any
  later poll within the grace period.
\<close>

theorem grace_entry_unreported:
  assumes "am_last_state m = None \<or> am_last_state m = Some (CsValid v)"
    and "\<forall>t \<in> set ts. unat (mc_expires_at_ms cert) \<le> unat t
           \<and> unat t < unat (mc_expires_at_ms cert) + unat (grace_period_hours (am_tracker m)) * 3600000"
  shows "monitor_run cert ts m = []"
  using assms by (intro monitor_run_grace) (auto simp: check_state_nat Let_def)

theorem grace_entry_unreported_witness:
  "monitor_run (example_certificate 1 ''ALPHA-01'') [6000, 7000]
     (fst (monitor_update (example_certificate 1 ''ALPHA-01'') 1000
        (monitor_new \<lparr>auth_interval_hours = 24, grace_period_hours = 4, warning_threshold_hours = 0\<rparr>))) = []"
  by (rule grace_entry_unreported [where v = 4000])
     (simp_all add: monitor_update_def monitor_new_def example_certificate_def certificate_new_def check_state_def
        warning_threshold_ms_def Let_def)

end
