(* ===== verification/Authorization.thy ===== *)
theory Authorization
  imports Security_Base
begin

text \<open>
  Role-based access control, \<open>peat-protocol/src/security/authorization.rs\<close>. A hash set is a list
  without repetitions; a device id is a value of a type variable with its hexadecimal rendering as
  a parameter.
\<close>


subsection \<open>Roles and permissions\<close>

datatype role = RoleLeader | RoleMember | RoleObserver | RoleCommander | RoleAdmin

fun display_role :: "role \<Rightarrow> string" where
  "display_role RoleLeader = ''Leader''"
| "display_role RoleMember = ''Member''"
| "display_role RoleObserver = ''Observer''"
| "display_role RoleCommander = ''Commander''"
| "display_role RoleAdmin = ''Admin''"

datatype permission =
    PermJoinCell | PermLeaveCell | PermCreateCell | PermDisbandCell | PermSetCellLeader | PermSetCellObjective
  | PermAdvertiseCapability | PermRequestCapability | PermReadCellState | PermWriteCellState
  | PermReadNodeState | PermWriteNodeState | PermReadTelemetry | PermFormCohort | PermAggregateToFederation
  | PermAggregateToCoalition | PermApproveFormation | PermVetoCommand | PermConfigureNetwork | PermManageKeys
  | PermViewAuditLog

fun display_permission :: "permission \<Rightarrow> string" where
  "display_permission PermJoinCell = ''JoinCell''"
| "display_permission PermLeaveCell = ''LeaveCell''"
| "display_permission PermCreateCell = ''CreateCell''"
| "display_permission PermDisbandCell = ''DisbandCell''"
| "display_permission PermSetCellLeader = ''SetCellLeader''"
| "display_permission PermSetCellObjective = ''SetCellObjective''"
| "display_permission PermAdvertiseCapability = ''AdvertiseCapability''"
| "display_permission PermRequestCapability = ''RequestCapability''"
| "display_permission PermReadCellState = ''ReadCellState''"
| "display_permission PermWriteCellState = ''WriteCellState''"
| "display_permission PermReadNodeState = ''ReadNodeState''"
| "display_permission PermWriteNodeState = ''WriteNodeState''"
| "display_permission PermReadTelemetry = ''ReadTelemetry''"
| "display_permission PermFormCohort = ''FormCohort''"
| "display_permission PermAggregateToFederation = ''AggregateToFederation''"
| "display_permission PermAggregateToCoalition = ''AggregateToCoalition''"
| "display_permission PermApproveFormation = ''ApproveFormation''"
| "display_permission PermVetoCommand = ''VetoCommand''"
| "display_permission PermConfigureNetwork = ''ConfigureNetwork''"
| "display_permission PermManageKeys = ''ManageKeys''"
| "display_permission PermViewAuditLog = ''ViewAuditLog''"

datatype device_type = Uav | Ugv | C2Station | SensorDevice | RelayDevice | UnknownDevice

record 'd device_identity_info =
  di_device_id :: 'd
  di_device_type :: device_type

record user_identity_info =
  ui_username :: string
  ui_roles :: "role list"

datatype 'd authenticated_entity = DeviceEntity "'d device_identity_info" | UserEntity user_identity_info

fun entity_id :: "('d \<Rightarrow> string) \<Rightarrow> 'd authenticated_entity \<Rightarrow> string" where
  "entity_id to_hex (DeviceEntity info) = to_hex (di_device_id info)"
| "entity_id to_hex (UserEntity info) = ui_username info"

definition from_device_id :: "'d \<Rightarrow> 'd authenticated_entity" where
  "from_device_id device_id = DeviceEntity \<lparr>di_device_id = device_id, di_device_type = UnknownDevice\<rparr>"


subsection \<open>Contexts\<close>

datatype hierarchy_level = LevelNode | LevelCell | LevelCohort | LevelFederation | LevelCoalition

record cell_membership_context =
  cm_leader_id :: "string option"
  cm_member_ids :: "string list"

definition membership_is_leader :: "cell_membership_context \<Rightarrow> string \<Rightarrow> bool" where
  "membership_is_leader self device_id \<longleftrightarrow> cm_leader_id self = Some device_id"

definition membership_is_member :: "cell_membership_context \<Rightarrow> string \<Rightarrow> bool" where
  "membership_is_member self device_id \<longleftrightarrow> device_id \<in> set (cm_member_ids self)"

record authorization_context =
  ac_cell_id :: "string option"
  ac_node_id :: "string option"
  ac_hierarchy_level :: "hierarchy_level option"
  ac_timestamp :: nat
  ac_cell_membership :: "cell_membership_context option"

definition context_for_cell :: "nat \<Rightarrow> string \<Rightarrow> authorization_context" where
  "context_for_cell now cell_id =
     \<lparr>ac_cell_id = Some cell_id, ac_node_id = None, ac_hierarchy_level = Some LevelCell, ac_timestamp = now,
      ac_cell_membership = None\<rparr>"

definition context_for_node :: "nat \<Rightarrow> string \<Rightarrow> authorization_context" where
  "context_for_node now node_id =
     \<lparr>ac_cell_id = None, ac_node_id = Some node_id, ac_hierarchy_level = None, ac_timestamp = now,
      ac_cell_membership = None\<rparr>"

definition context_system :: "nat \<Rightarrow> authorization_context" where
  "context_system now =
     \<lparr>ac_cell_id = None, ac_node_id = None, ac_hierarchy_level = None, ac_timestamp = now, ac_cell_membership = None\<rparr>"

definition with_membership :: "cell_membership_context \<Rightarrow> authorization_context \<Rightarrow> authorization_context" where
  "with_membership membership self = self\<lparr>ac_cell_membership := Some membership\<rparr>"


subsection \<open>Policy and controller\<close>

record authorization_policy =
  ap_role_permissions :: "(role, permission list) hash_map"

definition policy_new :: authorization_policy where
  "policy_new = \<lparr>ap_role_permissions = []\<rparr>"

definition grant_role :: "role \<Rightarrow> permission \<Rightarrow> authorization_policy \<Rightarrow> authorization_policy" where
  "grant_role role permission self =
     self\<lparr>ap_role_permissions :=
       hm_insert role
         (push_new permission (case hm_get (ap_role_permissions self) role of None \<Rightarrow> [] | Some ps \<Rightarrow> ps))
         (ap_role_permissions self)\<rparr>"

definition revoke_role :: "role \<Rightarrow> permission \<Rightarrow> authorization_policy \<Rightarrow> authorization_policy" where
  "revoke_role role permission self =
     (case hm_get (ap_role_permissions self) role of
        Some permissions \<Rightarrow>
          self\<lparr>ap_role_permissions := hm_insert role (removeAll permission permissions) (ap_role_permissions self)\<rparr>
      | None \<Rightarrow> self)"

definition role_has_permission :: "authorization_policy \<Rightarrow> role \<Rightarrow> permission \<Rightarrow> bool" where
  "role_has_permission self role permission \<longleftrightarrow>
     (case hm_get (ap_role_permissions self) role of None \<Rightarrow> False | Some perms \<Rightarrow> permission \<in> set perms)"

definition get_permissions :: "authorization_policy \<Rightarrow> role \<Rightarrow> permission list" where
  "get_permissions self role = (case hm_get (ap_role_permissions self) role of None \<Rightarrow> [] | Some perms \<Rightarrow> perms)"

definition default_grants :: "(role \<times> permission) list" where
  "default_grants =
     [
      (RoleLeader, PermSetCellObjective), (RoleLeader, PermSetCellLeader),
      (RoleLeader, PermRequestCapability), (RoleLeader, PermReadCellState),
      (RoleLeader, PermWriteCellState), (RoleLeader, PermReadNodeState), (RoleLeader, PermWriteNodeState),
      (RoleLeader, PermReadTelemetry), (RoleLeader, PermDisbandCell), (RoleMember, PermJoinCell),
      (RoleMember, PermLeaveCell), (RoleMember, PermAdvertiseCapability), (RoleMember, PermReadCellState),
      (RoleMember, PermWriteNodeState), (RoleMember, PermReadNodeState), (RoleMember, PermReadTelemetry),
      (RoleObserver, PermReadCellState), (RoleObserver, PermReadNodeState),
      (RoleObserver, PermReadTelemetry), (RoleCommander, PermFormCohort),
      (RoleCommander, PermAggregateToFederation), (RoleCommander, PermAggregateToCoalition),
      (RoleCommander, PermApproveFormation), (RoleCommander, PermVetoCommand),
      (RoleCommander, PermCreateCell), (RoleCommander, PermReadCellState),
      (RoleCommander, PermWriteCellState), (RoleCommander, PermReadNodeState),
      (RoleCommander, PermReadTelemetry), (RoleAdmin, PermConfigureNetwork), (RoleAdmin, PermManageKeys),
      (RoleAdmin, PermViewAuditLog), (RoleAdmin, PermCreateCell), (RoleAdmin, PermDisbandCell)]"

definition authorization_default_policy :: authorization_policy where
  "authorization_default_policy = fold (\<lambda>(role, permission). grant_role role permission) default_grants policy_new"

definition get_roles :: "('d \<Rightarrow> string) \<Rightarrow> 'd authenticated_entity \<Rightarrow> authorization_context \<Rightarrow> role list" where
  "get_roles to_hex entity context =
     (case entity of
        DeviceEntity device_info \<Rightarrow>
          (case ac_cell_membership context of
             Some membership \<Rightarrow>
               (let device_hex = to_hex (di_device_id device_info)
                in if membership_is_leader membership device_hex then [RoleLeader]
                   else if membership_is_member membership device_hex then [RoleMember]
                   else [RoleObserver])
           | None \<Rightarrow> [RoleObserver])
      | UserEntity user_info \<Rightarrow> ui_roles user_info)"

definition check_permission ::
    "('d \<Rightarrow> string) \<Rightarrow> authorization_policy \<Rightarrow> 'd authenticated_entity \<Rightarrow> permission \<Rightarrow> authorization_context \<Rightarrow>
     security_error + unit" where
  "check_permission to_hex policy entity permission context =
     (let roles = get_roles to_hex entity context;
          granted = list_ex (\<lambda>role. role_has_permission policy role permission) roles
      in if granted then Inr ()
         else Inl (SPermissionDenied (display_permission permission) (entity_id to_hex entity) (map display_role roles)))"


subsection \<open>The policy as a relation\<close>

lemma role_has_permission_new: "\<not> role_has_permission policy_new r p"
  by (simp add: role_has_permission_def policy_new_def)

lemma role_has_permission_grant:
  "role_has_permission (grant_role r p s) r' p' \<longleftrightarrow> (r', p') = (r, p) \<or> role_has_permission s r' p'"
  by (auto simp: role_has_permission_def grant_role_def split: option.splits)

lemma role_has_permission_revoke:
  "role_has_permission (revoke_role r p s) r' p' \<longleftrightarrow> (r', p') \<noteq> (r, p) \<and> role_has_permission s r' p'"
  by (auto simp: role_has_permission_def revoke_role_def split: option.splits)

lemma role_has_permission_grants:
  "role_has_permission (fold (\<lambda>(r, p). grant_role r p) gs s) r p \<longleftrightarrow> (r, p) \<in> set gs \<or> role_has_permission s r p"
proof (induction gs arbitrary: s)
  case (Cons g gs)
  obtain r' p' where g: "g = (r', p')" by (cases g)
  have "role_has_permission (fold (\<lambda>(r, p). grant_role r p) (g # gs) s) r p \<longleftrightarrow>
      (r, p) \<in> set gs \<or> role_has_permission (grant_role r' p' s) r p"
    by (simp only: g fold_simps prod.case Cons.IH)
  then show ?case unfolding role_has_permission_grant g by (simp only: list.set insert_iff) blast
qed simp

lemma default_policy_grants: "role_has_permission authorization_default_policy r p \<longleftrightarrow> (r, p) \<in> set default_grants"
  by (simp add: authorization_default_policy_def role_has_permission_grants role_has_permission_new)

datatype policy_op = Grant role permission | Revoke role permission

fun apply_policy_op :: "policy_op \<Rightarrow> authorization_policy \<Rightarrow> authorization_policy" where
  "apply_policy_op (Grant r p) s = grant_role r p s"
| "apply_policy_op (Revoke r p) s = revoke_role r p s"

lemma policy_ops:
  "role_has_permission (fold apply_policy_op ops policy_new) r p \<longleftrightarrow>
     (let on_it = filter (\<lambda>op. op = Grant r p \<or> op = Revoke r p) ops in on_it \<noteq> [] \<and> last on_it = Grant r p)"
proof (induction ops rule: rev_induct)
  case (snoc op ops)
  then show ?case
    by (cases op) (auto simp: Let_def role_has_permission_grant role_has_permission_revoke)
qed (simp add: role_has_permission_new)

text \<open>
  C27. Access control is exact: for a policy built by any sequence of grants and revocations, an entity
  is allowed a permission exactly when one of its roles was granted it and not revoked it since.
\<close>

theorem check_permission_exact:
  "check_permission to_hex (fold apply_policy_op ops policy_new) e p ctx = Inr () \<longleftrightarrow>
     (\<exists>r \<in> set (get_roles to_hex e ctx).
        let on_it = filter (\<lambda>op. op = Grant r p \<or> op = Revoke r p) ops in on_it \<noteq> [] \<and> last on_it = Grant r p)"
  by (simp add: check_permission_def Let_def list_ex_iff policy_ops [unfolded Let_def])

text \<open>Which of the default permissions a device can hold at all.\<close>

definition device_permissions :: "permission list" where
  "device_permissions = map snd (filter (\<lambda>(r, _). r \<in> {RoleLeader, RoleMember, RoleObserver}) default_grants)"

lemma device_role: "\<exists>r \<in> {RoleLeader, RoleMember, RoleObserver}. get_roles to_hex (DeviceEntity d) ctx = [r]"
  by (auto simp: get_roles_def Let_def split: option.splits)

text \<open>
  Under the default policy a device acts only within its cell: whatever the context, no device is
  granted a permission of commanders or administrators, and outside a cell it can only read.
\<close>

theorem device_least_privilege:
  assumes "check_permission to_hex authorization_default_policy (DeviceEntity d) p ctx = Inr ()"
  shows "p \<notin> {PermCreateCell, PermFormCohort, PermAggregateToFederation, PermAggregateToCoalition, PermApproveFormation,
            PermVetoCommand, PermConfigureNetwork, PermManageKeys, PermViewAuditLog}
         \<and> (ac_cell_membership ctx = None \<longrightarrow> p \<in> {PermReadCellState, PermReadNodeState, PermReadTelemetry})"
proof -
  obtain r where r: "get_roles to_hex (DeviceEntity d) ctx = [r]" "r \<in> {RoleLeader, RoleMember, RoleObserver}"
    using device_role [of to_hex d ctx] by blast
  then have granted: "(r, p) \<in> set default_grants"
    using assms by (simp add: check_permission_def Let_def default_policy_grants split: if_splits)
  have "r = RoleObserver" if "ac_cell_membership ctx = None"
    using that r(1) by (simp add: get_roles_def)
  with granted r(2) show ?thesis
    by (cases p) (auto simp: default_grants_def)
qed

definition example_context :: authorization_context where
  "example_context = with_membership \<lparr>cm_leader_id = Some ''d1'', cm_member_ids = [''d1'', ''d2'']\<rparr> (context_for_cell 0 ''c1'')"

theorem device_least_privilege_witness:
  "check_permission (\<lambda>d. d) authorization_default_policy (from_device_id ''d2'') PermJoinCell example_context = Inr ()
   \<and> PermJoinCell \<noteq> PermManageKeys"
proof -
  have "check_permission (\<lambda>d. d) authorization_default_policy (from_device_id ''d2'') PermJoinCell example_context = Inr ()"
    by (simp add: check_permission_def get_roles_def from_device_id_def example_context_def with_membership_def
        context_for_cell_def membership_is_leader_def membership_is_member_def Let_def default_policy_grants default_grants_def)
  moreover from this have "PermJoinCell \<noteq> PermManageKeys"
    unfolding from_device_id_def using device_least_privilege by blast
  ultimately show ?thesis by blast
qed

text \<open>A device that leads its cell is not also treated as a member: it can neither leave nor advertise.\<close>

lemma leader_is_no_member:
  assumes "ac_cell_membership ctx = Some m" "cm_leader_id m = Some (to_hex (di_device_id d))"
    and "p \<in> {PermJoinCell, PermLeaveCell, PermAdvertiseCapability}"
  shows "check_permission to_hex authorization_default_policy (DeviceEntity d) p ctx =
           Inl (SPermissionDenied (display_permission p) (to_hex (di_device_id d)) [''Leader''])"
proof -
  have "get_roles to_hex (DeviceEntity d) ctx = [RoleLeader]"
    using assms(1,2) by (simp add: get_roles_def membership_is_leader_def)
  moreover have "(RoleLeader, p) \<notin> set default_grants"
    using assms(3) by (auto simp: default_grants_def)
  ultimately show ?thesis
    by (simp add: check_permission_def Let_def default_policy_grants)
qed

end
