(* ===== verification/Totp.thy ===== *)
theory Totp
  imports Security_Base
begin

text \<open>
  One-time passwords of \<open>peat-protocol/src/security/user_auth.rs\<close>: HOTP codes, their verification with
  clock drift, the constant-time comparison and the Base32 rendering of secrets. HMAC-SHA256 comes from
  another crate and is a parameter: keyed with the secret it gives an error or a function to tags.
\<close>

type_synonym hmac = "u8 list \<Rightarrow> string + (u8 list \<Rightarrow> u8 list)"


subsection \<open>Codes\<close>

definition TOTP_TIME_STEP_SECS :: u64 where
  "TOTP_TIME_STEP_SECS = 30"

definition TOTP_CODE_LENGTH :: nat where
  "TOTP_CODE_LENGTH = 6"

definition TOTP_CLOCK_DRIFT_STEPS :: int where
  "TOTP_CLOCK_DRIFT_STEPS = 1"

definition zero_padded :: "nat \<Rightarrow> nat \<Rightarrow> string" where
  "zero_padded width n = (let s = display_nat n in replicate (width - length s) (CHR ''0'') @ s)"

definition generate_hotp :: "hmac \<Rightarrow> u8 list \<Rightarrow> u64 \<Rightarrow> security_error + string" where
  "generate_hotp H secret counter =
     (case H secret of
        Inl e \<Rightarrow> Inl (STotpError (''HMAC error: '' @ e))
      | Inr mac \<Rightarrow>
          (let result = mac (to_be_bytes counter);
               offset = unat (result ! (length result - 1) AND 0x0f);
               binary = push_bit 24 (ucast (result ! offset AND 0x7f)) OR push_bit 16 (ucast (result ! (offset + 1)))
                        OR push_bit 8 (ucast (result ! (offset + 2))) OR ucast (result ! (offset + 3)) :: u32;
               otp = unat binary mod 10 ^ TOTP_CODE_LENGTH
           in Inr (zero_padded TOTP_CODE_LENGTH otp)))"

text \<open>The current time in seconds since the epoch is an argument; a clock before the epoch is \<open>None\<close>.\<close>

definition generate_totp :: "hmac \<Rightarrow> u64 option \<Rightarrow> u8 list \<Rightarrow> security_error + string" where
  "generate_totp H clock secret =
     (case clock of
        None \<Rightarrow> Inl (STotpError ''System time before UNIX epoch'')
      | Some time \<Rightarrow> generate_hotp H secret (time div TOTP_TIME_STEP_SECS))"

definition constant_time_compare :: "u8 list \<Rightarrow> u8 list \<Rightarrow> bool" where
  "constant_time_compare a b =
     (if length a \<noteq> length b then False
      else fold (\<lambda>(x, y) result. result OR (x XOR y)) (zip a b) 0 = 0)"

fun totp_offsets :: "hmac \<Rightarrow> u8 list \<Rightarrow> string \<Rightarrow> int \<Rightarrow> int list \<Rightarrow> security_error + bool" where
  "totp_offsets H secret code counter [] = Inr False"
| "totp_offsets H secret code counter (offset # offsets) =
     (case generate_hotp H secret (word_of_int (counter + offset)) of
        Inl e \<Rightarrow> Inl e
      | Inr expected \<Rightarrow>
          if constant_time_compare (as_bytes code) (as_bytes expected) then Inr True
          else totp_offsets H secret code counter offsets)"

definition verify_totp :: "hmac \<Rightarrow> u64 option \<Rightarrow> u8 list \<Rightarrow> string \<Rightarrow> security_error + bool" where
  "verify_totp H clock secret code =
     (case clock of
        None \<Rightarrow> Inl (STotpError ''System time before UNIX epoch'')
      | Some time \<Rightarrow>
          totp_offsets H secret code (sint (time div TOTP_TIME_STEP_SECS))
            [- TOTP_CLOCK_DRIFT_STEPS..TOTP_CLOCK_DRIFT_STEPS])"


subsection \<open>Base32\<close>

definition ALPHABET :: string where
  "ALPHABET = ''ABCDEFGHIJKLMNOPQRSTUVWXYZ234567''"

function base32_drain :: "u64 \<Rightarrow> nat \<Rightarrow> string \<Rightarrow> nat \<times> string" where
  "base32_drain buffer bits_left result =
     (if bits_left \<ge> 5
      then base32_drain buffer (bits_left - 5)
             (result @ [ALPHABET ! unat (drop_bit (bits_left - 5) buffer AND 0x1f)])
      else (bits_left, result))"
  by pat_completeness auto
termination
  by (relation "measure (\<lambda>(_, n, _). n)") auto

declare base32_drain.simps [simp del]

fun base32_loop :: "u8 list \<Rightarrow> u64 \<Rightarrow> nat \<Rightarrow> string \<Rightarrow> u64 \<times> nat \<times> string" where
  "base32_loop [] buffer bits_left result = (buffer, bits_left, result)"
| "base32_loop (byte # data) buffer bits_left result =
     (let buffer = push_bit 8 buffer OR ucast byte;
          (bits_left, result) = base32_drain buffer (bits_left + 8) result
      in base32_loop data buffer bits_left result)"

definition base32_encode :: "u8 list \<Rightarrow> string" where
  "base32_encode data =
     (let (buffer, bits_left, result) = base32_loop data 0 0 []
      in if bits_left > 0
         then result @ [ALPHABET ! unat (push_bit (5 - bits_left) buffer AND 0x1f)]
         else result)"


subsection \<open>Comparison\<close>

lemma xor_eq_0: "(x :: u8) XOR y = 0 \<longleftrightarrow> x = y"
  by (auto simp: bit_eq_iff bit_xor_iff)

lemma fold_or_xor:
  "length a = length b \<Longrightarrow> fold (\<lambda>(x, y) r. r OR (x XOR y)) (zip a b) r = 0 \<longleftrightarrow> r = 0 \<and> a = (b :: u8 list)"
proof (induction a b arbitrary: r rule: list_induct2)
  case (Cons x xs y ys)
  then show ?case by (simp add: or_eq_0_iff xor_eq_0)
qed simp

lemma constant_time_compare_eq [simp]: "constant_time_compare a b \<longleftrightarrow> a = b"
  by (auto simp: constant_time_compare_def fold_or_xor)


subsection \<open>Verification of codes\<close>

definition hmac_ok :: "hmac \<Rightarrow> bool" where
  "hmac_ok H \<longleftrightarrow> (\<forall>secret. \<exists>mac. H secret = Inr mac \<and> (\<forall>m. length (mac m) = 32))"

lemma generate_hotp_ok: "hmac_ok H \<Longrightarrow> \<exists>code. generate_hotp H secret counter = Inr code"
proof -
  assume "hmac_ok H"
  then obtain mac where "H secret = Inr mac" unfolding hmac_ok_def by blast
  then show ?thesis by (simp add: generate_hotp_def Let_def)
qed

lemma totp_offsets_accepts:
  assumes "hmac_ok H"
  shows "totp_offsets H secret code counter offs =
           Inr (\<exists>d \<in> set offs. generate_hotp H secret (word_of_int (counter + d)) = Inr code)"
proof (induction offs)
  case (Cons d offs)
  obtain e where "generate_hotp H secret (word_of_int (counter + d)) = Inr e"
    using generate_hotp_ok [OF assms] by blast
  with Cons.IH show ?case by auto
qed simp

text \<open>
  A time-based code is accepted exactly when it is the code of the current 30-second step or of one
  of its two neighbours. (At the very first step the earlier neighbour is the last 64-bit counter.)
\<close>

theorem totp_accepts_three_steps:
  assumes "hmac_ok H"
  shows "verify_totp H (Some time) secret code =
           Inr (generate_hotp H secret (time div 30 - 1) = Inr code \<or> generate_hotp H secret (time div 30) = Inr code
                \<or> generate_hotp H secret (time div 30 + 1) = Inr code)"
proof -
  let ?c = "sint (time div 30)"
  have offs: "[- TOTP_CLOCK_DRIFT_STEPS..TOTP_CLOCK_DRIFT_STEPS] = [- 1, 0, 1]"
    by (simp add: TOTP_CLOCK_DRIFT_STEPS_def upto_rec1)
  have "word_of_int (?c + - 1) = time div 30 - 1" "word_of_int (?c + 0) = time div 30" "word_of_int (?c + 1) = time div 30 + 1"
    by (simp_all add: wi_hom_add [symmetric] wi_hom_sub [symmetric])
  then show ?thesis
    by (simp add: verify_totp_def offs totp_offsets_accepts [OF assms] TOTP_TIME_STEP_SECS_def
        del: totp_offsets.simps)
qed

theorem totp_accepts_three_steps_witness:
  "verify_totp (\<lambda>_. Inr (\<lambda>_. replicate 32 0)) (Some 60) [1, 2, 3] ''000000'' = Inr True"
proof -
  let ?H = "\<lambda>_. Inr (\<lambda>_. replicate 32 0) :: string + (u8 list \<Rightarrow> u8 list)"
  have "hmac_ok ?H" by (simp add: hmac_ok_def)
  moreover have "display_nat 0 = ''0''" "replicate 5 (CHR ''0'') = ''00000''" by code_simp+
  then have "generate_hotp ?H [1, 2, 3] (60 div 30) = Inr ''000000''"
    by (simp add: generate_hotp_def Let_def zero_padded_def TOTP_CODE_LENGTH_def)
  ultimately show ?thesis by (simp add: totp_accepts_three_steps)
qed


subsection \<open>Base32 against its specification\<close>

text \<open>The specification of RFC 4648: the bits of the bytes, in groups of five, the last one padded with zeros.\<close>

definition byte_bits :: "u8 \<Rightarrow> bool list" where
  "byte_bits b = map (\<lambda>i. bit b (7 - i)) [0..<8]"

definition bits_value :: "bool list \<Rightarrow> nat" where
  "bits_value bs = horner_sum of_bool 2 (rev bs)"

function encode_groups :: "bool list \<Rightarrow> string" where
  "encode_groups bs =
     (if bs = [] then []
      else if length bs < 5 then [ALPHABET ! bits_value (bs @ replicate (5 - length bs) False)]
      else (ALPHABET ! bits_value (take 5 bs)) # encode_groups (drop 5 bs))"
  by pat_completeness auto
termination
  by (relation "measure length") auto

declare encode_groups.simps [simp del]

text \<open>The lowest \<open>n\<close> bits of the buffer, most significant first.\<close>

definition low_bits :: "nat \<Rightarrow> u64 \<Rightarrow> bool list" where
  "low_bits n w = map (\<lambda>i. bit w (n - 1 - i)) [0..<n]"

lemma length_low_bits [simp]: "length (low_bits n w) = n"
  by (simp add: low_bits_def)

lemma low_bits_push:
  assumes "n + 8 \<le> 64"
  shows "low_bits (n + 8) (push_bit 8 w OR ucast b) = low_bits n w @ byte_bits b"
  using assms
  by (intro nth_equalityI) (auto simp: low_bits_def byte_bits_def nth_append bit_simps dest: bit_u8_bound)

lemma low_bits_drop: "k \<le> n \<Longrightarrow> drop k (low_bits n w) = low_bits (n - k) w"
  by (intro nth_equalityI) (auto simp: low_bits_def)

lemma bit_unat: "bit (unat w) n \<longleftrightarrow> bit w n"
  by (simp add: bit_unsigned_iff)

lemma low_bits_index: "unat (w AND 0x1f) = bits_value (low_bits 5 w)"
proof -
  have "w AND 0x1f = take_bit 5 w"
    using take_bit_eq_mask [of 5 w] by (simp add: mask_eq_exp_minus_1)
  then have "unat (w AND 0x1f) = take_bit 5 (unat w)"
    by (simp add: unsigned_take_bit_eq)
  also have "\<dots> = horner_sum of_bool 2 (map (bit (unat w)) [0..<5])"
    by (simp add: horner_sum_bit_eq_take_bit)
  also have "map (bit (unat w)) [0..<5] = rev (low_bits 5 w)"
    by (intro nth_equalityI) (auto simp: low_bits_def rev_nth bit_unat)
  finally show ?thesis by (simp add: bits_value_def)
qed

lemma encode_groups_full:
  "length bs = 5 \<Longrightarrow> encode_groups (bs @ rest) = (ALPHABET ! bits_value bs) # encode_groups rest"
  by (subst encode_groups.simps) auto

lemma low_bits_take: "k \<le> n \<Longrightarrow> n \<le> 64 \<Longrightarrow> take k (low_bits n w) = low_bits k (drop_bit (n - k) w)"
  by (intro nth_equalityI) (auto simp: low_bits_def bit_simps)

lemma base32_drain_spec:
  "n \<le> 64 \<Longrightarrow> fst (base32_drain w n r) = n mod 5
     \<and> r @ encode_groups (low_bits n w @ tail) = snd (base32_drain w n r) @ encode_groups (low_bits (n mod 5) w @ tail)"
proof (induction w n r rule: base32_drain.induct)
  case (1 w n r)
  show ?case
  proof (cases "5 \<le> n")
    case True
    have "low_bits n w = low_bits 5 (drop_bit (n - 5) w) @ low_bits (n - 5) w"
      using low_bits_take [of 5 n w] low_bits_drop [of 5 n w] True "1.prems" by (metis append_take_drop_id)
    then have "encode_groups (low_bits n w @ tail) =
        (ALPHABET ! unat (drop_bit (n - 5) w AND 0x1f)) # encode_groups (low_bits (n - 5) w @ tail)"
      by (simp add: encode_groups_full low_bits_index)
    moreover have "n mod 5 = (n - 5) mod 5" using True by (simp add: le_mod_geq)
    ultimately show ?thesis
      using "1.IH" [OF True] "1.prems" True base32_drain.simps [of w n r] by simp
  qed (simp add: base32_drain.simps)
qed

lemma base32_loop_spec:
  assumes "n < 5"
  shows "let (w', n', r') = base32_loop data w n r
         in n' < 5 \<and> r @ encode_groups (low_bits n w @ concat (map byte_bits data)) = r' @ encode_groups (low_bits n' w')"
  using assms
proof (induction data arbitrary: w n r)
  case (Cons b data)
  let ?w = "push_bit 8 w OR ucast b"
  obtain n1 r1 where d: "base32_drain ?w (n + 8) r = (n1, r1)" by (cases "base32_drain ?w (n + 8) r")
  have drain: "n1 = (n + 8) mod 5" "r @ encode_groups (low_bits (n + 8) ?w @ tail) = r1 @ encode_groups (low_bits n1 ?w @ tail)" for tail
    using base32_drain_spec [of "n + 8" ?w r tail] Cons.prems d by simp_all
  have "n1 < 5" by (simp add: drain(1))
  from Cons.IH [OF this, of ?w r1] drain(2) [of "concat (map byte_bits data)"] show ?case
    using Cons.prems d by (simp add: low_bits_push Let_def)
qed simp

lemma base32_encode_groups: "base32_encode data = encode_groups (concat (map byte_bits data))"
proof -
  obtain w n r where l: "base32_loop data 0 0 [] = (w, n, r)" by (cases "base32_loop data 0 0 []") auto
  have spec: "n < 5" "encode_groups (concat (map byte_bits data)) = r @ encode_groups (low_bits n w)"
    using base32_loop_spec [of 0 data 0 "[]"] l by (simp_all add: low_bits_def)
  have "encode_groups (low_bits n w) = (if n > 0 then [ALPHABET ! unat (push_bit (5 - n) w AND 0x1f)] else [])"
  proof (cases "n = 0")
    case False
    have "low_bits n w @ replicate (5 - n) False = low_bits 5 (push_bit (5 - n) w)"
      using spec(1) by (intro nth_equalityI) (auto simp: low_bits_def nth_append bit_simps)
    with False spec(1) show ?thesis
      by (subst encode_groups.simps) (auto simp: low_bits_index simp flip: length_0_conv)
  qed (simp add: low_bits_def encode_groups.simps)
  with spec(2) show ?thesis by (simp add: base32_encode_def l)
qed

text \<open>A decoder for the specification: the five bits of every symbol, read in whole bytes.\<close>

definition alphabet_index :: "char \<Rightarrow> nat" where
  "alphabet_index c = length (takeWhile (\<lambda>x. x \<noteq> c) ALPHABET)"

definition symbol_bits :: "char \<Rightarrow> bool list" where
  "symbol_bits c = map (\<lambda>i. bit (alphabet_index c) (4 - i)) [0..<5]"

definition decode_base32 :: "string \<Rightarrow> u8 list" where
  "decode_base32 s =
     (let bs = concat (map symbol_bits s)
      in map (\<lambda>i. word_of_nat (bits_value (take 8 (drop (8 * i) bs)))) [0..<length bs div 8])"

lemma alphabet_index_nth: "k < 32 \<Longrightarrow> alphabet_index (ALPHABET ! k) = k"
proof -
  assume "k < 32"
  have "\<forall>k \<in> set [0..<32]. alphabet_index (ALPHABET ! k) = k" by code_simp
  with \<open>k < 32\<close> show ?thesis by simp
qed

lemma bit_bits_value: "bit (bits_value bs) n \<longleftrightarrow> n < length bs \<and> bs ! (length bs - 1 - n)"
  by (auto simp: bits_value_def bit_horner_sum_bit_iff rev_nth)

lemma bits_value_bound: "bits_value bs < 2 ^ length bs"
  using horner_sum_of_bool_2_less [of "rev bs"] by (simp add: bits_value_def)

lemma symbol_bits_group: "length bs = 5 \<Longrightarrow> symbol_bits (ALPHABET ! bits_value bs) = bs"
  using bits_value_bound [of bs]
  by (intro nth_equalityI) (auto simp: symbol_bits_def alphabet_index_nth bit_bits_value)

lemma symbol_bits_groups: "\<exists>pad < 5. concat (map symbol_bits (encode_groups bs)) = bs @ replicate pad False"
proof (induction bs rule: encode_groups.induct)
  case (1 bs)
  consider "bs = []" | "bs \<noteq> []" "length bs < 5" | "5 \<le> length bs" by linarith
  then show ?case
  proof cases
    case 1
    then show ?thesis by (intro exI [of _ 0]) (simp add: encode_groups.simps)
  next
    case 2
    then show ?thesis
      by (intro exI [of _ "5 - length bs"]) (cases bs; simp add: encode_groups.simps symbol_bits_group)
  next
    case 3
    then have "bs \<noteq> []" "\<not> length bs < 5" by auto
    from "1.IH" [OF this] obtain pad where "pad < 5"
      "concat (map symbol_bits (encode_groups (drop 5 bs))) = drop 5 bs @ replicate pad False" by blast
    with 3 show ?thesis
      by (intro exI [of _ pad], subst encode_groups.simps) (auto simp: symbol_bits_group simp flip: append_assoc)
  qed
qed

lemma byte_of_byte_bits: "word_of_nat (bits_value (byte_bits b)) = b"
proof (rule bit_word_eqI)
  fix n
  assume "n < LENGTH(8)"
  then have n: "n < 8" by simp
  then have "[0..<8] ! (7 - n) = 7 - n" by (subst nth_upt) simp_all
  with n show "bit (word_of_nat (bits_value (byte_bits b)) :: u8) n = bit b n"
    by (simp add: bit_simps bit_bits_value byte_bits_def)
qed

lemma drop_byte_bits:
  "i < length data \<Longrightarrow> take 8 (drop (8 * i) (concat (map byte_bits data) @ rest)) = byte_bits (data ! i)"
proof (induction data arbitrary: i)
  case (Cons b data)
  have len: "length (byte_bits b) = 8" by (simp add: byte_bits_def)
  show ?case
  proof (cases i)
    case (Suc j)
    with Cons show ?thesis by (simp add: len)
  qed (simp add: len)
qed simp

text \<open>
  C36. The Base32 encoder, which shifts bits through a 64-bit buffer, renders the specified groups of
  five bits, for data of any length, and its output can be decoded back to the data.
\<close>

theorem base32_encode_correct:
  "base32_encode data = encode_groups (concat (map byte_bits data)) \<and> decode_base32 (base32_encode data) = data"
proof -
  obtain pad where pad: "pad < 5"
    "concat (map symbol_bits (base32_encode data)) = concat (map byte_bits data) @ replicate pad False"
    using symbol_bits_groups unfolding base32_encode_groups by blast
  have "length (concat (map byte_bits data)) = 8 * length data"
    by (induction data) (simp_all add: byte_bits_def)
  then have "length (concat (map symbol_bits (base32_encode data))) div 8 = length data"
    using pad by simp
  then have "decode_base32 (base32_encode data) = map (\<lambda>i. data ! i) [0..<length data]"
    unfolding decode_base32_def Let_def pad(2) using drop_byte_bits [of _ data "replicate pad False"]
    by (intro map_cong) (simp_all add: byte_of_byte_bits del: take_append drop_append)
  then show ?thesis by (simp add: base32_encode_groups map_nth)
qed

end
