(* ===== verification/User_Auth.thy ===== *)
theory User_Auth
  imports Authorization Totp
begin

text \<open>
  Accounts and sessions of human operators, \<open>peat-protocol/src/security/user_auth.rs\<close>. The user store
  is the in-memory one of the same file. Password hashing (Argon2), session identifiers, random
  secrets and the clock come from outside: the first is a record of parameters, the others are
  arguments. Times are nanoseconds; a poisoned lock, which needs a panic, is not modelled.
\<close>


subsection \<open>Identities\<close>

datatype military_rank =
    Private | Specialist | Corporal | Sergeant | StaffSergeant | SergeantFirstClass | MasterSergeant
  | FirstSergeant | SergeantMajor | WarrantOfficer1 | ChiefWarrantOfficer2 | ChiefWarrantOfficer3
  | ChiefWarrantOfficer4 | ChiefWarrantOfficer5 | SecondLieutenant | FirstLieutenant | Captain
  | Major | LieutenantColonel | Colonel | BrigadierGeneral | MajorGeneral | LieutenantGeneral
  | General | Civilian

fun display_military_rank :: "military_rank \<Rightarrow> string" where
  "display_military_rank Private = ''PVT''"
| "display_military_rank Specialist = ''SPC''"
| "display_military_rank Corporal = ''CPL''"
| "display_military_rank Sergeant = ''SGT''"
| "display_military_rank StaffSergeant = ''SSG''"
| "display_military_rank SergeantFirstClass = ''SFC''"
| "display_military_rank MasterSergeant = ''MSG''"
| "display_military_rank FirstSergeant = ''1SG''"
| "display_military_rank SergeantMajor = ''SGM''"
| "display_military_rank WarrantOfficer1 = ''WO1''"
| "display_military_rank ChiefWarrantOfficer2 = ''CW2''"
| "display_military_rank ChiefWarrantOfficer3 = ''CW3''"
| "display_military_rank ChiefWarrantOfficer4 = ''CW4''"
| "display_military_rank ChiefWarrantOfficer5 = ''CW5''"
| "display_military_rank SecondLieutenant = ''2LT''"
| "display_military_rank FirstLieutenant = ''1LT''"
| "display_military_rank Captain = ''CPT''"
| "display_military_rank Major = ''MAJ''"
| "display_military_rank LieutenantColonel = ''LTC''"
| "display_military_rank Colonel = ''COL''"
| "display_military_rank BrigadierGeneral = ''BG''"
| "display_military_rank MajorGeneral = ''MG''"
| "display_military_rank LieutenantGeneral = ''LTG''"
| "display_military_rank General = ''GEN''"
| "display_military_rank Civilian = ''CIV''"

datatype security_clearance = Unclassified | Cui | Confidential | Secret | TopSecret | TopSecretSci

fun display_security_clearance :: "security_clearance \<Rightarrow> string" where
  "display_security_clearance Unclassified = ''UNCLASSIFIED''"
| "display_security_clearance Cui = ''CUI''"
| "display_security_clearance Confidential = ''CONFIDENTIAL''"
| "display_security_clearance Secret = ''SECRET''"
| "display_security_clearance TopSecret = ''TOP SECRET''"
| "display_security_clearance TopSecretSci = ''TS/SCI''"

text \<open>The derived order of clearances is that of their declaration.\<close>

fun clearance_rank :: "security_clearance \<Rightarrow> nat" where
  "clearance_rank Unclassified = 0"
| "clearance_rank Cui = 1"
| "clearance_rank Confidential = 2"
| "clearance_rank Secret = 3"
| "clearance_rank TopSecret = 4"
| "clearance_rank TopSecretSci = 5"

lemma clearance_rank_inj: "clearance_rank a = clearance_rank b \<Longrightarrow> a = b"
  by (cases a; cases b) simp_all

instantiation security_clearance :: linorder
begin

definition less_eq_security_clearance :: "security_clearance \<Rightarrow> security_clearance \<Rightarrow> bool" where
  "less_eq_security_clearance a b \<longleftrightarrow> clearance_rank a \<le> clearance_rank b"

definition less_security_clearance :: "security_clearance \<Rightarrow> security_clearance \<Rightarrow> bool" where
  "less_security_clearance a b \<longleftrightarrow> clearance_rank a < clearance_rank b"

instance
  by standard (auto simp: less_eq_security_clearance_def less_security_clearance_def intro: clearance_rank_inj)

end

record organization_unit =
  ou_name :: string
  ou_parent :: "string option"
  ou_uic :: "string option"

definition organization_unit_new :: "string \<Rightarrow> string \<Rightarrow> organization_unit" where
  "organization_unit_new name parent = \<lparr>ou_name = name, ou_parent = Some parent, ou_uic = None\<rparr>"

definition top_level :: "string \<Rightarrow> organization_unit" where
  "top_level name = \<lparr>ou_name = name, ou_parent = None, ou_uic = None\<rparr>"

definition with_uic :: "string \<Rightarrow> organization_unit \<Rightarrow> organization_unit" where
  "with_uic uic self = self\<lparr>ou_uic := Some uic\<rparr>"

definition display_organization_unit :: "organization_unit \<Rightarrow> string" where
  "display_organization_unit self =
     (case ou_parent self of Some parent \<Rightarrow> ou_name self @ '', '' @ parent | None \<Rightarrow> ou_name self)"

record user_identity =
  id_username :: string
  id_display_name :: string
  id_rank :: military_rank
  id_clearance :: security_clearance
  id_unit :: organization_unit
  id_roles :: "role list"

record user_identity_builder =
  ub_username :: string
  ub_display_name :: "string option"
  ub_rank :: military_rank
  ub_clearance :: security_clearance
  ub_unit :: "organization_unit option"
  ub_roles :: "role list"

definition user_identity_builder_new :: "string \<Rightarrow> user_identity_builder" where
  "user_identity_builder_new username =
     \<lparr>ub_username = username, ub_display_name = None, ub_rank = Civilian, ub_clearance = Unclassified,
      ub_unit = None, ub_roles = []\<rparr>"

definition builder_roles :: "role list \<Rightarrow> user_identity_builder \<Rightarrow> user_identity_builder" where
  "builder_roles roles self = self\<lparr>ub_roles := fold push_new roles (ub_roles self)\<rparr>"

definition build :: "user_identity_builder \<Rightarrow> user_identity" where
  "build self =
     \<lparr>id_username = ub_username self,
      id_display_name = (case ub_display_name self of None \<Rightarrow> ub_username self | Some n \<Rightarrow> n),
      id_rank = ub_rank self, id_clearance = ub_clearance self,
      id_unit = (case ub_unit self of None \<Rightarrow> top_level ''Unknown'' | Some u \<Rightarrow> u),
      id_roles = ub_roles self\<rparr>"


subsection \<open>Records and the local store\<close>

datatype account_status = AccountActive | AccountLocked | AccountDisabled | AccountPending

datatype auth_method =
    MethodPasswordMfa string "u8 list"
  | MethodSmartCard string string
  | MethodCertificate string

datatype credential =
    CredPasswordMfa string string
  | CredSmartCard string string
  | CredCertificate string

record user_record =
  ur_identity :: user_identity
  ur_auth_method :: auth_method
  ur_status :: account_status
  ur_created_at :: nat
  ur_last_login :: "nat option"
  ur_failed_attempts :: u32

record ('sid, 'd) user_session =
  us_session_id :: 'sid
  us_identity :: user_identity
  us_device_id :: "'d option"
  us_created_at :: nat
  us_expires_at :: nat

definition session_is_expired :: "nat \<Rightarrow> ('sid, 'd) user_session \<Rightarrow> bool" where
  "session_is_expired now self \<longleftrightarrow> now > us_expires_at self"

type_synonym user_store = "(string, user_record) hash_map"

definition store_with_users :: "user_record list \<Rightarrow> user_store" where
  "store_with_users users = fold (\<lambda>user. hm_insert (id_username (ur_identity user)) user) users []"

definition get_user :: "string \<Rightarrow> user_store \<Rightarrow> user_record option" where
  "get_user username users = hm_get users username"

definition store_user :: "user_record \<Rightarrow> user_store \<Rightarrow> user_store \<times> (security_error + unit)" where
  "store_user rec users =
     (let username = id_username (ur_identity rec)
      in if hm_contains_key users username then (users, Inl (SUserAlreadyExists username))
         else (hm_insert username rec users, Inr ()))"

definition update_user :: "user_record \<Rightarrow> user_store \<Rightarrow> user_store \<times> (security_error + unit)" where
  "update_user rec users =
     (let username = id_username (ur_identity rec)
      in if \<not> hm_contains_key users username then (users, Inl (SUserNotFound username))
         else (hm_insert username rec users, Inr ()))"

definition delete_user :: "string \<Rightarrow> user_store \<Rightarrow> user_store \<times> (security_error + unit)" where
  "delete_user username users =
     (if hm_get users username = None then (users, Inl (SUserNotFound username))
      else (hm_remove username users, Inr ()))"


subsection \<open>The authenticator\<close>

text \<open>
  Argon2: parsing a stored hash fails with a text or succeeds; verification answers yes or no;
  hashing with a salt fails with a text or gives the stored form.
\<close>

record 'salt password_crypto =
  pw_parse :: "string \<Rightarrow> string option"
  pw_verify :: "string \<Rightarrow> string \<Rightarrow> bool"
  pw_hash :: "string \<Rightarrow> 'salt \<Rightarrow> string + string"

record ('sid, 'd) user_authenticator =
  ua_user_store :: user_store
  ua_sessions :: "('sid, ('sid, 'd) user_session) hash_map"
  ua_session_expiry :: nat
  ua_max_failed_attempts :: u32

definition DEFAULT_SESSION_EXPIRY_HOURS :: nat where
  "DEFAULT_SESSION_EXPIRY_HOURS = 8"

definition authenticator_new :: "user_store \<Rightarrow> ('sid, 'd) user_authenticator" where
  "authenticator_new store =
     \<lparr>ua_user_store = store, ua_sessions = [], ua_session_expiry = from_secs (DEFAULT_SESSION_EXPIRY_HOURS * 3600),
      ua_max_failed_attempts = 5\<rparr>"

definition with_session_expiry :: "nat \<Rightarrow> ('sid, 'd) user_authenticator \<Rightarrow> ('sid, 'd) user_authenticator" where
  "with_session_expiry expiry self = self\<lparr>ua_session_expiry := expiry\<rparr>"

definition with_max_failed_attempts :: "u32 \<Rightarrow> ('sid, 'd) user_authenticator \<Rightarrow> ('sid, 'd) user_authenticator" where
  "with_max_failed_attempts limit self = self\<lparr>ua_max_failed_attempts := limit\<rparr>"

definition register_user ::
    "'salt password_crypto \<Rightarrow> 'salt \<Rightarrow> u8 list \<Rightarrow> nat \<Rightarrow> string \<Rightarrow> user_identity \<Rightarrow> ('sid, 'd) user_authenticator \<Rightarrow>
     ('sid, 'd) user_authenticator \<times> (security_error + string)" where
  "register_user A salt totp_secret now password identity self =
     (case pw_hash A password salt of
        Inl e \<Rightarrow> (self, Inl (SPasswordHashError e))
      | Inr password_hash \<Rightarrow>
          (let rec = \<lparr>ur_identity = identity, ur_auth_method = MethodPasswordMfa password_hash totp_secret,
                      ur_status = AccountActive, ur_created_at = now, ur_last_login = None, ur_failed_attempts = 0\<rparr>
           in case store_user rec (ua_user_store self) of
                (_, Inl e) \<Rightarrow> (self, Inl e)
              | (users, Inr _) \<Rightarrow> (self\<lparr>ua_user_store := users\<rparr>, Inr (base32_encode totp_secret))))"

fun status_error :: "string \<Rightarrow> account_status \<Rightarrow> security_error option" where
  "status_error username AccountLocked = Some (SAccountLocked username)"
| "status_error username AccountDisabled = Some (SAccountDisabled username)"
| "status_error username AccountPending = Some (SAccountPending username)"
| "status_error username AccountActive = None"

fun verify_credentials ::
    "'salt password_crypto \<Rightarrow> hmac \<Rightarrow> u64 option \<Rightarrow> auth_method \<Rightarrow> credential \<Rightarrow> security_error + bool" where
  "verify_credentials A H clock (MethodPasswordMfa password_hash totp_secret) (CredPasswordMfa password totp_code) =
     (case pw_parse A password_hash of
        Some e \<Rightarrow> Inl (SPasswordHashError e)
      | None \<Rightarrow>
          if \<not> pw_verify A password password_hash then Inr False
          else (case verify_totp H clock totp_secret totp_code of
                  Inl e \<Rightarrow> Inl e
                | Inr ok \<Rightarrow> if \<not> ok then Inl SInvalidMfaCode else Inr True))"
| "verify_credentials A H clock (MethodSmartCard stored_id pin_hash) (CredSmartCard card_id pin) =
     (if stored_id \<noteq> card_id then Inr False
      else (case pw_parse A pin_hash of
              Some e \<Rightarrow> Inl (SPasswordHashError e)
            | None \<Rightarrow> Inr (pw_verify A pin pin_hash)))"
| "verify_credentials A H clock (MethodCertificate stored_fp) (CredCertificate fingerprint) = Inr (stored_fp = fingerprint)"
| "verify_credentials A H clock _ _ = Inl (SUnsupportedAuthMethod ''mismatched auth method and credential'')"

text \<open>
  What both logins do on a wrong and on a right credential. A success reads the clock twice, for the last
  login and for the session.
\<close>

definition login_failed :: "user_record \<Rightarrow> ('sid, 'd) user_authenticator \<Rightarrow> ('sid, 'd) user_authenticator" where
  "login_failed user self =
     (let attempts = ur_failed_attempts user + 1;
          user = user\<lparr>ur_failed_attempts := attempts\<rparr>;
          user = (if attempts \<ge> ua_max_failed_attempts self then user\<lparr>ur_status := AccountLocked\<rparr> else user)
      in self\<lparr>ua_user_store := fst (update_user user (ua_user_store self))\<rparr>)"

definition open_session ::
    "nat \<times> nat \<Rightarrow> 'sid \<Rightarrow> user_record \<Rightarrow> ('sid, 'd) user_authenticator \<Rightarrow>
     ('sid, 'd) user_authenticator \<times> (security_error + ('sid, 'd) user_session)" where
  "open_session read sid user self =
     (let (login_at, now) = read;
          user = user\<lparr>ur_failed_attempts := 0, ur_last_login := Some login_at\<rparr>;
          session = \<lparr>us_session_id = sid, us_identity = ur_identity user, us_device_id = None,
                     us_created_at = now, us_expires_at = now + ua_session_expiry self\<rparr>
      in (self\<lparr>ua_user_store := fst (update_user user (ua_user_store self)),
               ua_sessions := hm_insert sid session (ua_sessions self)\<rparr>, Inr session))"

definition authenticate ::
    "'salt password_crypto \<Rightarrow> hmac \<Rightarrow> u64 option \<Rightarrow> nat \<times> nat \<Rightarrow> 'sid \<Rightarrow> string \<Rightarrow> credential \<Rightarrow> ('sid, 'd) user_authenticator \<Rightarrow>
     ('sid, 'd) user_authenticator \<times> (security_error + ('sid, 'd) user_session)" where
  "authenticate A H clock read sid username cred self =
     (case get_user username (ua_user_store self) of
        None \<Rightarrow> (self, Inl (SUserNotFound username))
      | Some user \<Rightarrow>
          (case status_error username (ur_status user) of
             Some e \<Rightarrow> (self, Inl e)
           | None \<Rightarrow>
               (case verify_credentials A H clock (ur_auth_method user) cred of
                  Inl e \<Rightarrow> (self, Inl e)
                | Inr verified \<Rightarrow>
                    if \<not> verified then (login_failed user self, Inl (SInvalidCredential username))
                    else open_session read sid user self)))"

definition authenticate_password_only ::
    "'salt password_crypto \<Rightarrow> nat \<times> nat \<Rightarrow> 'sid \<Rightarrow> string \<Rightarrow> string \<Rightarrow> ('sid, 'd) user_authenticator \<Rightarrow>
     ('sid, 'd) user_authenticator \<times> (security_error + ('sid, 'd) user_session)" where
  "authenticate_password_only A read sid username password self =
     (case get_user username (ua_user_store self) of
        None \<Rightarrow> (self, Inl (SUserNotFound username))
      | Some user \<Rightarrow>
          (case status_error username (ur_status user) of
             Some e \<Rightarrow> (self, Inl e)
           | None \<Rightarrow>
               (case ur_auth_method user of
                  MethodPasswordMfa password_hash _ \<Rightarrow>
                    (case pw_parse A password_hash of
                       Some e \<Rightarrow> (self, Inl (SPasswordHashError e))
                     | None \<Rightarrow>
                         if \<not> pw_verify A password password_hash
                         then (login_failed user self, Inl (SInvalidCredential username))
                         else open_session read sid user self)
                | _ \<Rightarrow> (self, Inl (SUnsupportedAuthMethod ''non-password'')))))"

definition invalidate_session :: "'sid \<Rightarrow> ('sid, 'd) user_authenticator \<Rightarrow> ('sid, 'd) user_authenticator" where
  "invalidate_session session_id self = self\<lparr>ua_sessions := hm_remove session_id (ua_sessions self)\<rparr>"

definition validate_session ::
    "nat \<Rightarrow> 'sid \<Rightarrow> ('sid, 'd) user_authenticator \<Rightarrow> ('sid, 'd) user_authenticator \<times> (security_error + user_identity)" where
  "validate_session now session_id self =
     (case hm_get (ua_sessions self) session_id of
        None \<Rightarrow> (self, Inl SSessionNotFound)
      | Some session \<Rightarrow>
          if session_is_expired now session then (invalidate_session session_id self, Inl SSessionExpired)
          else (self, Inr (us_identity session)))"

definition invalidate_user_sessions :: "string \<Rightarrow> ('sid, 'd) user_authenticator \<Rightarrow> ('sid, 'd) user_authenticator" where
  "invalidate_user_sessions username self =
     self\<lparr>ua_sessions := hm_retain (\<lambda>_ session. id_username (us_identity session) \<noteq> username) (ua_sessions self)\<rparr>"

definition cleanup_expired_sessions :: "nat \<Rightarrow> ('sid, 'd) user_authenticator \<Rightarrow> ('sid, 'd) user_authenticator" where
  "cleanup_expired_sessions now self =
     self\<lparr>ua_sessions := hm_retain (\<lambda>_ session. us_expires_at session > now) (ua_sessions self)\<rparr>"

definition bind_session_to_device ::
    "'sid \<Rightarrow> 'd \<Rightarrow> ('sid, 'd) user_authenticator \<Rightarrow> ('sid, 'd) user_authenticator \<times> (security_error + unit)" where
  "bind_session_to_device session_id device_id self =
     (case hm_get (ua_sessions self) session_id of
        None \<Rightarrow> (self, Inl SSessionNotFound)
      | Some session \<Rightarrow>
          (self\<lparr>ua_sessions := hm_insert session_id (session\<lparr>us_device_id := Some device_id\<rparr>) (ua_sessions self)\<rparr>, Inr ()))"

definition set_user ::
    "user_record \<Rightarrow> ('sid, 'd) user_authenticator \<Rightarrow> ('sid, 'd) user_authenticator \<times> (security_error + unit)" where
  "set_user user self =
     (let (users, result) = update_user user (ua_user_store self) in (self\<lparr>ua_user_store := users\<rparr>, result))"

definition unlock_account ::
    "string \<Rightarrow> ('sid, 'd) user_authenticator \<Rightarrow> ('sid, 'd) user_authenticator \<times> (security_error + unit)" where
  "unlock_account username self =
     (case get_user username (ua_user_store self) of
        None \<Rightarrow> (self, Inl (SUserNotFound username))
      | Some user \<Rightarrow> set_user (user\<lparr>ur_status := AccountActive, ur_failed_attempts := 0\<rparr>) self)"

definition disable_account ::
    "string \<Rightarrow> ('sid, 'd) user_authenticator \<Rightarrow> ('sid, 'd) user_authenticator \<times> (security_error + unit)" where
  "disable_account username self =
     (case get_user username (ua_user_store self) of
        None \<Rightarrow> (self, Inl (SUserNotFound username))
      | Some user \<Rightarrow>
          (case set_user (user\<lparr>ur_status := AccountDisabled\<rparr>) self of
             (self', Inl e) \<Rightarrow> (self', Inl e)
           | (self', Inr _) \<Rightarrow> (invalidate_user_sessions username self', Inr ())))"

definition change_password ::
    "'salt password_crypto \<Rightarrow> 'salt \<Rightarrow> string \<Rightarrow> string \<Rightarrow> string \<Rightarrow> ('sid, 'd) user_authenticator \<Rightarrow>
     ('sid, 'd) user_authenticator \<times> (security_error + unit)" where
  "change_password A salt user_name old_password new_password self =
     (case get_user user_name (ua_user_store self) of
        None \<Rightarrow> (self, Inl (SUserNotFound user_name))
      | Some user \<Rightarrow>
          (case ur_auth_method user of
             MethodPasswordMfa password_hash totp_secret \<Rightarrow>
               (case pw_parse A password_hash of
                  Some e \<Rightarrow> (self, Inl (SPasswordHashError e))
                | None \<Rightarrow>
                    if \<not> pw_verify A old_password password_hash then (self, Inl (SInvalidCredential user_name))
                    else (case pw_hash A new_password salt of
                            Inl e \<Rightarrow> (self, Inl (SPasswordHashError e))
                          | Inr new_hash \<Rightarrow>
                              (case set_user (user\<lparr>ur_auth_method := MethodPasswordMfa new_hash totp_secret\<rparr>) self of
                                 (self', Inl e) \<Rightarrow> (self', Inl e)
                               | (self', Inr _) \<Rightarrow> (invalidate_user_sessions user_name self', Inr ()))))
           | _ \<Rightarrow> (self, Inl (SUnsupportedAuthMethod ''non-password''))))"


subsection \<open>Accounts are filed under their user names\<close>

definition users_wf :: "user_store \<Rightarrow> bool" where
  "users_wf users \<longleftrightarrow> hm_wf users \<and> (\<forall>n u. hm_get users n = Some u \<longrightarrow> id_username (ur_identity u) = n)"

lemma users_wf_insert: "users_wf users \<Longrightarrow> users_wf (hm_insert (id_username (ur_identity u)) u users)"
  by (simp add: users_wf_def)

lemma users_wf_store: "users_wf users \<Longrightarrow> users_wf (fst (store_user u users))"
  by (simp add: store_user_def Let_def users_wf_insert)

lemma users_wf_update: "users_wf users \<Longrightarrow> users_wf (fst (update_user u users))"
  by (simp add: update_user_def Let_def users_wf_insert)

lemma users_wf_with_users: "users_wf (store_with_users us)"
proof -
  have "users_wf users \<Longrightarrow> users_wf (fold (\<lambda>u. hm_insert (id_username (ur_identity u)) u) us users)" for users
    by (induction us arbitrary: users) (simp_all add: users_wf_insert)
  moreover have "users_wf []" by (simp add: users_wf_def)
  ultimately show ?thesis by (simp add: store_with_users_def)
qed

lemma update_known:
  assumes "users_wf users" "hm_get users n = Some u" "id_username (ur_identity u') = id_username (ur_identity u)"
  shows "update_user u' users = (hm_insert n u' users, Inr ())"
proof -
  have "id_username (ur_identity u') = n" using assms by (simp add: users_wf_def)
  then show ?thesis using assms(2) by (simp add: update_user_def hm_contains_key_def)
qed

lemma login_failed_known:
  assumes "users_wf (ua_user_store s)" "get_user n (ua_user_store s) = Some u"
  shows "login_failed u s = s\<lparr>ua_user_store :=
    hm_insert n (u\<lparr>ur_failed_attempts := ur_failed_attempts u + 1,
       ur_status := if ur_failed_attempts u + 1 \<ge> ua_max_failed_attempts s then AccountLocked else ur_status u\<rparr>)
      (ua_user_store s)\<rparr>"
  using assms by (simp add: login_failed_def Let_def get_user_def update_known)

lemma open_session_known:
  assumes "users_wf (ua_user_store s)" "get_user n (ua_user_store s) = Some u"
  shows "fst (open_session read sid u s) = s\<lparr>
     ua_user_store := hm_insert n (u\<lparr>ur_failed_attempts := 0, ur_last_login := Some (fst read)\<rparr>) (ua_user_store s),
     ua_sessions := hm_insert sid \<lparr>us_session_id = sid, us_identity = ur_identity u, us_device_id = None,
       us_created_at = snd read, us_expires_at = snd read + ua_session_expiry s\<rparr> (ua_sessions s)\<rparr>"
  using assms by (simp add: open_session_def Let_def get_user_def update_known case_prod_beta)


subsection \<open>Lockout\<close>

text \<open>Attempts, each at its own time, with its own clock, session id and credential.\<close>

fun attempts ::
    "'salt password_crypto \<Rightarrow> hmac \<Rightarrow> string \<Rightarrow> (u64 option \<times> (nat \<times> nat) \<times> 'sid \<times> credential) list \<Rightarrow>
     ('sid, 'd) user_authenticator \<Rightarrow> ('sid, 'd) user_authenticator" where
  "attempts A H n [] s = s"
| "attempts A H n ((clock, read, sid, cred) # xs) s = attempts A H n xs (fst (authenticate A H clock read sid n cred s))"

text \<open>
  How an attempt ends on an active account: accepted, counted as a failure (a wrong password, PIN, card or
  certificate), or refused with an error that is not counted (a wrong one-time code, a credential of the
  wrong kind, a stored hash that does not parse).
\<close>

definition accepted :: "'salt password_crypto \<Rightarrow> hmac \<Rightarrow> auth_method \<Rightarrow> (u64 option \<times> (nat \<times> nat) \<times> 'sid \<times> credential) \<Rightarrow> bool" where
  "accepted A H method = (\<lambda>(clock, read, sid, cred). verify_credentials A H clock method cred = Inr True)"

definition counted :: "'salt password_crypto \<Rightarrow> hmac \<Rightarrow> auth_method \<Rightarrow> (u64 option \<times> (nat \<times> nat) \<times> 'sid \<times> credential) \<Rightarrow> bool" where
  "counted A H method = (\<lambda>(clock, read, sid, cred). verify_credentials A H clock method cred = Inr False)"

lemma attempts_blocked:
  assumes "get_user n (ua_user_store s) = Some u" "ur_status u \<noteq> AccountActive"
  shows "attempts A H n xs s = s"
proof (induction xs)
  case (Cons x xs)
  obtain clock read sid cred where x: "x = (clock, read, sid, cred)" by (cases x) auto
  have "fst (authenticate A H clock read sid n cred s) = s"
    using assms by (cases "ur_status u") (simp_all add: authenticate_def)
  with Cons show ?case by (simp add: x)
qed simp

lemma attempts_count:
  assumes "users_wf (ua_user_store s)" "get_user n (ua_user_store s) = Some u" "ur_status u = AccountActive"
    and "ur_failed_attempts u < ua_max_failed_attempts s" "\<forall>x \<in> set xs. \<not> accepted A H (ur_auth_method u) x"
  defines "c \<equiv> length (filter (counted A H (ur_auth_method u)) xs)" and "s' \<equiv> attempts A H n xs s"
  shows "ua_sessions s' = ua_sessions s \<and>
    (if unat (ur_failed_attempts u) + c < unat (ua_max_failed_attempts s)
     then get_user n (ua_user_store s') = Some (u\<lparr>ur_failed_attempts := ur_failed_attempts u + of_nat c\<rparr>)
     else (\<exists>u'. get_user n (ua_user_store s') = Some u' \<and> ur_status u' = AccountLocked))"
  using assms(1-5) unfolding c_def s'_def
proof (induction xs arbitrary: s u)
  case Nil
  then show ?case by (simp add: word_less_nat_alt)
next
  case (Cons x xs)
  obtain clock read sid cred where x: "x = (clock, read, sid, cred)" by (cases x) auto
  let ?v = "verify_credentials A H clock (ur_auth_method u) cred"
  show ?case
  proof (cases "?v = Inr False")
    case False
    then obtain e where "?v = Inl e" using Cons.prems(5) by (cases ?v) (auto simp: x accepted_def)
    then have "fst (authenticate A H clock read sid n cred s) = s" using Cons.prems(2,3) by (simp add: authenticate_def)
    then show ?thesis using Cons.IH [OF Cons.prems(1-4)] Cons.prems(5) False by (simp add: x counted_def)
  next
    case True
    let ?s = "login_failed u s"
    let ?u = "u\<lparr>ur_failed_attempts := ur_failed_attempts u + 1,
       ur_status := if ur_failed_attempts u + 1 \<ge> ua_max_failed_attempts s then AccountLocked else ur_status u\<rparr>"
    have step: "fst (authenticate A H clock read sid n cred s) = ?s"
      using Cons.prems(2,3) True by (simp add: authenticate_def)
    have cx: "counted A H (ur_auth_method u) x" using True by (simp add: x counted_def)
    have step': "attempts A H n (x # xs) s = attempts A H n xs ?s" by (simp add: x step)
    have known: "?s = s\<lparr>ua_user_store := hm_insert n ?u (ua_user_store s)\<rparr>"
      by (rule login_failed_known [OF Cons.prems(1,2)])
    have get: "get_user n (ua_user_store ?s) = Some ?u" by (simp add: known get_user_def)
    have inc: "unat (ur_failed_attempts u + 1) = unat (ur_failed_attempts u) + 1"
      using unsigned_less [of "ua_max_failed_attempts s", where ?'a = nat] Cons.prems(4)
      by (simp add: unat_word_ariths word_less_nat_alt)
    show ?thesis
    proof (cases "ur_failed_attempts u + 1 \<ge> ua_max_failed_attempts s")
      case True
      then have "attempts A H n xs ?s = ?s" using attempts_blocked [OF get] by simp
      then show ?thesis
        using True get inc cx by (simp add: step' word_le_nat_alt) (simp add: known)
    next
      case False
      then have u: "?u = u\<lparr>ur_failed_attempts := ur_failed_attempts u + 1\<rparr>" by simp
      have "users_wf (ua_user_store ?s)" by (simp add: login_failed_def Let_def users_wf_update [OF Cons.prems(1)])
      note IH = Cons.IH [OF this get, unfolded u]
      have "ua_max_failed_attempts ?s = ua_max_failed_attempts s" "ua_sessions ?s = ua_sessions s" by (simp_all add: known)
      then show ?thesis
        using IH False Cons.prems(3,5) inc cx by (simp add: step' not_le add_ac)
    qed
  qed
qed


text \<open>Instances for the witnesses: passwords are stored as they are, every code is six zeros.\<close>

definition plain_passwords :: "unit password_crypto" where
  "plain_passwords = \<lparr>pw_parse = (\<lambda>_. None), pw_verify = (\<lambda>p h. p = h), pw_hash = (\<lambda>p _. Inr p)\<rparr>"

definition zero_hmac :: hmac where
  "zero_hmac = (\<lambda>_. Inr (\<lambda>_. replicate 32 0))"

definition example_user :: user_record where
  "example_user = \<lparr>ur_identity = build (user_identity_builder_new ''alpha''), ur_auth_method = MethodPasswordMfa ''pw'' [1],
     ur_status = AccountActive, ur_created_at = 0, ur_last_login = None, ur_failed_attempts = 0\<rparr>"

definition example_authenticator :: "(nat, nat) user_authenticator" where
  "example_authenticator = authenticator_new (store_with_users [example_user])"

lemma example_user_stored:
  "get_user ''alpha'' (ua_user_store example_authenticator) = Some example_user"
  "users_wf (ua_user_store example_authenticator)" "ua_max_failed_attempts example_authenticator = 5"
  using users_wf_with_users [of "[example_user]"]
  by (simp_all add: example_authenticator_def authenticator_new_def get_user_def store_with_users_def
      example_user_def build_def user_identity_builder_new_def)



subsection \<open>What the failure counter does not see\<close>

text \<open>
  Guessing one-time codes is unlimited: attempts with the right password and a wrong code are
  refused but never counted, so no number of them changes anything or locks the account.
\<close>

theorem mfa_guesses_not_counted:
  assumes "hmac_ok H" "get_user n (ua_user_store s) = Some u" "ur_status u = AccountActive"
    and "ur_auth_method u = MethodPasswordMfa h secret" "pw_parse A h = None" "pw_verify A password h"
    and "\<forall>(clock, read, sid, cred) \<in> set xs. \<exists>time code. clock = Some time \<and> cred = CredPasswordMfa password code
           \<and> verify_totp H clock secret code = Inr False"
  shows "attempts A H n xs s = s
         \<and> (\<forall>(clock, read, sid, cred) \<in> set xs. authenticate A H clock read sid n cred s = (s, Inl SInvalidMfaCode))"
proof -
  have one: "authenticate A H clock read sid n cred s = (s, Inl SInvalidMfaCode)"
    if "(clock, read, sid, cred) \<in> set xs" for clock read sid cred
    using that assms by (fastforce simp: authenticate_def)
  then have "attempts A H n xs s = s"
    by (induction xs) auto
  with one show ?thesis by blast
qed

theorem mfa_guesses_not_counted_witness:
  "attempts plain_passwords zero_hmac ''alpha'' (replicate 1000 (Some 0, (1, 1), 1, CredPasswordMfa ''pw'' ''123456''))
     example_authenticator = example_authenticator"
proof -
  have h: "hmac_ok zero_hmac" by (simp add: hmac_ok_def zero_hmac_def)
  have d: "display_nat 0 = ''0''" "replicate 5 (CHR ''0'') = ''00000''" by code_simp+
  have "generate_hotp zero_hmac [1] c = Inr ''000000''" for c
    using d by (simp add: generate_hotp_def zero_hmac_def Let_def zero_padded_def TOTP_CODE_LENGTH_def)
  then have "verify_totp zero_hmac (Some 0) [1] ''123456'' = Inr False"
    by (simp add: verify_totp_def totp_offsets_accepts [OF h])
  with mfa_guesses_not_counted [OF h example_user_stored(1), of "''pw''" "[1]" plain_passwords "''pw''"
      "replicate 1000 (Some 0, (1, 1), 1, CredPasswordMfa ''pw'' ''123456'')"]
  show ?thesis by (simp add: example_user_def plain_passwords_def)
qed

text \<open>
  Changing the password is an unlimited oracle for it: a wrong old password is reported as wrong
  and never counted, and the right one is accepted, in every status of the account, locked and
  disabled included.
\<close>

theorem change_password_ignores_lockout:
  assumes "users_wf (ua_user_store s)" "get_user n (ua_user_store s) = Some u" "ur_auth_method u = MethodPasswordMfa h secret"
    and "pw_parse A h = None" "pw_hash A new_pw salt = Inr new_hash"
  shows "change_password A salt n old_pw new_pw s =
    (if pw_verify A old_pw h
     then (invalidate_user_sessions n (s\<lparr>ua_user_store :=
             hm_insert n (u\<lparr>ur_auth_method := MethodPasswordMfa new_hash secret\<rparr>) (ua_user_store s)\<rparr>), Inr ())
     else (s, Inl (SInvalidCredential n)))"
  using assms by (simp add: change_password_def set_user_def get_user_def update_known)

theorem change_password_ignores_lockout_witness:
  "snd (change_password plain_passwords () ''alpha'' ''guess'' ''new''
     (fst (disable_account ''alpha'' example_authenticator))) = Inl (SInvalidCredential ''alpha'')
   \<and> snd (change_password plain_passwords () ''alpha'' ''pw'' ''new''
     (fst (disable_account ''alpha'' example_authenticator))) = Inr ()"
proof -
  let ?u = "example_user\<lparr>ur_status := AccountDisabled\<rparr>" and ?s = "fst (disable_account ''alpha'' example_authenticator)"
  have known: "update_user ?u (ua_user_store example_authenticator) = (hm_insert ''alpha'' ?u (ua_user_store example_authenticator), Inr ())"
    using example_user_stored by (intro update_known) (simp_all add: get_user_def)
  have s: "ua_user_store ?s = hm_insert ''alpha'' ?u (ua_user_store example_authenticator)"
    using example_user_stored(1) by (simp add: disable_account_def set_user_def known invalidate_user_sessions_def)
  have "users_wf (ua_user_store ?s)"
    using users_wf_insert [OF example_user_stored(2), of ?u]
    by (simp add: s example_user_def build_def user_identity_builder_new_def)
  moreover have "get_user ''alpha'' (ua_user_store ?s) = Some ?u" by (simp add: s get_user_def)
  ultimately show ?thesis
    using change_password_ignores_lockout [of ?s "''alpha''" ?u "''pw''" "[1]" plain_passwords "''new''" "()" "''new''"]
    by (simp add: example_user_def plain_passwords_def)
qed


subsection \<open>Disabled accounts\<close>

text \<open>A disabled account has no session.\<close>

definition disabled :: "string \<Rightarrow> ('sid, 'd) user_authenticator \<Rightarrow> bool" where
  "disabled n s \<longleftrightarrow>
     users_wf (ua_user_store s) \<and> hm_wf (ua_sessions s) \<and>
     (\<exists>u. get_user n (ua_user_store s) = Some u \<and> ur_status u = AccountDisabled) \<and>
     (\<forall>sid x. hm_get (ua_sessions s) sid = Some x \<longrightarrow> id_username (us_identity x) \<noteq> n)"

lemma disabled_sessions:
  "disabled n s \<Longrightarrow> hm_wf ss \<Longrightarrow> (\<And>sid x. hm_get ss sid = Some x \<Longrightarrow> id_username (us_identity x) \<noteq> n)
     \<Longrightarrow> disabled n (s\<lparr>ua_sessions := ss\<rparr>)"
  by (simp add: disabled_def)

lemma disabled_other_user:
  "disabled n s \<Longrightarrow> id_username (ur_identity u) = m \<Longrightarrow> m \<noteq> n \<Longrightarrow> disabled n (s\<lparr>ua_user_store := hm_insert m u (ua_user_store s)\<rparr>)"
  using users_wf_insert [of "ua_user_store s" u] by (auto simp: disabled_def get_user_def)

lemma disabled_login:
  assumes "disabled n s" "get_user m (ua_user_store s) = Some u" "status_error m (ur_status u) = None"
  shows "disabled n (login_failed u s)" "disabled n (fst (open_session read sid u s))"
proof -
  have wf: "users_wf (ua_user_store s)" using assms(1) by (simp add: disabled_def)
  have m: "id_username (ur_identity u) = m" using wf assms(2) by (simp add: users_wf_def get_user_def)
  have "m \<noteq> n" using assms by (auto simp: disabled_def)
  then show "disabled n (login_failed u s)"
    unfolding login_failed_known [OF wf assms(2)] using m by (intro disabled_other_user [OF assms(1)]) simp_all
  have "disabled n (s\<lparr>ua_user_store := hm_insert m (u\<lparr>ur_failed_attempts := 0, ur_last_login := Some (fst read)\<rparr>) (ua_user_store s)\<rparr>)"
    using m \<open>m \<noteq> n\<close> by (intro disabled_other_user [OF assms(1)]) simp_all
  then show "disabled n (fst (open_session read sid u s))"
    unfolding open_session_known [OF wf assms(2)]
    using m \<open>m \<noteq> n\<close> by (auto simp: disabled_def split: if_splits)
qed

lemma disabled_set_user:
  assumes "disabled n s" "get_user m (ua_user_store s) = Some u" "ur_identity u' = ur_identity u"
    and "m = n \<longrightarrow> ur_status u' = AccountDisabled"
  shows "disabled n (fst (set_user u' s))"
proof -
  have wf: "users_wf (ua_user_store s)" using assms(1) by (simp add: disabled_def)
  then have "update_user u' (ua_user_store s) = (hm_insert m u' (ua_user_store s), Inr ())"
    using assms(2,3) by (intro update_known) (simp_all add: get_user_def)
  then have s': "fst (set_user u' s) = s\<lparr>ua_user_store := hm_insert m u' (ua_user_store s)\<rparr>"
    by (simp add: set_user_def)
  have m: "id_username (ur_identity u') = m"
    using wf assms(2,3) by (simp add: users_wf_def get_user_def)
  have wf': "users_wf (hm_insert m u' (ua_user_store s))"
    using users_wf_insert [OF wf, of u'] unfolding m .
  show ?thesis
  proof (cases "m = n")
    case True
    with assms(1,4) wf' show ?thesis by (simp add: s' disabled_def get_user_def)
  next
    case False
    then show ?thesis unfolding s' by (rule disabled_other_user [OF assms(1) m])
  qed
qed

lemma disabled_retain: "disabled n s \<Longrightarrow> disabled n (s\<lparr>ua_sessions := hm_retain P (ua_sessions s)\<rparr>)"
  by (intro disabled_sessions) (auto simp: disabled_def hm_get_retain split: option.splits if_splits)

lemma disabled_update_logout:
  assumes "disabled n s" "get_user m (ua_user_store s) = Some u" "ur_identity u' = ur_identity u"
    and "m = n \<longrightarrow> ur_status u' = AccountDisabled"
  shows "disabled n (fst (case set_user u' s of (s', Inl e) \<Rightarrow> (s', Inl e) | (s', Inr _) \<Rightarrow> (invalidate_user_sessions k s', Inr ())))"
  using disabled_set_user [OF assms]
  by (cases "set_user u' s"; cases "snd (set_user u' s)") (simp_all add: invalidate_user_sessions_def disabled_retain)

lemma disabled_register: "disabled n s \<Longrightarrow> disabled n (fst (register_user A salt secret now pw identity s))"
proof (cases "pw_hash A pw salt")
  case (Inr h)
  let ?u = "\<lparr>ur_identity = identity, ur_auth_method = MethodPasswordMfa h secret, ur_status = AccountActive,
    ur_created_at = now, ur_last_login = None, ur_failed_attempts = 0\<rparr>"
  assume dis: "disabled n s"
  show ?thesis
  proof (cases "hm_contains_key (ua_user_store s) (id_username identity)")
    case True
    with Inr dis show ?thesis by (simp add: register_user_def store_user_def)
  next
    case False
    then have "id_username identity \<noteq> n" using dis by (auto simp: disabled_def hm_contains_key_def get_user_def)
    then have "disabled n (s\<lparr>ua_user_store := hm_insert (id_username identity) ?u (ua_user_store s)\<rparr>)"
      by (intro disabled_other_user [OF dis]) simp_all
    with Inr False show ?thesis by (simp add: register_user_def store_user_def)
  qed
qed (simp add: register_user_def)

lemma disabled_disable: "disabled n s \<Longrightarrow> disabled n (fst (disable_account m s))"
  using disabled_update_logout [of n s m _ _ m] by (auto simp: disable_account_def split: option.split)

lemma disabled_change:
  assumes "disabled n s"
  shows "disabled n (fst (change_password A salt m old_pw new_pw s))"
proof (cases "get_user m (ua_user_store s)")
  case (Some u)
  have "m = n \<longrightarrow> ur_status u = AccountDisabled" using assms Some by (auto simp: disabled_def)
  then have "disabled n (fst (case set_user (u\<lparr>ur_auth_method := x\<rparr>) s of (s', Inl e) \<Rightarrow> (s', Inl e)
      | (s', Inr _) \<Rightarrow> (invalidate_user_sessions m s', Inr ())))" for x
    using disabled_update_logout [OF assms Some, of "u\<lparr>ur_auth_method := x\<rparr>" m] by simp
  with assms Some show ?thesis
    by (simp add: change_password_def split: auth_method.split option.split sum.split)
qed (simp add: change_password_def assms)

inductive account_step :: "'salt password_crypto \<Rightarrow> hmac \<Rightarrow> string \<Rightarrow> ('sid, 'd) user_authenticator \<Rightarrow> ('sid, 'd) user_authenticator \<Rightarrow> bool"
    for A H n where
  login: "account_step A H n s (fst (authenticate A H clock read sid m cred s))"
| login_password: "account_step A H n s (fst (authenticate_password_only A read sid m pw s))"
| register: "account_step A H n s (fst (register_user A salt secret now pw identity s))"
| validate: "account_step A H n s (fst (validate_session now sid s))"
| logout: "account_step A H n s (invalidate_session sid s)"
| logout_all: "account_step A H n s (invalidate_user_sessions m s)"
| cleanup: "account_step A H n s (cleanup_expired_sessions now s)"
| bind: "account_step A H n s (fst (bind_session_to_device sid d s))"
| disable: "account_step A H n s (fst (disable_account m s))"
| change: "account_step A H n s (fst (change_password A salt m old_pw new_pw s))"
| unlock: "m \<noteq> n \<Longrightarrow> account_step A H n s (fst (unlock_account m s))"

lemma disabled_step: "account_step A H n s s' \<Longrightarrow> disabled n s \<Longrightarrow> disabled n s'"
proof (induction rule: account_step.cases)
  case (login s clock read sid m cred)
  then show ?case
    by (auto simp: authenticate_def disabled_login split: option.split sum.split)
next
  case (login_password s read sid m pw)
  then show ?case
    by (auto simp: authenticate_password_only_def disabled_login split: option.split auth_method.split)
next
  case (validate s now sid)
  then show ?case
    by (auto simp: validate_session_def invalidate_session_def disabled_def split: option.split if_splits)
next
  case (bind s sid d)
  then show ?case
    by (auto simp: bind_session_to_device_def disabled_def split: option.split if_splits)
next
  case (unlock m s)
  then show ?case
    using disabled_set_user [of n s m] by (auto simp: unlock_account_def split: option.split)
next
  case (logout s sid)
  then show ?case by (auto simp: invalidate_session_def disabled_def split: if_splits)
qed (simp_all add: invalidate_user_sessions_def cleanup_expired_sessions_def disabled_retain disabled_register
    disabled_disable disabled_change)

lemma disable_account_disables:
  assumes "users_wf (ua_user_store s)" "hm_wf (ua_sessions s)" "snd (disable_account n s) = Inr ()"
  shows "disabled n (fst (disable_account n s))"
proof -
  obtain u where u: "get_user n (ua_user_store s) = Some u"
    using assms(3) by (auto simp: disable_account_def split: option.splits)
  then have "update_user (u\<lparr>ur_status := AccountDisabled\<rparr>) (ua_user_store s) =
      (hm_insert n (u\<lparr>ur_status := AccountDisabled\<rparr>) (ua_user_store s), Inr ())"
    using assms(1) by (intro update_known) (simp_all add: get_user_def)
  then have d: "fst (disable_account n s) =
      invalidate_user_sessions n (s\<lparr>ua_user_store := hm_insert n (u\<lparr>ur_status := AccountDisabled\<rparr>) (ua_user_store s)\<rparr>)"
    using u by (simp add: disable_account_def set_user_def)
  have "id_username (ur_identity u) = n" using u assms(1) by (simp add: users_wf_def get_user_def)
  then have "users_wf (hm_insert n (u\<lparr>ur_status := AccountDisabled\<rparr>) (ua_user_store s))"
    using users_wf_insert [OF assms(1), of "u\<lparr>ur_status := AccountDisabled\<rparr>"] by simp
  then show ?thesis
    using assms(2)
    by (auto simp: d disabled_def invalidate_user_sessions_def get_user_def hm_get_retain split: option.splits if_splits)
qed

text \<open>
  C14. A disabled user stays out: after \<open>disable_account\<close> succeeds, and whatever logins, registrations,
  password changes and session operations follow, as long as the account is not unlocked no session
  of the user is valid and every login of the user is refused as disabled. The operations run one after
  another, each to its end.
\<close>

theorem disabled_user_stays_out:
  assumes "users_wf (ua_user_store s)" "hm_wf (ua_sessions s)" "snd (disable_account n s) = Inr ()"
    and "(account_step A H n)\<^sup>*\<^sup>* (fst (disable_account n s)) s'"
  shows "(\<forall>who. snd (validate_session now sid s') = Inr who \<longrightarrow> id_username who \<noteq> n)
         \<and> authenticate A H clock read sid n cred s' = (s', Inl (SAccountDisabled n))"
proof -
  from assms(4) have dis: "disabled n s'"
    by (induction rule: rtranclp_induct) (simp_all add: disabled_step disable_account_disables [OF assms(1-3)])
  then have "\<forall>who. snd (validate_session now sid s') = Inr who \<longrightarrow> id_username who \<noteq> n"
    by (auto simp: validate_session_def disabled_def split: option.splits if_splits)
  with dis show ?thesis by (auto simp: disabled_def authenticate_def)
qed

theorem disabled_user_stays_out_witness:
  "let s = fst (disable_account ''alpha'' example_authenticator)
   in snd (authenticate plain_passwords zero_hmac (Some 0) (7, 7) 9 ''alpha'' (CredPasswordMfa ''pw'' ''000000'')
        (fst (change_password plain_passwords () ''alpha'' ''pw'' ''new'' s))) = Inl (SAccountDisabled ''alpha'')"
proof -
  have "update_user (example_user\<lparr>ur_status := AccountDisabled\<rparr>) (ua_user_store example_authenticator) =
      (hm_insert ''alpha'' (example_user\<lparr>ur_status := AccountDisabled\<rparr>) (ua_user_store example_authenticator), Inr ())"
    using example_user_stored by (intro update_known) (simp_all add: get_user_def)
  then have d: "snd (disable_account ''alpha'' example_authenticator) = Inr ()"
    using example_user_stored(1) by (simp add: disable_account_def set_user_def)
  have w: "hm_wf (ua_sessions example_authenticator)"
    by (simp add: example_authenticator_def authenticator_new_def)
  have r: "(account_step plain_passwords zero_hmac ''alpha'')\<^sup>*\<^sup>* (fst (disable_account ''alpha'' example_authenticator))
      (fst (change_password plain_passwords () ''alpha'' ''pw'' ''new'' (fst (disable_account ''alpha'' example_authenticator))))"
    by (intro r_into_rtranclp account_step.change)
  from disabled_user_stays_out [OF example_user_stored(2) w d r] show ?thesis by (simp add: Let_def)
qed

text \<open>Unlocking is not limited to locked accounts: it also re-enables a disabled or pending one.\<close>

lemma unlock_reenables:
  assumes "users_wf (ua_user_store s)" "get_user n (ua_user_store s) = Some u"
  shows "get_user n (ua_user_store (fst (unlock_account n s))) = Some (u\<lparr>ur_status := AccountActive, ur_failed_attempts := 0\<rparr>)"
  using assms by (simp add: unlock_account_def set_user_def get_user_def update_known)

text \<open>
  The operations above run one after another. The code holds no lock between reading an account and writing
  it back, and \<open>open_session\<close> is what a login does after it has read the account: when an account is
  disabled in between, the login writes the account back as active and opens a session.
\<close>

theorem stale_login_reactivates:
  fixes s :: "('sid, 'd) user_authenticator" and sid :: 'sid and read :: "nat \<times> nat"
  assumes "users_wf (ua_user_store s)" "get_user n (ua_user_store s) = Some u" "ur_status u = AccountActive"
  defines "s' \<equiv> fst (open_session read sid u (fst (disable_account n s)))"
  shows "snd (disable_account n s) = Inr () \<and>
    (\<exists>u'. get_user n (ua_user_store s') = Some u' \<and> ur_status u' = AccountActive) \<and>
    (snd read \<le> now \<and> now \<le> snd read + ua_session_expiry s \<longrightarrow> snd (validate_session now sid s') = Inr (ur_identity u))"
proof -
  let ?u = "u\<lparr>ur_status := AccountDisabled\<rparr>"
  have "update_user ?u (ua_user_store s) = (hm_insert n ?u (ua_user_store s), Inr ())"
    using assms(1,2) by (intro update_known) (simp_all add: get_user_def)
  then have d: "disable_account n s = (invalidate_user_sessions n (s\<lparr>ua_user_store := hm_insert n ?u (ua_user_store s)\<rparr>), Inr ())"
    using assms(2) by (simp add: disable_account_def set_user_def)
  have "id_username (ur_identity u) = n" using assms(1,2) by (simp add: users_wf_def get_user_def)
  then have "update_user (u\<lparr>ur_failed_attempts := 0, ur_last_login := Some (fst read)\<rparr>) (hm_insert n ?u (ua_user_store s))
      = (hm_insert n (u\<lparr>ur_failed_attempts := 0, ur_last_login := Some (fst read)\<rparr>) (hm_insert n ?u (ua_user_store s)), Inr ())"
    by (simp add: update_user_def hm_contains_key_def)
  then show ?thesis
    using assms(3) by (simp add: s'_def d open_session_def invalidate_user_sessions_def get_user_def validate_session_def
        session_is_expired_def case_prod_beta Let_def)
qed

end
