(* ===== verification/Device_Auth.thy ===== *)
theory Device_Auth
  imports Security_Base Peat_Schema
begin

text \<open>
  Device authentication: the challenge-response protocol of \<open>peat-protocol/src/security/authenticator.rs\<close>
  and the transport wrapper of \<open>security/transport.rs\<close> that runs it before handing out connections.
  Keys and device ids come from the record of key operations. The nonce, the timeout and the clock,
  in nanoseconds since the epoch, are arguments.
\<close>


subsection \<open>Messages\<close>

record challenge =
  ch_nonce :: "u8 list"
  ch_timestamp :: "timestamp option"
  ch_challenger_id :: string
  ch_expires_at :: "timestamp option"
  ch_protocol_version :: u32
  ch_capabilities :: "string list"

record signed_challenge_response =
  sr_challenge_nonce :: "u8 list"
  sr_public_key :: "u8 list"
  sr_signature :: "u8 list"
  sr_timestamp :: "timestamp option"
  sr_device_type :: int
  sr_certificates :: "u8 list list"
  sr_protocol_version :: u32
  sr_capabilities :: "string list"

definition CURRENT_PROTOCOL_VERSION :: u32 where
  "CURRENT_PROTOCOL_VERSION = 1"

definition INCOMPATIBLE_PROTOCOL_VERSION_PREFIX :: string where
  "INCOMPATIBLE_PROTOCOL_VERSION_PREFIX = ''incompatible protocol version:''"

definition as_secs :: "nat \<Rightarrow> u64" where
  "as_secs ns = word_of_nat (ns div 1000000000)"

definition subsec_nanos :: "nat \<Rightarrow> u32" where
  "subsec_nanos ns = word_of_nat (ns mod 1000000000)"

definition timestamp_of :: "nat \<Rightarrow> timestamp option" where
  "timestamp_of ns = Some \<lparr>seconds = as_secs ns, nanos = subsec_nanos ns\<rparr>"

definition build_signed_message :: "u8 list \<Rightarrow> string \<Rightarrow> u64 \<Rightarrow> u32 \<Rightarrow> u8 list" where
  "build_signed_message nonce challenger_id response_ts_seconds protocol_version =
     nonce @ as_bytes challenger_id @ to_le_bytes response_ts_seconds
     @ (if protocol_version \<ge> 1 then to_le_bytes32 protocol_version else [])"


subsection \<open>The authenticator\<close>

record 'd verified_peer =
  vp_device_id :: 'd
  vp_public_key :: "u8 list"
  vp_verified_at :: nat

record ('k, 'd) device_authenticator =
  da_keypair :: 'k
  da_verified_peers :: "('d, 'd verified_peer) hash_map"
  da_challenge_timeout :: nat

definition with_timeout :: "'k \<Rightarrow> nat \<Rightarrow> ('k, 'd) device_authenticator" where
  "with_timeout keypair challenge_timeout =
     \<lparr>da_keypair = keypair, da_verified_peers = [], da_challenge_timeout = challenge_timeout\<rparr>"

definition device_id :: "('k, 'd) device_crypto \<Rightarrow> ('k, 'd) device_authenticator \<Rightarrow> 'd" where
  "device_id C self = id_from_public_key C (kp_public_key C (da_keypair self))"

definition generate_challenge ::
    "('k, 'd) device_crypto \<Rightarrow> u8 list \<Rightarrow> nat \<Rightarrow> ('k, 'd) device_authenticator \<Rightarrow> challenge" where
  "generate_challenge C nonce now self =
     \<lparr>ch_nonce = nonce, ch_timestamp = timestamp_of now, ch_challenger_id = id_to_hex C (device_id C self),
      ch_expires_at = timestamp_of (now + da_challenge_timeout self), ch_protocol_version = CURRENT_PROTOCOL_VERSION,
      ch_capabilities = []\<rparr>"

definition check_challenge_expiry :: "nat \<Rightarrow> challenge \<Rightarrow> security_error + unit" where
  "check_challenge_expiry now c =
     (case ch_expires_at c of
        Some expires \<Rightarrow> if as_secs now > seconds expires then Inl (SChallengeExpired (seconds expires)) else Inr ()
      | None \<Rightarrow> Inr ())"

text \<open>The clock is read twice: for the expiry and, later, for the time of the response.\<close>

definition respond_to_challenge ::
    "('k, 'd) device_crypto \<Rightarrow> nat \<Rightarrow> nat \<Rightarrow> challenge \<Rightarrow> ('k, 'd) device_authenticator \<Rightarrow> security_error + signed_challenge_response" where
  "respond_to_challenge C checked now c self =
     (case check_challenge_expiry checked c of
        Inl e \<Rightarrow> Inl e
      | Inr _ \<Rightarrow>
          (let negotiated_version = min (ch_protocol_version c) CURRENT_PROTOCOL_VERSION;
               response_ts_seconds = as_secs now;
               message = build_signed_message (ch_nonce c) (ch_challenger_id c) response_ts_seconds negotiated_version
           in Inr \<lparr>sr_challenge_nonce = ch_nonce c, sr_public_key = kp_public_key C (da_keypair self),
                   sr_signature = kp_sign C (da_keypair self) message,
                   sr_timestamp = Some \<lparr>seconds = response_ts_seconds, nanos = 0\<rparr>, sr_device_type = 0,
                   sr_certificates = [], sr_protocol_version = negotiated_version, sr_capabilities = []\<rparr>))"

definition verify_response ::
    "('k, 'd) device_crypto \<Rightarrow> nat \<Rightarrow> signed_challenge_response \<Rightarrow> ('k, 'd) device_authenticator \<Rightarrow>
     ('k, 'd) device_authenticator \<times> (security_error + 'd)" where
  "verify_response C now response self =
     (if sr_protocol_version response > CURRENT_PROTOCOL_VERSION
      then (self, Inl (SAuthenticationFailed (INCOMPATIBLE_PROTOCOL_VERSION_PREFIX @ '' peer claims '' @
              display_nat (unat (sr_protocol_version response)) @ '', our maximum is '' @
              display_nat (unat CURRENT_PROTOCOL_VERSION))))
      else case verifying_key_from_bytes C (sr_public_key response) of
        Inl e \<Rightarrow> (self, Inl e)
      | Inr public_key \<Rightarrow>
          (let peer_device_id = id_from_public_key C public_key;
               response_ts_seconds = secs_or_0 (sr_timestamp response);
               message = build_signed_message (sr_challenge_nonce response) (id_to_hex C (device_id C self))
                           response_ts_seconds (sr_protocol_version response)
           in case signature_from_bytes C (sr_signature response) of
                Inl e \<Rightarrow> (self, Inl e)
              | Inr signature \<Rightarrow>
                  (case verify_with_key C public_key message signature of
                     Inl e \<Rightarrow> (self, Inl e)
                   | Inr _ \<Rightarrow>
                       (self\<lparr>da_verified_peers := hm_insert peer_device_id
                          \<lparr>vp_device_id = peer_device_id, vp_public_key = public_key, vp_verified_at = now\<rparr>
                          (da_verified_peers self)\<rparr>, Inr peer_device_id))))"

definition is_verified :: "'d \<Rightarrow> ('k, 'd) device_authenticator \<Rightarrow> bool" where
  "is_verified d self = hm_contains_key (da_verified_peers self) d"

definition remove_peer :: "'d \<Rightarrow> ('k, 'd) device_authenticator \<Rightarrow> ('k, 'd) device_authenticator" where
  "remove_peer d self = self\<lparr>da_verified_peers := hm_remove d (da_verified_peers self)\<rparr>"

definition clear_verified_peers :: "('k, 'd) device_authenticator \<Rightarrow> ('k, 'd) device_authenticator" where
  "clear_verified_peers self = self\<lparr>da_verified_peers := []\<rparr>"

subsection \<open>The secure transport\<close>

text \<open>
  The channel that carries the messages is a parameter: what it answers to a peer id, for a response
  also given the challenge that was sent before. So are the operations of the inner transport.
\<close>

record 'n authentication_channel =
  ac_send_challenge :: "'n \<Rightarrow> challenge \<Rightarrow> security_error + unit"
  ac_receive_response :: "'n \<Rightarrow> challenge \<Rightarrow> security_error + signed_challenge_response"
  ac_receive_challenge :: "'n \<Rightarrow> security_error + challenge"
  ac_send_response :: "'n \<Rightarrow> signed_challenge_response \<Rightarrow> security_error + unit"

record ('n, 'c) inner_transport =
  it_connect :: "'n \<Rightarrow> string + 'c"
  it_disconnect :: "'n \<Rightarrow> string + unit"
  it_get_connection :: "'n \<Rightarrow> 'c option"
  it_is_connected :: "'n \<Rightarrow> bool"

record ('n, 'k, 'd) secure_transport =
  st_authenticator :: "('k, 'd) device_authenticator"
  st_authenticated_peers :: "('n, 'd) hash_map"

definition transport_new :: "'k \<Rightarrow> nat \<Rightarrow> ('n, 'k, 'd) secure_transport" where
  "transport_new keypair timeout = \<lparr>st_authenticator = with_timeout keypair timeout, st_authenticated_peers = []\<rparr>"

definition is_authenticated :: "'n \<Rightarrow> ('n, 'k, 'd) secure_transport \<Rightarrow> bool" where
  "is_authenticated peer_id self = hm_contains_key (st_authenticated_peers self) peer_id"

definition get_peer_device_id :: "'n \<Rightarrow> ('n, 'k, 'd) secure_transport \<Rightarrow> 'd option" where
  "get_peer_device_id peer_id self = hm_get (st_authenticated_peers self) peer_id"

text \<open>The clock is read when the challenge is made, when a response has verified, and twice for our own response.\<close>

definition authenticate_peer ::
    "('k, 'd) device_crypto \<Rightarrow> 'n authentication_channel \<Rightarrow> u8 list \<Rightarrow> (nat \<Rightarrow> nat) \<Rightarrow> 'n \<Rightarrow> ('n, 'k, 'd) secure_transport \<Rightarrow>
     ('n, 'k, 'd) secure_transport \<times> (security_error + 'd)" where
  "authenticate_peer C channel nonce clock peer_id self =
     (case get_peer_device_id peer_id self of
        Some d \<Rightarrow> (self, Inr d)
      | None \<Rightarrow>
          (let c = generate_challenge C nonce (clock 0) (st_authenticator self)
           in case ac_send_challenge channel peer_id c of
                Inl e \<Rightarrow> (self, Inl e)
              | Inr _ \<Rightarrow>
                  (case ac_receive_response channel peer_id c of
                     Inl e \<Rightarrow> (self, Inl e)
                   | Inr response \<Rightarrow>
                       (case verify_response C (clock 1) response (st_authenticator self) of
                          (authenticator, Inl e) \<Rightarrow> (self\<lparr>st_authenticator := authenticator\<rparr>, Inl e)
                        | (authenticator, Inr d) \<Rightarrow>
                            (let self = self\<lparr>st_authenticator := authenticator\<rparr>
                             in case ac_receive_challenge channel peer_id of
                                  Inl e \<Rightarrow> (self, Inl e)
                                | Inr peer_challenge \<Rightarrow>
                                    (case respond_to_challenge C (clock 2) (clock 3) peer_challenge authenticator of
                                       Inl e \<Rightarrow> (self, Inl e)
                                     | Inr our_response \<Rightarrow>
                                         (case ac_send_response channel peer_id our_response of
                                            Inl e \<Rightarrow> (self, Inl e)
                                          | Inr _ \<Rightarrow>
                                              (self\<lparr>st_authenticated_peers :=
                                                 hm_insert peer_id d (st_authenticated_peers self)\<rparr>, Inr d))))))))"

definition remove_authenticated_peer :: "'n \<Rightarrow> ('n, 'k, 'd) secure_transport \<Rightarrow> ('n, 'k, 'd) secure_transport" where
  "remove_authenticated_peer peer_id self =
     (case hm_get (st_authenticated_peers self) peer_id of
        Some d \<Rightarrow> self\<lparr>st_authenticated_peers := hm_remove peer_id (st_authenticated_peers self),
                        st_authenticator := remove_peer d (st_authenticator self)\<rparr>
      | None \<Rightarrow> self)"

text \<open>The rendering of a security error is outside the repository and a parameter.\<close>

definition transport_connect ::
    "(security_error \<Rightarrow> string) \<Rightarrow> ('k, 'd) device_crypto \<Rightarrow> 'n authentication_channel \<Rightarrow> ('n, 'c) inner_transport \<Rightarrow>
     u8 list \<Rightarrow> (nat \<Rightarrow> nat) \<Rightarrow> 'n \<Rightarrow> ('n, 'k, 'd) secure_transport \<Rightarrow> ('n, 'k, 'd) secure_transport \<times> (string + 'c \<times> 'd)" where
  "transport_connect show_error C channel inner nonce clock peer_id self =
     (case it_connect inner peer_id of
        Inl e \<Rightarrow> (self, Inl e)
      | Inr conn \<Rightarrow>
          (case authenticate_peer C channel nonce clock peer_id self of
             (self, Inl e) \<Rightarrow> (self, Inl (''Authentication failed: '' @ show_error e))
           | (self, Inr _) \<Rightarrow>
               (case get_peer_device_id peer_id self of
                  Some d \<Rightarrow> (self, Inr (conn, d))
                | None \<Rightarrow> (self, Inl ''peer device ID missing after authentication''))))"

definition transport_disconnect ::
    "('n, 'c) inner_transport \<Rightarrow> 'n \<Rightarrow> ('n, 'k, 'd) secure_transport \<Rightarrow> ('n, 'k, 'd) secure_transport \<times> (string + unit)" where
  "transport_disconnect inner peer_id self = (remove_authenticated_peer peer_id self, it_disconnect inner peer_id)"

definition get_connection :: "('n, 'c) inner_transport \<Rightarrow> 'n \<Rightarrow> ('n, 'k, 'd) secure_transport \<Rightarrow> ('c \<times> 'd) option" where
  "get_connection inner peer_id self =
     (case get_peer_device_id peer_id self of
        Some d \<Rightarrow> map_option (\<lambda>conn. (conn, d)) (it_get_connection inner peer_id)
      | None \<Rightarrow> None)"

definition is_connected :: "('n, 'c) inner_transport \<Rightarrow> 'n \<Rightarrow> ('n, 'k, 'd) secure_transport \<Rightarrow> bool" where
  "is_connected inner peer_id self \<longleftrightarrow> is_authenticated peer_id self \<and> it_is_connected inner peer_id"


subsection \<open>The handshake\<close>

text \<open>
  C33. The handshake completes between honest devices. A response made to this device's challenge, with
  the expiry checked no later than the second in which the challenge expires, at whatever protocol version
  the challenge advertises, is made and verifies, and the responder's device is then known as verified. It
  verifies at any later time: the verifier looks at no clock, although section 5.4 of
  \<open>docs/spec/005-security.md\<close> asks it to refuse a challenge older than 30 seconds.
\<close>

theorem honest_response_verifies:
  assumes "signatures_verify C" "c = (generate_challenge C nonce t0 me)\<lparr>ch_protocol_version := v\<rparr>"
    and "as_secs t1 \<le> as_secs (t0 + da_challenge_timeout me)"
  shows "\<exists>r. respond_to_challenge C t1 t2 c peer = Inr r
           \<and> snd (verify_response C t3 r me) = Inr (device_id C peer)
           \<and> is_verified (device_id C peer) (fst (verify_response C t3 r me))"
proof -
  have fresh: "check_challenge_expiry t1 c = Inr ()"
    using assms(2,3) by (simp add: check_challenge_expiry_def generate_challenge_def timestamp_of_def)
  have "\<not> min v CURRENT_PROTOCOL_VERSION > CURRENT_PROTOCOL_VERSION" by simp
  with assms(1) fresh show ?thesis
    by (simp add: respond_to_challenge_def Let_def assms(2) generate_challenge_def verify_response_def
        signatures_verify_def secs_or_0_def device_id_def is_verified_def hm_contains_key_def)
qed

theorem honest_response_verifies_witness:
  "\<exists>r. respond_to_challenge example_crypto 1000000000 1000000001
         (generate_challenge example_crypto [9] 0 (with_timeout 1 (from_secs 30))) (with_timeout 2 0) = Inr r
       \<and> snd (verify_response example_crypto (from_secs 3600) r (with_timeout 1 (from_secs 30))) = Inr (replicate 32 2)"
proof -
  have "device_id example_crypto (with_timeout 2 0) = replicate 32 2"
    by (simp add: device_id_def with_timeout_def example_crypto_def)
  then show ?thesis
    using honest_response_verifies [OF example_crypto_verifies refl, where nonce = "[9]" and ?t0.0 = 0
        and me = "with_timeout 1 (from_secs 30)" and v = 1 and ?t1.0 = 1000000000 and ?t2.0 = 1000000001
        and peer = "with_timeout 2 0" and ?t3.0 = "from_secs 3600"]
    by (auto simp: generate_challenge_def CURRENT_PROTOCOL_VERSION_def with_timeout_def as_secs_def from_secs_def)
qed

text \<open>
  A response binds its nonce, time and version: for nonces of one length and versions this build
  speaks, two signed messages for the same challenger are equal only if all three agree.
\<close>

theorem signed_message_binds:
  assumes "length n1 = length n2" "v1 \<le> CURRENT_PROTOCOL_VERSION" "v2 \<le> CURRENT_PROTOCOL_VERSION"
    and "build_signed_message n1 challenger t1 v1 = build_signed_message n2 challenger t2 v2"
  shows "n1 = n2 \<and> t1 = t2 \<and> v1 = v2"
proof -
  have v: "v = 0 \<or> v = 1" if "v \<le> CURRENT_PROTOCOL_VERSION" for v
  proof -
    have "unat v = unat (0 :: u32) \<or> unat v = unat (1 :: u32)"
      using that by (auto simp: CURRENT_PROTOCOL_VERSION_def word_le_nat_alt)
    then show ?thesis by (simp only: word_unat_eq_iff)
  qed
  have "length (build_signed_message n1 challenger t1 v1) = length (build_signed_message n2 challenger t2 v2)"
    using assms(4) by simp
  then have "v1 = v2"
    using v [OF assms(2)] v [OF assms(3)] assms(1) by (auto simp: build_signed_message_def)
  with assms(1,4) show ?thesis
    by (simp add: build_signed_message_def to_le_bytes_inj)
qed

theorem signed_message_binds_witness:
  "build_signed_message [1] ''ab'' 5 0 \<noteq> build_signed_message [2] ''ab'' 5 1"
  using signed_message_binds [of "[1]" "[2]" 0 1 "''ab''" 5 5] by (auto simp: CURRENT_PROTOCOL_VERSION_def)


subsection \<open>Replay\<close>

lemma verify_response_again:
  assumes "snd (verify_response C t r s) = Inr d" "da_keypair s' = da_keypair s"
  shows "snd (verify_response C t' r s') = Inr d"
  using assms by (auto simp: verify_response_def device_id_def Let_def split: if_splits sum.splits)

text \<open>
  Recorded responses can be replayed: a response that this device accepted once is accepted again at
  any time and in any state, and the transport then takes the node that sent it, under any node id
  and whatever fresh challenge it was sent, for the device that made the response. (The node must
  send a challenge of its own and take our answer to it.)
\<close>

theorem recorded_response_replays:
  assumes "snd (verify_response C t0 r (st_authenticator s)) = Inr d"
    and "da_keypair (st_authenticator s') = da_keypair (st_authenticator s)" "get_peer_device_id node s' = None"
    and "\<forall>c. ac_send_challenge ch node c = Inr ()" "\<forall>c. ac_receive_response ch node c = Inr r"
    and "ac_receive_challenge ch node = Inr pc" "check_challenge_expiry (clock 2) pc = Inr ()"
    and "\<forall>x. ac_send_response ch node x = Inr ()"
  shows "let (s'', res) = authenticate_peer C ch nonce clock node s'
         in res = Inr d \<and> get_peer_device_id node s'' = Some d"
proof -
  obtain a where a: "verify_response C (clock 1) r (st_authenticator s') = (a, Inr d)"
    using verify_response_again [OF assms(1,2)] by (metis prod.collapse)
  obtain x where "respond_to_challenge C (clock 2) (clock 3) pc a = Inr x"
    using assms(7) by (simp add: respond_to_challenge_def Let_def)
  with a assms(3-8) show ?thesis
    by (simp add: authenticate_peer_def Let_def get_peer_device_id_def)
qed

definition example_responder :: signed_challenge_response where
  "example_responder =
     (case respond_to_challenge example_crypto 0 0 (generate_challenge example_crypto [9] 0 (with_timeout 1 0))
             (with_timeout 2 0) of Inr r \<Rightarrow> r)"

definition replaying_channel :: "nat authentication_channel" where
  "replaying_channel =
     \<lparr>ac_send_challenge = (\<lambda>_ _. Inr ()), ac_receive_response = (\<lambda>_ _. Inr example_responder),
      ac_receive_challenge = (\<lambda>_. Inr (generate_challenge example_crypto [4] 0 (with_timeout 3 (from_secs 100)))),
      ac_send_response = (\<lambda>_ _. Inr ())\<rparr>"

theorem recorded_response_replays_witness:
  "snd (authenticate_peer example_crypto replaying_channel [7, 7] (\<lambda>_. from_secs 90) 77 (transport_new 1 0))
     = Inr (replicate 32 2)"
proof -
  have r: "example_responder = \<lparr>sr_challenge_nonce = [9], sr_public_key = replicate 32 2, sr_signature = replicate 64 2,
      sr_timestamp = Some \<lparr>seconds = 0, nanos = 0\<rparr>, sr_device_type = 0, sr_certificates = [],
      sr_protocol_version = 1, sr_capabilities = []\<rparr>"
    by (simp add: example_responder_def respond_to_challenge_def check_challenge_expiry_def generate_challenge_def
        timestamp_of_def as_secs_def with_timeout_def example_crypto_def CURRENT_PROTOCOL_VERSION_def Let_def)
  have v: "snd (verify_response example_crypto 0 example_responder (st_authenticator (transport_new 1 0))) = Inr (replicate 32 2)"
    by (simp add: r verify_response_def example_crypto_def CURRENT_PROTOCOL_VERSION_def Let_def)
  have "let (s'', res) = authenticate_peer example_crypto replaying_channel [7, 7] (\<lambda>_. from_secs 90) 77 (transport_new 1 0)
      in res = Inr (replicate 32 2) \<and> get_peer_device_id 77 s'' = Some (replicate 32 2)"
    by (rule recorded_response_replays [OF v, where pc = "generate_challenge example_crypto [4] 0 (with_timeout 3 (from_secs 100))"])
       (simp_all add: replaying_channel_def transport_new_def get_peer_device_id_def check_challenge_expiry_def
         generate_challenge_def timestamp_of_def with_timeout_def as_secs_def from_secs_def)
  then show ?thesis by (simp add: case_prod_beta)
qed


subsection \<open>Connections\<close>

text \<open>
  What a response proves: its key parses to the key of the device \<open>d\<close>, and its signature verifies under
  that key for this device, the nonce, the time and the version that the response names.
\<close>

definition proves :: "('k, 'd) device_crypto \<Rightarrow> 'k \<Rightarrow> signed_challenge_response \<Rightarrow> 'd \<Rightarrow> bool" where
  "proves C keypair r d \<longleftrightarrow>
     sr_protocol_version r \<le> CURRENT_PROTOCOL_VERSION \<and>
     (\<exists>pk sig. verifying_key_from_bytes C (sr_public_key r) = Inr pk \<and> id_from_public_key C pk = d \<and>
        signature_from_bytes C (sr_signature r) = Inr sig \<and>
        verify_with_key C pk (build_signed_message (sr_challenge_nonce r)
          (id_to_hex C (id_from_public_key C (kp_public_key C keypair)))
          (secs_or_0 (sr_timestamp r)) (sr_protocol_version r)) sig = Inr ())"

text \<open>The response that a call of \<open>authenticate_peer\<close> receives: none when the node is known already.\<close>

definition heard :: "('k, 'd) device_crypto \<Rightarrow> 'n authentication_channel \<Rightarrow> u8 list \<Rightarrow> (nat \<Rightarrow> nat) \<Rightarrow> 'n \<Rightarrow>
    ('n, 'k, 'd) secure_transport \<Rightarrow> ('n \<times> signed_challenge_response) list" where
  "heard C ch nonce clock n s =
     (let c = generate_challenge C nonce (clock 0) (st_authenticator s)
      in if get_peer_device_id n s = None \<and> ac_send_challenge ch n c = Inr ()
         then (case ac_receive_response ch n c of Inr r \<Rightarrow> [(n, r)] | Inl _ \<Rightarrow> []) else [])"

text \<open>
  The life of a transport from its creation, with the responses received from each node since the node was
  last disconnected. The channel may answer differently each time, and so may the inner transport, whose
  answers at different times are the values of \<open>inner\<close>.
\<close>

inductive transport_run ::
    "('k, 'd) device_crypto \<Rightarrow> (nat \<Rightarrow> ('n, 'c) inner_transport) \<Rightarrow> 'k \<Rightarrow> nat \<Rightarrow> ('n \<times> signed_challenge_response) list \<Rightarrow>
     ('n, 'k, 'd) secure_transport \<Rightarrow> bool"
  for C inner keypair timeout where
  created: "transport_run C inner keypair timeout [] (transport_new keypair timeout)"
| authenticated: "transport_run C inner keypair timeout log s \<Longrightarrow>
    transport_run C inner keypair timeout (log @ heard C ch nonce clock n s) (fst (authenticate_peer C ch nonce clock n s))"
| connected: "transport_run C inner keypair timeout log s \<Longrightarrow> it_connect (inner i) n = Inr conn \<Longrightarrow>
    transport_run C inner keypair timeout (log @ heard C ch nonce clock n s)
      (fst (transport_connect show_error C ch (inner i) nonce clock n s))"
| removed: "transport_run C inner keypair timeout log s \<Longrightarrow>
    transport_run C inner keypair timeout (filter (\<lambda>(m, _). m \<noteq> n) log) (remove_authenticated_peer n s)"
| disconnected: "transport_run C inner keypair timeout log s \<Longrightarrow>
    transport_run C inner keypair timeout (filter (\<lambda>(m, _). m \<noteq> n) log) (fst (transport_disconnect (inner i) n s))"

definition proven :: "('k, 'd) device_crypto \<Rightarrow> 'k \<Rightarrow> ('n \<times> signed_challenge_response) list \<Rightarrow> ('n, 'k, 'd) secure_transport \<Rightarrow> bool" where
  "proven C keypair log s \<longleftrightarrow> da_keypair (st_authenticator s) = keypair \<and>
     (\<forall>n d. get_peer_device_id n s = Some d \<longrightarrow> (\<exists>r. (n, r) \<in> set log \<and> proves C keypair r d))"

lemma verify_response_proves:
  assumes "verify_response C t r a = (a', Inr d)"
  shows "proves C (da_keypair a) r d"
  using assms by (auto simp: verify_response_def proves_def device_id_def Let_def not_less split: if_splits sum.splits)

lemma verify_response_keypair: "verify_response C t r a = (a', x) \<Longrightarrow> da_keypair a' = da_keypair a"
  by (auto simp: verify_response_def Let_def split: sum.splits if_splits)

lemma proven_authenticate:
  assumes "proven C keypair log s"
  shows "proven C keypair (log @ heard C ch nonce clock n s) (fst (authenticate_peer C ch nonce clock n s))"
proof -
  obtain s' res where r: "authenticate_peer C ch nonce clock n s = (s', res)" by (cases "authenticate_peer C ch nonce clock n s")
  let ?c = "generate_challenge C nonce (clock 0) (st_authenticator s)"
  consider "st_authenticated_peers s' = st_authenticated_peers s" "da_keypair (st_authenticator s') = da_keypair (st_authenticator s)"
    | x d a where "get_peer_device_id n s = None" "ac_send_challenge ch n ?c = Inr ()" "ac_receive_response ch n ?c = Inr x"
      "verify_response C (clock 1) x (st_authenticator s) = (a, Inr d)" "st_authenticator s' = a"
      "st_authenticated_peers s' = hm_insert n d (st_authenticated_peers s)"
    using r by (auto simp: authenticate_peer_def Let_def split: option.splits sum.splits prod.splits dest: verify_response_keypair)
  then show ?thesis
  proof cases
    case 1
    then show ?thesis using assms r by (auto simp: proven_def get_peer_device_id_def)
  next
    case (2 x d a)
    then have "heard C ch nonce clock n s = [(n, x)]" by (simp add: heard_def Let_def)
    then show ?thesis
      using assms r 2 verify_response_proves [OF 2(4)] verify_response_keypair [OF 2(4)]
      by (auto simp: proven_def get_peer_device_id_def split: if_splits)
  qed
qed

lemma connect_state:
  "fst (transport_connect show_error C ch inner nonce clock n s) =
     (case it_connect inner n of Inl _ \<Rightarrow> s | Inr _ \<Rightarrow> fst (authenticate_peer C ch nonce clock n s))"
  by (auto simp: transport_connect_def split: sum.split prod.split option.split)

lemma proven_remove:
  "proven C keypair log s \<Longrightarrow> proven C keypair (filter (\<lambda>(m, _). m \<noteq> n) log) (remove_authenticated_peer n s)"
  by (cases "hm_get (st_authenticated_peers s) n") (fastforce simp: proven_def remove_authenticated_peer_def get_peer_device_id_def remove_peer_def split: if_splits)+

lemma run_proven: "transport_run C inner keypair timeout log s \<Longrightarrow> proven C keypair log s"
proof (induction rule: transport_run.induct)
  case created
  then show ?case by (simp add: proven_def transport_new_def with_timeout_def get_peer_device_id_def)
qed (simp_all add: proven_authenticate proven_remove connect_state transport_disconnect_def)

text \<open>
  C34. Connections are handed out to authenticated peers only. Take a transport in any state that calls
  of \<open>authenticate_peer\<close>, \<open>connect\<close>, \<open>disconnect\<close> and \<open>remove_authenticated_peer\<close>, run one after another,
  can bring about from its creation. Every node known as a device, and so every node with a connection
  from \<open>get_connection\<close>, has since its last disconnect sent a response whose key is that of the device and
  whose signature verifies under this key for this device; \<open>connect\<close> returns a connection only with such a
  response for the device it returns, and the node is then known as this device. After a disconnect
  there is no connection to the node, it is not connected, and its device is not verified any more.
  (That the response answers the challenge just sent is not required by the code.)
\<close>

theorem connections_are_authenticated:
  assumes "transport_run C inner keypair timeout log s"
  shows "(\<forall>d. get_peer_device_id n s = Some d \<longrightarrow> (\<exists>r. (n, r) \<in> set log \<and> proves C keypair r d)) \<and>
    (\<forall>conn d. get_connection (inner i) n s = Some (conn, d) \<longrightarrow> get_peer_device_id n s = Some d) \<and>
    (\<forall>s' conn d. transport_connect show_error C ch (inner i) nonce clock n s = (s', Inr (conn, d)) \<longrightarrow>
       get_peer_device_id n s' = Some d \<and> (\<exists>r. (n, r) \<in> set (log @ heard C ch nonce clock n s) \<and> proves C keypair r d)) \<and>
    (let s' = fst (transport_disconnect (inner i) n s)
     in get_connection (inner j) n s' = None \<and> \<not> is_connected (inner j) n s' \<and>
        (\<forall>d. get_peer_device_id n s = Some d \<longrightarrow> \<not> is_verified d (st_authenticator s')))"
proof -
  have known: "\<forall>d. get_peer_device_id n s = Some d \<longrightarrow> (\<exists>r. (n, r) \<in> set log \<and> proves C keypair r d)"
    using run_proven [OF assms] by (simp add: proven_def)
  have conn: "get_peer_device_id n s' = Some d \<and> (\<exists>r. (n, r) \<in> set (log @ heard C ch nonce clock n s) \<and> proves C keypair r d)"
    if c: "transport_connect show_error C ch (inner i) nonce clock n s = (s', Inr (conn, d))" for s' conn d
  proof -
    have d: "get_peer_device_id n s' = Some d" "it_connect (inner i) n = Inr conn"
      using c by (auto simp: transport_connect_def split: sum.splits prod.splits option.splits)
    from transport_run.connected [OF assms d(2), of ch nonce clock show_error]
    have "proven C keypair (log @ heard C ch nonce clock n s) s'" using run_proven c by simp
    then show ?thesis using d by (simp add: proven_def)
  qed
  show ?thesis
    using known conn
    by (auto simp: Let_def get_peer_device_id_def get_connection_def is_connected_def is_authenticated_def hm_contains_key_def
        transport_disconnect_def remove_authenticated_peer_def is_verified_def remove_peer_def split: option.splits)
qed

text \<open>An honest peer: it answers the challenge it is sent, and sends one of its own.\<close>

definition honest_channel :: "nat authentication_channel" where
  "honest_channel =
     \<lparr>ac_send_challenge = (\<lambda>_ _. Inr ()),
      ac_receive_response = (\<lambda>_ c. respond_to_challenge example_crypto 0 0 c (with_timeout 2 0)),
      ac_receive_challenge = (\<lambda>_. Inr (generate_challenge example_crypto [4] 0 (with_timeout 2 (from_secs 100)))),
      ac_send_response = (\<lambda>_ _. Inr ())\<rparr>"

definition open_transport :: "nat \<Rightarrow> (nat, unit) inner_transport" where
  "open_transport = (\<lambda>_. \<lparr>it_connect = (\<lambda>_. Inr ()), it_disconnect = (\<lambda>_. Inr ()), it_get_connection = (\<lambda>_. Some ()),
     it_is_connected = (\<lambda>_. True)\<rparr>)"

lemma honest_connect:
  "\<exists>s'. transport_connect (\<lambda>_. []) example_crypto honest_channel (open_transport 0) [7] (\<lambda>_. 0) 77 (transport_new 1 0)
     = (s', Inr ((), replicate 32 2))"
  by (simp add: transport_connect_def open_transport_def authenticate_peer_def transport_new_def get_peer_device_id_def
      honest_channel_def respond_to_challenge_def check_challenge_expiry_def generate_challenge_def timestamp_of_def as_secs_def
      with_timeout_def verify_response_def example_crypto_def CURRENT_PROTOCOL_VERSION_def from_secs_def Let_def)

theorem connections_are_authenticated_witness:
  "\<exists>s' r. transport_connect (\<lambda>_. []) example_crypto honest_channel (open_transport 0) [7] (\<lambda>_. 0) 77 (transport_new 1 0)
     = (s', Inr ((), replicate 32 2)) \<and> get_peer_device_id 77 s' = Some (replicate 32 2)
     \<and> (77, r) \<in> set (heard example_crypto honest_channel [7] (\<lambda>_. 0) 77 (transport_new 1 0))
     \<and> proves example_crypto 1 r (replicate 32 2)"
  using connections_are_authenticated [OF transport_run.created [where C = example_crypto and inner = open_transport and keypair = 1 and timeout = 0],
      of 77 0 "\<lambda>_. []" honest_channel "[7]" "\<lambda>_. 0"] honest_connect
  by fastforce

end
