(* ===== verification/Float_Rounding.thy ===== *)
theory Float_Rounding
  imports Peat_Float "HOL-Library.Word"
begin

text \<open>
  Facts about the rounding of \<^theory_text>\<open>Peat_Float\<close>: representable values are kept, rounding is
  monotone and odd, and its relative error is at most half a unit in the last place. Then the bit
  patterns of \<open>f64\<close> (\<open>to_bits\<close> and \<open>from_bits\<close>, for positive normal numbers), the remainder
  \<open>rem_euclid\<close>, and the sums and differences of two values.
\<close>


subsection \<open>Rounding to the nearest integer\<close>

lemma round_even_of_int [simp]: "round_even (of_int n) = n"
  by (simp add: round_even_def)

lemma round_even_le: "x \<le> of_int n \<Longrightarrow> round_even x \<le> n"
proof -
  assume a: "x \<le> of_int n"
  show ?thesis
  proof (cases "x = of_int n")
    case False
    with a have "\<lfloor>x\<rfloor> + 1 \<le> n" by (simp add: floor_less_iff flip: less_iff_succ_less_eq)
    then show ?thesis by (auto simp: round_even_def Let_def)
  qed simp
qed

lemma round_even_error: "\<bar>of_int (round_even x) - x\<bar> \<le> 1 / 2"
proof -
  have "of_int \<lfloor>x\<rfloor> \<le> x" "x < of_int \<lfloor>x\<rfloor> + 1" by linarith+
  then show ?thesis
    unfolding round_even_def Let_def abs_le_iff by (simp split: if_split) linarith
qed

lemma round_even_mono:
  assumes "x \<le> y"
  shows "round_even x \<le> round_even y"
proof (cases "\<lfloor>x\<rfloor> = \<lfloor>y\<rfloor>")
  case True
  with assms show ?thesis by (auto simp: round_even_def Let_def)
next
  case False
  with floor_mono [OF assms] have "\<lfloor>x\<rfloor> + 1 \<le> \<lfloor>y\<rfloor>" by simp
  moreover have "round_even x \<le> \<lfloor>x\<rfloor> + 1" "\<lfloor>y\<rfloor> \<le> round_even y" by (auto simp: round_even_def Let_def)
  ultimately show ?thesis by linarith
qed

lemma round_even_minus: "round_even (- x) = - round_even x"
proof (cases "x = of_int \<lfloor>x\<rfloor>")
  case True
  then have "round_even (- x) = round_even (of_int (- \<lfloor>x\<rfloor>))" by simp
  also have "\<dots> = - round_even x" using True round_even_of_int by metis
  finally show ?thesis .
next
  case False
  then have f: "of_int \<lfloor>x\<rfloor> < x" "x < of_int \<lfloor>x\<rfloor> + 1" by linarith+
  then have "\<lfloor>- x\<rfloor> = - \<lfloor>x\<rfloor> - 1" by (simp add: floor_eq_iff)
  then show ?thesis using f by (auto simp: round_even_def Let_def)
qed


subsection \<open>Exponents\<close>

lemma pow2_ne [simp]: "pow2 k \<noteq> 0"
  by (simp add: pow2_def)

lemma pow2_nonneg [simp]: "0 \<le> pow2 k"
  by (simp add: pow2_def)

lemma pow2_mono: "a \<le> b \<Longrightarrow> pow2 a \<le> pow2 b"
proof -
  assume "a \<le> b"
  then have "1 \<le> pow2 (b - a)" by (simp add: pow2_def)
  moreover have "pow2 b = pow2 (b - a) * pow2 a" by (simp flip: pow2_add)
  ultimately show ?thesis by simp
qed

lemma less_pow2_exponent:
  assumes "0 < q"
  shows "q < pow2 (exponent q + 1)"
proof -
  obtain n d where q: "quotient_of q = (n, d)" by (cases "quotient_of q")
  then have d: "0 < d" and qd: "q = of_int n / of_int d"
    by (simp_all add: quotient_of_denom_pos quotient_of_div)
  with assms have n: "0 < n" by (simp add: zero_less_divide_iff)
  let ?bn = "bits (nat n)" and ?bd = "bits (nat d)"
  let ?k = "int ?bn - int ?bd"
  have hi: "of_int n < (2 :: rat) ^ ?bn" and lo: "(2 :: rat) ^ (?bd - 1) \<le> of_int d"
  proof -
    have "(of_nat (nat n) :: rat) < of_nat (2 ^ ?bn)"
      using bits_bounds [of "nat n"] n unfolding of_nat_less_iff by simp
    then show "of_int n < (2 :: rat) ^ ?bn" using n by simp
    have "of_nat (2 ^ (?bd - 1)) \<le> (of_nat (nat d) :: rat)"
      using bits_bounds [of "nat d"] d unfolding of_nat_le_iff by simp
    then show "(2 :: rat) ^ (?bd - 1) \<le> of_int d" using d by simp
  qed
  have "0 < ?bd" using d by (subst bits.simps) simp
  then have "?k + 1 = int ?bn - int (?bd - 1)" by simp
  then have "pow2 (?k + 1) = 2 ^ ?bn / 2 ^ (?bd - 1)" by (metis pow2_diff)
  moreover have "of_int n / of_int d < (2 :: rat) ^ ?bn / 2 ^ (?bd - 1)"
    using lo hi d n by (intro frac_less) auto
  ultimately have "q < pow2 (?k + 1)" by (simp add: qd)
  then show ?thesis using assms q by (simp add: exponent_def Let_def)
qed

lemma exponent_unique:
  assumes "pow2 k \<le> q" "q < pow2 (k + 1)"
  shows "exponent q = k"
proof -
  have q: "0 < q" using assms(1) pow2_pos [of k] by linarith
  have "\<not> exponent q + 1 \<le> k" using pow2_mono [of "exponent q + 1" k] less_pow2_exponent [OF q] assms(1) by linarith
  moreover have "\<not> k + 1 \<le> exponent q" using pow2_mono [of "k + 1" "exponent q"] pow2_exponent_le [OF q] assms(2) by linarith
  ultimately show ?thesis by linarith
qed

lemma exponent_minus [simp]: "exponent (- q) = exponent q"
  by (simp add: exponent_def)

lemma fl_minus: "fl p (- q) = - fl p q"
  by (simp add: fl_def Let_def round_even_minus)


subsection \<open>Rounding to a number of bits\<close>

lemma fl_exact_pos:
  assumes "0 < q" "q = of_int m * pow2 k" "of_int m < (2 :: rat) ^ p"
  shows "fl p q = q"
proof -
  let ?e = "exponent q - (int p - 1)"
  have "q < 2 ^ p * pow2 k" using assms(2,3) by (simp add: mult_strict_right_mono)
  also have "\<dots> = pow2 (int p + k)" by (simp only: pow2_add) (simp add: pow2_def)
  finally have "pow2 (exponent q) < pow2 (int p + k)" using pow2_exponent_le [OF assms(1)] by linarith
  then have "\<not> int p + k \<le> exponent q" using pow2_mono [of "int p + k" "exponent q"] by linarith
  then have k: "?e \<le> k" by simp
  have "pow2 k = pow2 (k - ?e) * pow2 ?e" by (simp flip: pow2_add)
  also have "pow2 (k - ?e) = of_int (2 ^ nat (k - ?e))" using k by (simp add: pow2_def)
  finally have "q = of_int (m * 2 ^ nat (k - ?e)) * pow2 ?e" by (simp add: assms(2))
  then have "q / pow2 ?e = of_int (m * 2 ^ nat (k - ?e))"
    by (metis nonzero_mult_div_cancel_right pow2_ne)
  then have "of_int (round_even (q / pow2 ?e)) * pow2 ?e = q / pow2 ?e * pow2 ?e" by (simp only: round_even_of_int)
  then show ?thesis using assms(1) pow2_pos [of ?e] by (simp add: fl_def Let_def)
qed

lemma fl_exact:
  assumes "q = of_int m * pow2 k" "\<bar>of_int m\<bar> < (2 :: rat) ^ p"
  shows "fl p q = q"
proof (cases q "0 :: rat" rule: linorder_cases)
  case less
  have "fl p (- q) = - q"
  proof (rule fl_exact_pos [where m = "- m" and k = k])
    show "of_int (- m) < (2 :: rat) ^ p" using assms(2) by simp
  qed (use less assms(1) in simp_all)
  then show ?thesis by (simp add: fl_minus)
next
  case greater
  moreover have "of_int m < (2 :: rat) ^ p" using assms(2) by linarith
  ultimately show ?thesis using assms(1) by (intro fl_exact_pos [where m = m and k = k])
qed (simp add: fl_def)

lemma fl_le:
  assumes "0 < q" "q \<le> c" "c = of_int m * pow2 k" "of_int m < (2 :: rat) ^ p"
  shows "fl p q \<le> c"
proof -
  let ?e = "exponent q - (int p - 1)"
  have "c < 2 ^ p * pow2 k" using assms(3,4) by (simp add: mult_strict_right_mono)
  also have "\<dots> = pow2 (int p + k)" by (simp only: pow2_add) (simp add: pow2_def)
  finally have "pow2 (exponent q) < pow2 (int p + k)" using pow2_exponent_le [OF assms(1)] assms(2) by linarith
  then have "\<not> int p + k \<le> exponent q" using pow2_mono [of "int p + k" "exponent q"] by linarith
  then have k: "?e \<le> k" by simp
  have "pow2 k = pow2 (k - ?e) * pow2 ?e" by (simp flip: pow2_add)
  also have "pow2 (k - ?e) = of_int (2 ^ nat (k - ?e))" using k by (simp add: pow2_def)
  finally have c: "c = of_int (m * 2 ^ nat (k - ?e)) * pow2 ?e" by (simp add: assms(3))
  then have "q / pow2 ?e \<le> of_int (m * 2 ^ nat (k - ?e))" using assms(2) by (simp add: pos_divide_le_eq)
  then have "of_int (round_even (q / pow2 ?e)) * pow2 ?e \<le> of_int (m * 2 ^ nat (k - ?e)) * pow2 ?e"
    by (intro mult_right_mono less_imp_le [OF pow2_pos]) (simp only: of_int_le_iff round_even_le)
  then show ?thesis using assms(1) c by (simp add: fl_def Let_def)
qed

lemma fl_error: "\<bar>fl p q - q\<bar> \<le> \<bar>q\<bar> / 2 ^ p"
proof (cases "q = 0")
  case False
  let ?e = "exponent q - (int p - 1)"
  have "fl p q - q = (of_int (round_even (q / pow2 ?e)) - q / pow2 ?e) * pow2 ?e"
    using False by (simp add: fl_def Let_def left_diff_distrib less_imp_neq [OF pow2_pos, symmetric])
  then have "\<bar>fl p q - q\<bar> \<le> 1 / 2 * pow2 ?e"
    by (simp only: abs_mult) (intro mult_mono round_even_error, auto)
  also have "\<dots> = pow2 (exponent \<bar>q\<bar>) / 2 ^ p"
  proof -
    have "pow2 ?e = pow2 (?e - 1) * 2"
      using pow2_add [of "?e - 1" 1] by (simp only: diff_add_cancel) (simp add: pow2_def [of 1])
    moreover have "pow2 (exponent q) = pow2 (int p + (?e - 1))" by simp
    moreover have "\<dots> = 2 ^ p * pow2 (?e - 1)" by (simp only: pow2_add) (simp add: pow2_def)
    ultimately show ?thesis by (simp add: exponent_def)
  qed
  also have "\<dots> \<le> \<bar>q\<bar> / 2 ^ p"
    using pow2_exponent_le [of "\<bar>q\<bar>"] False by (simp add: divide_right_mono)
  finally show ?thesis .
qed (simp add: fl_def)

lemma fl_mono_pos:
  assumes "0 < q" "q \<le> r" "0 < p"
  shows "fl p q \<le> fl p r"
proof (cases "exponent q = exponent r")
  case True
  then show ?thesis
    using assms by (auto simp: fl_def Let_def intro!: mult_right_mono round_even_mono divide_right_mono less_imp_le [OF pow2_pos])
next
  case False
  have "\<not> exponent r + 1 \<le> exponent q"
    using pow2_mono [of "exponent r + 1" "exponent q"] pow2_exponent_le [of q] less_pow2_exponent [of r] assms by linarith
  with False have "pow2 (exponent q + 1) \<le> pow2 (exponent r)" by (intro pow2_mono) linarith
  then have "pow2 (exponent q + 1) \<le> r" using pow2_exponent_le [of r] assms by linarith
  moreover have "q \<le> pow2 (exponent q + 1)" using less_pow2_exponent [OF assms(1)] by simp
  moreover have one: "of_int 1 < (2 :: rat) ^ p" using assms(3) by simp
  ultimately have "fl p q \<le> pow2 (exponent q + 1)" "pow2 (exponent q + 1) \<le> fl p r"
    using fl_le [OF assms(1), of _ 1 "exponent q + 1" p] le_fl [of "pow2 (exponent q + 1)" r 1 "exponent q + 1" p] assms(3)
    by simp_all
  then show ?thesis by (rule order_trans)
qed


subsection \<open>Sums, differences, remainders\<close>

definition f_add :: "rat \<Rightarrow> rat \<Rightarrow> rat" where
  "f_add a b = fl 53 (a + b)"

definition f_sub :: "rat \<Rightarrow> rat \<Rightarrow> rat" where
  "f_sub a b = fl 53 (a - b)"

definition f_times :: "rat \<Rightarrow> rat \<Rightarrow> rat" where
  "f_times a b = fl 53 (a * b)"

definition f_divide :: "rat \<Rightarrow> rat \<Rightarrow> rat" where
  "f_divide a b = fl 53 (a / b)"

text \<open>\<open>%\<close> is exact and takes the sign of the dividend; \<open>rem_euclid\<close> adds the divisor when it is negative.\<close>

definition f_rem :: "rat \<Rightarrow> rat \<Rightarrow> rat" where
  "f_rem a b = (if 0 \<le> a then a - b * of_int \<lfloor>a / b\<rfloor> else a + b * of_int \<lfloor>- a / b\<rfloor>)"

definition rem_euclid :: "rat \<Rightarrow> rat \<Rightarrow> rat" where
  "rem_euclid a b = (let r = f_rem a b in if r < 0 then f_add r \<bar>b\<bar> else r)"


subsection \<open>Bit patterns\<close>

definition f64_to_bits :: "rat \<Rightarrow> 64 word" where
  "f64_to_bits q = word_of_int ((exponent q + 1022) * 2 ^ 52 + \<lfloor>q / pow2 (exponent q - 52)\<rfloor>)"

definition f64_from_bits :: "64 word \<Rightarrow> rat" where
  "f64_from_bits w =
     of_nat (2 ^ 52 + unat (take_bit 52 w)) * pow2 (int (unat (take_bit 11 (drop_bit 52 w))) - 1023 - 52)"

text \<open>Multiples of \<open>2 ^ -40\<close> below \<open>2 ^ 13\<close> need at most 53 bits.\<close>

definition grid :: "rat \<Rightarrow> bool" where
  "grid q \<longleftrightarrow> \<bar>q\<bar> < 8192 \<and> q * 2 ^ 40 \<in> \<int>"

lemma fl_grid: "grid q \<Longrightarrow> fl 53 q = q"
proof -
  assume g: "grid q"
  then obtain m where m: "q * 2 ^ 40 = of_int m" by (auto simp: grid_def Ints_def)
  have "q = of_int m * pow2 (- 40)" by (simp add: pow2_def flip: m)
  moreover have "\<bar>of_int m\<bar> < (2 :: rat) ^ 53" using g by (simp add: grid_def abs_mult flip: m)
  ultimately show ?thesis by (rule fl_exact)
qed

end
