(* ===== verification/Geohash.thy ===== *)
theory Geohash
  imports Float_Rounding Wire_Bytes
begin

text \<open>
  Geohashes, \<open>peat-protocol/src/geohash.rs\<close>: bit interleaving, the base-32 tables, encoding of a
  coordinate, decoding to a cell centre with its half widths, and neighbouring cells. Coordinates
  are \<open>f64\<close>; the literals are rounded as the compiler does, and so is every operation. A panic is the
  result \<open>None\<close>.
\<close>

unbundle bit_operations_syntax

datatype geohash_error =
    InvalidHashCharacter char
  | InvalidCoordinateRange fval fval
  | InvalidLength nat
  | InvalidHash string

datatype direction = DirN | DirNE | DirE | DirSE | DirS | DirSW | DirW | DirNW

fun to_tuple :: "direction \<Rightarrow> rat \<times> rat" where
  "to_tuple DirSW = (- 1, - 1)"
| "to_tuple DirS = (- 1, 0)"
| "to_tuple DirSE = (- 1, 1)"
| "to_tuple DirW = (0, - 1)"
| "to_tuple DirE = (0, 1)"
| "to_tuple DirNW = (1, - 1)"
| "to_tuple DirN = (1, 0)"
| "to_tuple DirNE = (1, 1)"

record neighbors_of =
  nb_sw :: string
  nb_s :: string
  nb_se :: string
  nb_w :: string
  nb_e :: string
  nb_nw :: string
  nb_n :: string
  nb_ne :: string


subsection \<open>Tables\<close>

definition BASE32_CODES :: string where
  "BASE32_CODES = ''0123456789bcdefghjkmnpqrstuvwxyz''"

definition DECODER :: "u8 list" where
  "DECODER =
     replicate 48 0xff
     @ [0x00, 0x01, 0x02, 0x03, 0x04, 0x05, 0x06, 0x07, 0x08, 0x09] @ replicate 40 0xff
     @ [0x0a, 0x0b, 0x0c, 0x0d, 0x0e, 0x0f, 0x10, 0xff, 0x11, 0x12, 0xff, 0x13, 0x14, 0xff,
        0x15, 0x16, 0x17, 0x18, 0x19, 0x1a, 0x1b, 0x1c, 0x1d, 0x1e, 0x1f]
     @ replicate 133 0xff"


subsection \<open>Bit interleaving\<close>

definition spread :: "u32 \<Rightarrow> u64" where
  "spread x =
     (let v = ucast x :: u64;
          v = (v OR push_bit 16 v) AND 0x0000ffff0000ffff;
          v = (v OR push_bit 8 v) AND 0x00ff00ff00ff00ff;
          v = (v OR push_bit 4 v) AND 0x0f0f0f0f0f0f0f0f;
          v = (v OR push_bit 2 v) AND 0x3333333333333333;
          v = (v OR push_bit 1 v) AND 0x5555555555555555
      in v)"

definition interleave :: "u32 \<Rightarrow> u32 \<Rightarrow> u64" where
  "interleave x y = spread x OR push_bit 1 (spread y)"

definition squash :: "u64 \<Rightarrow> u32" where
  "squash x =
     (let v = x AND 0x5555555555555555;
          v = (v OR drop_bit 1 v) AND 0x3333333333333333;
          v = (v OR drop_bit 2 v) AND 0x0f0f0f0f0f0f0f0f;
          v = (v OR drop_bit 4 v) AND 0x00ff00ff00ff00ff;
          v = (v OR drop_bit 8 v) AND 0x0000ffff0000ffff;
          v = (v OR drop_bit 16 v) AND 0x00000000ffffffff
      in ucast v)"

definition deinterleave :: "u64 \<Rightarrow> u32 \<times> u32" where
  "deinterleave x = (squash x, squash (drop_bit 1 x))"


subsection \<open>Encoding\<close>

definition in_range :: "rat \<Rightarrow> fval \<Rightarrow> bool" where
  "in_range r x = (case x of Fin q \<Rightarrow> - r \<le> q \<and> q \<le> r | _ \<Rightarrow> False)"

definition LAT_SCALE :: rat where
  "LAT_SCALE = fl 53 (5555555555555556 / 10 ^ 18)"

definition LON_SCALE :: rat where
  "LON_SCALE = fl 53 (2777777777777778 / 10 ^ 18)"

definition quantize :: "rat \<Rightarrow> rat \<Rightarrow> u32" where
  "quantize scale q = ucast (drop_bit 20 (f64_to_bits (f_add (f_times q scale) (3 / 2))))"

fun encode_loop :: "nat \<Rightarrow> u64 \<Rightarrow> string" where
  "encode_loop 0 interleaved = []"
| "encode_loop (Suc n) interleaved =
     BASE32_CODES ! unat (drop_bit 59 interleaved AND 0x1f) # encode_loop n (push_bit 5 interleaved)"

definition geohash_encode :: "fval \<Rightarrow> fval \<Rightarrow> nat \<Rightarrow> geohash_error + string" where
  "geohash_encode lon lat len =
     (if \<not> in_range 180 lon \<or> \<not> in_range 90 lat then Inl (InvalidCoordinateRange lon lat)
      else if \<not> (1 \<le> len \<and> len \<le> 12) then Inl (InvalidLength len)
      else case (lon, lat) of
        (Fin x, Fin y) \<Rightarrow> Inr (encode_loop len (interleave (quantize LAT_SCALE y) (quantize LON_SCALE x)))
      | _ \<Rightarrow> Inl (InvalidCoordinateRange lon lat))"


subsection \<open>Decoding\<close>

definition decode_range :: "u32 \<Rightarrow> rat \<Rightarrow> rat" where
  "decode_range x r =
     (let p = f64_from_bits (push_bit 20 (ucast x) OR push_bit 52 1023)
      in f_sub (f_times (f_times 2 r) (f_sub p 1)) r)"

definition error_with_precision :: "nat \<Rightarrow> rat \<times> rat" where
  "error_with_precision b =
     (let lat_bits = b div 2;
          lon_bits = b - lat_bits
      in (f_times 180 (pow2 (- int lat_bits)), f_times 360 (pow2 (- int lon_bits))))"

fun decode_loop :: "string \<Rightarrow> u64 \<Rightarrow> geohash_error + u64" where
  "decode_loop [] int_hash = Inr int_hash"
| "decode_loop (c # cs) int_hash =
     (let val = DECODER ! unat (byte_of_char c)
      in if val = 0xff then Inl (InvalidHashCharacter c)
         else decode_loop cs (push_bit 5 int_hash OR ucast val))"

definition geohash_decode :: "string \<Rightarrow> (geohash_error + (rat \<times> rat) \<times> rat \<times> rat) option" where
  "geohash_decode hash_str =
     (let b = length hash_str * 5
      in if length hash_str > 12 then Some (Inl (InvalidHash ''hash length exceeds maximum of 12''))
         else case decode_loop hash_str 0 of
           Inl e \<Rightarrow> Some (Inl e)
         | Inr int_hash \<Rightarrow>
             if 64 - b \<ge> 64 then None
             else (let (lat_int, lon_int) = deinterleave (push_bit (64 - b) int_hash);
                       lat = decode_range lat_int 90;
                       lon = decode_range lon_int 180;
                       (lat_err, lon_err) = error_with_precision b
                   in Some (Inr ((f_add lon (f_divide lon_err 2), f_add lat (f_divide lat_err 2)),
                                 f_divide lon_err 2, f_divide lat_err 2))))"


subsection \<open>Neighbours\<close>

definition neighbor :: "string \<Rightarrow> direction \<Rightarrow> (geohash_error + string) option" where
  "neighbor hash_str d =
     (case geohash_decode hash_str of
        None \<Rightarrow> None
      | Some (Inl e) \<Rightarrow> Some (Inl e)
      | Some (Inr ((lon, lat), lon_err, lat_err)) \<Rightarrow>
          (let (dlat, dlon) = to_tuple d;
               neighbor_lon = f_sub (rem_euclid (f_add (f_add lon (f_times (f_times 2 \<bar>lon_err\<bar>) dlon)) 180) 360) 180;
               neighbor_lat = f_sub (rem_euclid (f_add (f_add lat (f_times (f_times 2 \<bar>lat_err\<bar>) dlat)) 90) 180) 90
           in Some (geohash_encode (Fin neighbor_lon) (Fin neighbor_lat) (length hash_str))))"

fun all_ok :: "(geohash_error + string) option list \<Rightarrow> (geohash_error + string list) option" where
  "all_ok [] = Some (Inr [])"
| "all_ok (r # rs) =
     (case r of
        None \<Rightarrow> None
      | Some (Inl e) \<Rightarrow> Some (Inl e)
      | Some (Inr h) \<Rightarrow>
          (case all_ok rs of Some (Inr hs) \<Rightarrow> Some (Inr (h # hs)) | other \<Rightarrow> other))"

definition neighbors :: "string \<Rightarrow> (geohash_error + neighbors_of) option" where
  "neighbors hash_str =
     (case all_ok (map (neighbor hash_str) [DirSW, DirS, DirSE, DirW, DirE, DirNW, DirN, DirNE]) of
        Some (Inr [sw, s, se, w, e, nw, n, ne]) \<Rightarrow>
          Some (Inr \<lparr>nb_sw = sw, nb_s = s, nb_se = se, nb_w = w, nb_e = e, nb_nw = nw, nb_n = n, nb_ne = ne\<rparr>)
      | Some (Inl e) \<Rightarrow> Some (Inl e)
      | _ \<Rightarrow> None)"


subsection \<open>Interleaving at the level of bits\<close>

text \<open>
  Between two steps a word holds \<open>x\<close> in blocks of \<open>k\<close> bits, one every \<open>2 * k\<close> bits. Spreading halves
  the blocks, squashing doubles them.
\<close>

definition blocks :: "nat \<Rightarrow> u64 \<Rightarrow> u32 \<Rightarrow> bool" where
  "blocks k w x \<longleftrightarrow> (\<forall>n < 64. bit w n \<longleftrightarrow> n mod (2 * k) < k \<and> bit x (n div (2 * k) * k + n mod k))"

definition block_mask :: "nat \<Rightarrow> u64 \<Rightarrow> bool" where
  "block_mask k m \<longleftrightarrow> (\<forall>n < 64. bit m n \<longleftrightarrow> n mod (2 * k) < k)"

lemma split_block:
  assumes "0 < (j :: nat)"
  obtains a i s where "n = 4 * j * a + j * i + s" "i < 4" "s < j"
proof
  have "n mod (4 * j) < 4 * j" using assms by simp
  then have "n mod (4 * j) div j < 4" by (simp add: less_mult_imp_div_less)
  then show "n mod (4 * j) div j < 4" .
  show "n = 4 * j * (n div (4 * j)) + j * (n mod (4 * j) div j) + n mod (4 * j) mod j"
    by (metis mult_div_mod_eq add.assoc)
  show "n mod (4 * j) mod j < j" using assms by simp
qed

lemma block_index:
  assumes "s < (j :: nat)" "i < (4 :: nat)"
  shows "(4 * j * a + j * i + s) mod (4 * j) = j * i + s" "(4 * j * a + j * i + s) div (4 * j) = a"
    "(4 * j * a + j * i + s) mod (2 * j) = j * (i mod 2) + s" "(4 * j * a + j * i + s) div (2 * j) = 2 * a + i div 2"
    "(4 * j * a + j * i + s) mod j = s"
proof -
  have i: "i = 0 \<or> i = 1 \<or> i = 2 \<or> i = 3" using assms(2) by auto
  then have small: "j * i + s < 4 * j" using assms(1) by auto
  then show "(4 * j * a + j * i + s) mod (4 * j) = j * i + s" "(4 * j * a + j * i + s) div (4 * j) = a"
    by (simp_all add: add.assoc)
  have eq: "4 * j * a + j * i + s = 2 * j * (2 * a + i div 2) + (j * (i mod 2) + s)" using i by (auto simp: algebra_simps)
  moreover have "j * (i mod 2) + s < 2 * j" using assms(1) i by auto
  ultimately show "(4 * j * a + j * i + s) mod (2 * j) = j * (i mod 2) + s" "(4 * j * a + j * i + s) div (2 * j) = 2 * a + i div 2"
    by (simp_all only: mod_mult_self2 mod_mult_self4 mod_less div_mult_self2 div_less div_mult_self4)
  have "4 * j * a + j * i + s = s + j * (4 * a + i)" by (simp add: algebra_simps)
  then show "(4 * j * a + j * i + s) mod j = s" using assms(1) by simp
qed


lemma bit_or_push: "n < 64 \<Longrightarrow> bit ((v OR push_bit k v) AND m) n \<longleftrightarrow> bit (m :: u64) n \<and> (bit v n \<or> k \<le> n \<and> bit v (n - k))"
  by (auto simp: bit_and_iff bit_or_iff bit_push_bit_iff)

lemma bit_or_drop: "bit ((v OR drop_bit k v) AND m) n \<longleftrightarrow> bit (m :: u64) n \<and> (bit v n \<or> bit v (n + k))"
  by (auto simp: bit_and_iff bit_or_iff bit_drop_bit_eq add.commute)

lemma spread_step:
  assumes "blocks k v x" "block_mask j m" "k = 2 * j" "0 < j"
  shows "blocks j ((v OR push_bit j v) AND m) x"
  unfolding blocks_def
proof (intro allI impI)
  fix n :: nat
  assume n: "n < 64"
  obtain a i s where ais: "n = 4 * j * a + j * i + s" "i < 4" "s < j" using split_block [OF assms(4)] .
  have prev: "bit v n' \<longleftrightarrow> n' mod (4 * j) < 2 * j \<and> bit x (n' div (4 * j) * (2 * j) + n' mod (2 * j))" if "n' < 64" for n'
    using assms(1,3) that by (simp add: blocks_def mult.assoc [symmetric])
  have m: "bit m n \<longleftrightarrow> n mod (2 * j) < j" using assms(2) n by (simp add: block_mask_def)
  consider "i = 0" | "i = 1" | "i = 2" | "i = 3" using ais(2) by linarith
  then show "bit ((v OR push_bit j v) AND m) n \<longleftrightarrow> n mod (2 * j) < j \<and> bit x (n div (2 * j) * j + n mod j)"
  proof cases
    case 1
    have "\<not> bit v (n - j)" if "j \<le> n"
    proof -
      have "0 < a" using that ais 1 by (cases a) auto
      then have "n - j = 4 * j * (a - 1) + j * 3 + s" using ais 1 by (cases a) (auto simp: algebra_simps)
      then show ?thesis using prev [of "n - j"] n block_index(1) [OF ais(3), of 3 "a - 1"] ais(3) by simp
    qed
    then show ?thesis
      using n m prev [OF n] block_index [OF ais(3,2), of a] ais 1 by (auto simp: bit_or_push mult_ac)
  next
    case 3
    have "n - j = 4 * j * a + j * 1 + s" "j \<le> n" using ais 3 by (auto simp: algebra_simps)
    then show ?thesis
      using n m prev [OF n] prev [of "n - j"] block_index [OF ais(3,2), of a] block_index [OF ais(3), of 1 a] ais 3
      by (simp add: bit_or_push algebra_simps)
  qed (use n m block_index [OF ais(3,2), of a] ais in \<open>simp_all add: bit_or_push\<close>)
qed

lemma squash_step:
  assumes "blocks j v x" "block_mask k m" "k = 2 * j" "0 < j" "4 * j dvd 64"
  shows "blocks k ((v OR drop_bit j v) AND m) x"
  unfolding blocks_def assms(3)
proof (intro allI impI)
  fix n :: nat
  assume n: "n < 64"
  obtain a i s where ais: "n = 4 * j * a + j * i + s" "i < 4" "s < j" using split_block [OF assms(4)] .
  have prev: "bit v n' \<longleftrightarrow> n' mod (2 * j) < j \<and> bit x (n' div (2 * j) * j + n' mod j)" if "n' < 64" for n'
    using assms(1) that by (simp add: blocks_def)
  have m: "bit m n \<longleftrightarrow> n mod (4 * j) < 2 * j" using assms(2,3) n by (simp add: block_mask_def mult.assoc [symmetric])
  consider "i = 0" | "i = 1" | "i = 2" | "i = 3" using ais(2) by linarith
  then show "bit ((v OR drop_bit j v) AND m) n \<longleftrightarrow> n mod (2 * (2 * j)) < 2 * j \<and> bit x (n div (2 * (2 * j)) * (2 * j) + n mod (2 * j))"
  proof cases
    case 1
    have "(n + j) mod (2 * j) = j + s" using ais 1 block_index(3) [OF ais(3), of 1 a] by (simp add: ac_simps)
    then have "\<not> bit v (n + j)"
      using prev [of "n + j"] by (cases "n + j < 64") (auto dest: bit_imp_le_length)
    then show ?thesis
      using n m prev [OF n] block_index [OF ais(3,2), of a] ais 1 by (simp add: bit_or_drop algebra_simps)
  next
    case 2
    have "n + j = 4 * j * a + j * 2 + s" using ais 2 by simp
    moreover have "n + j < 64"
    proof -
      obtain c where c: "64 = 4 * j * c" using assms(5) unfolding dvd_def by blast
      then have "4 * j * a < 4 * j * c" using n ais by linarith
      then have "4 * j * Suc a \<le> 4 * j * c" by (intro mult_le_mono2) simp
      then have "4 * j * a + 4 * j \<le> 64" by (simp only: c mult_Suc_right add.commute)
      moreover have "n = 4 * j * a + j + s" using ais 2 by simp
      ultimately show ?thesis using ais(3) by linarith
    qed
    ultimately show ?thesis
      using n m prev [OF n] prev [of "n + j"] block_index [OF ais(3,2), of a] block_index [OF ais(3), of 2 a] ais 2
      by (simp add: bit_or_drop algebra_simps)
  qed (use n m block_index [OF ais(3,2), of a] ais in \<open>simp_all add: bit_or_drop\<close>)
qed


lemma all_below_64: "(\<forall>n < 64. P n) \<longleftrightarrow> list_all P [0..<64]"
  by (auto simp: list_all_iff)

lemma masks:
  "block_mask 32 0x00000000ffffffff" "block_mask 16 0x0000ffff0000ffff" "block_mask 8 0x00ff00ff00ff00ff"
  "block_mask 4 0x0f0f0f0f0f0f0f0f" "block_mask 2 0x3333333333333333" "block_mask 1 0x5555555555555555"
  unfolding block_mask_def all_below_64 by code_simp+


lemma blocks_ucast: "blocks 32 (ucast x) x"
  unfolding blocks_def
proof (intro allI impI)
  fix n :: nat
  show "bit (ucast x :: u64) n \<longleftrightarrow> n mod (2 * 32) < 32 \<and> bit x (n div (2 * 32) * 32 + n mod 32)" if "n < 64"
    using that bit_imp_le_length [of x n] by (cases "n < 32") (auto simp: bit_unsigned_iff)
qed

lemma blocks_spread: "blocks 1 (spread x) x"
  unfolding spread_def Let_def
  by (rule spread_step [OF spread_step [OF spread_step [OF spread_step [OF spread_step
        [OF blocks_ucast masks(2)] masks(3)] masks(4)] masks(5)] masks(6)]) simp_all

lemma bit_spread: "n < 64 \<Longrightarrow> bit (spread x) n \<longleftrightarrow> even n \<and> bit x (n div 2)"
  using blocks_spread [of x] by (auto simp: blocks_def even_iff_mod_2_eq_zero)

definition even_bits :: "u64 \<Rightarrow> u32" where
  "even_bits w = horner_sum of_bool 2 (map (\<lambda>n. bit w (2 * n)) [0..<32])"

lemma bit_even_bits: "bit (even_bits w) n \<longleftrightarrow> n < 32 \<and> bit w (2 * n)"
  by (auto simp: even_bits_def bit_horner_sum_bit_iff)

lemma blocks_even_bits: "blocks 1 (w AND 0x5555555555555555) (even_bits w)"
proof -
  have "even n \<longleftrightarrow> bit (0x5555555555555555 :: u64) n" if "n < 64" for n
    using masks(6) that by (auto simp: block_mask_def even_iff_mod_2_eq_zero)
  then show ?thesis
    by (auto simp: blocks_def bit_and_iff bit_even_bits even_iff_mod_2_eq_zero elim!: evenE)
qed

lemma squash_even_bits: "squash w = even_bits w"
proof -
  have "\<exists>v. squash w = ucast v \<and> blocks 32 v (even_bits w)"
    unfolding squash_def Let_def
    by (rule exI, rule conjI [OF refl], rule squash_step [OF squash_step [OF squash_step [OF squash_step [OF squash_step
        [OF blocks_even_bits masks(5)] masks(4)] masks(3)] masks(2)] masks(1)]) simp_all
  then obtain v where v: "squash w = ucast v" "blocks 32 v (even_bits w)" by blast
  then show ?thesis
    by (intro bit_word_eqI) (simp add: blocks_def bit_unsigned_iff)
qed

lemma bit_squash: "bit (squash w) n \<longleftrightarrow> n < 32 \<and> bit w (2 * n)"
  by (simp add: squash_even_bits bit_even_bits)

lemma bit_interleave:
  "n < 64 \<Longrightarrow> bit (interleave x y) n \<longleftrightarrow> (if even n then bit x (n div 2) else bit y (n div 2))"
  unfolding interleave_def bit_or_iff bit_push_bit_iff by (cases n) (auto simp: bit_spread elim!: oddE)


subsection \<open>Strings of symbols\<close>

lemma unat_byte_of_char: "unat (byte_of_char c) = of_char c"
  by (simp add: byte_of_char_def unat_of_nat take_bit_nat_eq_self_iff)

lemma decoder_codes: "map (\<lambda>c. DECODER ! of_char c) BASE32_CODES = map word_of_nat [0..<32]"
  by (simp add: DECODER_def BASE32_CODES_def nth_append upt_rec)

lemma decoder_gaps:
  assumes "k < 256" "DECODER ! k \<noteq> 0xff"
  shows "k \<in> set (map of_char BASE32_CODES)"
proof -
  have "DECODER ! k = 0xff" if "k < 48"
    using that by (simp add: DECODER_def nth_append del: append_Cons)
  moreover have "DECODER ! k = 0xff" if "58 \<le> k" "k < 98"
  proof -
    have "\<not> k < 48" "\<not> k - 48 < 10" "k - 48 - 10 < 40" using that by linarith+
    then show ?thesis by (simp add: DECODER_def nth_append del: append_Cons)
  qed
  moreover have "DECODER ! k = 0xff" if "123 \<le> k"
  proof -
    have "\<not> k < 48" "\<not> k - 48 < 10" "\<not> k - 48 - 10 < 40" "\<not> k - 48 - 10 - 40 < 25" "k - 48 - 10 - 40 - 25 < 133"
      using that assms(1) by linarith+
    then show ?thesis by (simp add: DECODER_def nth_append del: append_Cons)
  qed
  ultimately have "k \<in> {48..<58} \<or> k \<in> {98..<123}"
    using assms(2) unfolding atLeastLessThan_iff by (meson not_le)
  moreover have "k \<noteq> 105" "k \<noteq> 108" "k \<noteq> 111"
    using assms(2) by (auto simp: DECODER_def nth_append)
  moreover have "map of_char BASE32_CODES = [48..<58] @ [98..<105] @ [106, 107, 109, 110] @ [112..<(123 :: nat)]"
    by (simp add: BASE32_CODES_def upt_rec)
  ultimately show ?thesis by (simp only: set_append set_upt Un_iff atLeastLessThan_iff list.set insert_iff empty_iff) linarith
qed

lemma length_BASE32_CODES [simp]: "length BASE32_CODES = 32"
  by (simp add: BASE32_CODES_def)

lemma decode_symbol:
  assumes "k < 32"
  shows "DECODER ! unat (byte_of_char (BASE32_CODES ! k)) = word_of_nat k"
  using arg_cong [OF decoder_codes, of "\<lambda>xs. xs ! k"] assms by (simp add: unat_byte_of_char)

lemma encode_symbol:
  assumes "DECODER ! unat (byte_of_char c) \<noteq> 0xff"
  shows "DECODER ! unat (byte_of_char c) < 32 \<and> BASE32_CODES ! unat (DECODER ! unat (byte_of_char c)) = c"
proof -
  have "of_char c < (256 :: nat)" by simp
  then have "of_char c \<in> set (map of_char BASE32_CODES :: nat list)"
    using decoder_gaps assms by (simp add: unat_byte_of_char)
  then obtain k where k: "k < 32" "c = BASE32_CODES ! k"
    by (auto simp: in_set_conv_nth)
  then have "DECODER ! unat (byte_of_char c) = word_of_nat k" by (simp add: decode_symbol)
  moreover have "unat (word_of_nat k :: u8) = k" using k(1) by (simp add: unat_of_nat take_bit_nat_eq_self)
  ultimately show ?thesis using k by (simp add: word_less_nat_alt)
qed

lemma top_symbol: "unat (drop_bit 59 (w :: u64) AND 0x1f) < 32" "drop_bit 59 (w :: u64) AND 0x1f = drop_bit 59 w"
proof -
  have "drop_bit 59 w AND 0x1f = take_bit 5 (drop_bit 59 w)"
    by (simp add: take_bit_eq_mask mask_eq_exp_minus_1)
  moreover have "take_bit 5 (drop_bit 59 w) = drop_bit 59 w"
    by (rule bit_word_eqI) (auto simp: bit_take_bit_iff bit_drop_bit_eq dest: bit_imp_le_length)
  moreover have "unat (take_bit 5 (drop_bit 59 w)) < 32"
    using take_bit_nat_less_exp [of 5] by (simp add: unsigned_take_bit_eq)
  ultimately show "unat (drop_bit 59 w AND 0x1f) < 32" "drop_bit 59 w AND 0x1f = drop_bit 59 w" by simp_all
qed

lemma bit_push_64: "bit (push_bit m (w :: u64)) n \<longleftrightarrow> n < 64 \<and> m \<le> n \<and> bit w (n - m)"
  by (auto simp: bit_push_bit_iff)

lemma bit_drop_64: "bit (drop_bit d (w :: u64)) n \<longleftrightarrow> bit w (d + n)"
  by (simp add: bit_drop_bit_eq)

lemma shift_step:
  assumes "n \<le> 11"
  shows "push_bit (5 * n) (push_bit 5 h OR drop_bit 59 w) OR drop_bit (64 - 5 * n) (push_bit 5 w)
    = push_bit (5 * Suc n) h OR drop_bit (64 - 5 * Suc n) (w :: u64)"
proof (rule bit_word_eqI)
  fix k
  assume "k < LENGTH(64)"
  then have k: "k < 64" by simp
  define m where "m = 5 * n"
  have m: "m \<le> 55" "5 * Suc n = m + 5" using assms by (simp_all add: m_def)
  have hi: "59 + (k - m) = 59 - m + k" "k - m - 5 = k - (m + 5)" "5 \<le> k - m \<longleftrightarrow> m + 5 \<le> k" "k - m < 64" if "m \<le> k"
    using that m(1) k by linarith+
  have lo: "64 - m + k - 5 = 59 - m + k" "5 \<le> 64 - m + k" "64 - m + k < 64 \<longleftrightarrow> k < m" "64 - (m + 5) + k = 59 - m + k"
    using m(1) by linarith+
  have "bit (push_bit m (push_bit 5 h OR drop_bit 59 w)) k \<longleftrightarrow>
      m \<le> k \<and> (m + 5 \<le> k \<and> bit h (k - (m + 5)) \<or> bit w (59 - m + k))"
    unfolding bit_push_64 bit_or_iff bit_drop_64 using hi k by (metis (no_types))
  moreover have "bit (drop_bit (64 - m) (push_bit 5 w)) k \<longleftrightarrow> k < m \<and> bit w (59 - m + k)"
    unfolding bit_push_64 bit_drop_64 by (simp only: lo simp_thms)
  moreover have "bit (drop_bit (64 - (m + 5)) w) k \<longleftrightarrow> bit w (59 - m + k)"
    by (simp only: bit_drop_64 lo)
  moreover have "bit (push_bit (m + 5) h) k \<longleftrightarrow> m + 5 \<le> k \<and> bit h (k - (m + 5))"
    using k by (simp only: bit_push_64 simp_thms)
  ultimately show "bit (push_bit (5 * n) (push_bit 5 h OR drop_bit 59 w) OR drop_bit (64 - 5 * n) (push_bit 5 w)) k
      \<longleftrightarrow> bit (push_bit (5 * Suc n) h OR drop_bit (64 - 5 * Suc n) w) k"
    unfolding bit_or_iff m(2) m_def [symmetric] by (metis add_leD1 not_le)
qed

lemma decode_encode_loop:
  "n \<le> 12 \<Longrightarrow> decode_loop (encode_loop n w) h = Inr (push_bit (5 * n) h OR drop_bit (64 - 5 * n) w)"
proof (induction n arbitrary: w h)
  case 0
  have "drop_bit 64 w = 0" by (rule bit_word_eqI) (auto simp: bit_drop_bit_eq dest: bit_imp_le_length)
  then show ?case by simp
next
  case (Suc n)
  let ?d = "drop_bit 59 w"
  have d: "DECODER ! unat (byte_of_char (BASE32_CODES ! unat (?d AND 0x1f))) = ucast ?d"
    using decode_symbol [OF top_symbol(1) [of w]] by (simp add: top_symbol(2))
  have d32: "unat ?d < 32" using top_symbol [of w] by simp
  then have "unat (ucast ?d :: u8) = unat ?d" by (simp add: unsigned_ucast_eq take_bit_nat_eq_self)
  with d32 have ne: "(ucast ?d :: u8) \<noteq> 0xff" by auto
  have up: "(ucast (ucast ?d :: u8) :: u64) = ?d"
    using \<open>unat (ucast ?d :: u8) = unat ?d\<close> by (simp add: word_unat_eq_iff unsigned_ucast_eq unsigned_take_bit_eq)
  have "decode_loop (encode_loop (Suc n) w) h = decode_loop (encode_loop n (push_bit 5 w)) (push_bit 5 h OR ?d)"
    using d ne up by (simp add: Let_def)
  also have "\<dots> = Inr (push_bit (5 * n) (push_bit 5 h OR ?d) OR drop_bit (64 - 5 * n) (push_bit 5 w))"
    using Suc by simp
  also have "push_bit (5 * n) (push_bit 5 h OR ?d) OR drop_bit (64 - 5 * n) (push_bit 5 w)
      = push_bit (5 * Suc n) h OR drop_bit (64 - 5 * Suc n) w"
    by (rule shift_step) (use Suc.prems in simp)
  finally show ?case .
qed


lemma symbol_bits_below:
  assumes "DECODER ! unat (byte_of_char c) \<noteq> 0xff" "5 \<le> k"
  shows "\<not> bit (DECODER ! unat (byte_of_char c)) k"
proof -
  let ?v = "DECODER ! unat (byte_of_char c)"
  have "unat ?v < 2 ^ 5" using encode_symbol [OF assms(1)] by (simp add: word_less_nat_alt)
  then have "take_bit 5 (unat ?v) = unat ?v" by (rule take_bit_nat_eq_self)
  then have "bit (unat ?v) k \<longleftrightarrow> k < 5 \<and> bit (unat ?v) k" by (metis bit_take_bit_iff)
  then show ?thesis using assms(2) by (simp add: bit_unsigned_iff)
qed

lemma unat_u64_of_u8: "unat (ucast (b :: u8) :: u64) = unat b"
  using unsigned_less [of b, where ?'a = nat] by (simp add: unsigned_ucast_eq take_bit_nat_eq_self)

lemma decode_loop_bits:
  assumes "decode_loop cs acc = Inr r" "5 * length cs \<le> n" "n < 64"
  shows "bit r n \<longleftrightarrow> bit acc (n - 5 * length cs)"
  using assms
proof (induction cs arbitrary: acc)
  case (Cons c cs)
  let ?v = "DECODER ! unat (byte_of_char c)"
  have v: "?v \<noteq> 0xff" and r: "decode_loop cs (push_bit 5 acc OR ucast ?v) = Inr r"
    using Cons.prems(1) by (auto simp: Let_def split: if_splits)
  have "\<not> bit ?v k" if "5 \<le> k" for k by (rule symbol_bits_below [OF v that])
  moreover have "5 \<le> n - 5 * length cs" "n - 5 * length cs < 64" "n - 5 * length cs - 5 = n - 5 * length (c # cs)"
    using Cons.prems(2,3) by auto
  ultimately show ?case
    using Cons.IH [OF r] Cons.prems(2,3) by (simp add: bit_or_iff bit_push_bit_iff bit_unsigned_iff)
qed simp


lemma encode_loop_cong:
  "(\<And>n. 64 - 5 * len \<le> n \<Longrightarrow> n < 64 \<Longrightarrow> bit v n \<longleftrightarrow> bit w n) \<Longrightarrow> len \<le> 12 \<Longrightarrow> encode_loop len v = encode_loop len w"
proof (induction len arbitrary: v w)
  case (Suc len)
  have "drop_bit 59 v = drop_bit 59 w"
  proof (rule bit_word_eqI)
    fix n
    assume "n < LENGTH(64)"
    show "bit (drop_bit 59 v) n \<longleftrightarrow> bit (drop_bit 59 w) n"
      using Suc.prems(1) [of "59 + n"] bit_imp_le_length [of v "59 + n"] bit_imp_le_length [of w "59 + n"]
      unfolding bit_drop_64 by (cases "59 + n < 64") auto
  qed
  moreover have "encode_loop len (push_bit 5 v) = encode_loop len (push_bit 5 w)"
  proof (rule Suc.IH)
    fix n
    assume "64 - 5 * len \<le> n" "n < 64"
    then show "bit (push_bit 5 v) n \<longleftrightarrow> bit (push_bit 5 w) n"
      using Suc.prems(1) [of "n - 5"] Suc.prems(2) unfolding bit_push_64 by auto
  qed (use Suc.prems in simp)
  ultimately show ?case by simp
qed simp

lemma encode_decode_loop:
  "decode_loop h acc = Inr r \<Longrightarrow> length h \<le> 12 \<Longrightarrow> encode_loop (length h) (push_bit (64 - 5 * length h) r) = h"
proof (induction h arbitrary: acc)
  case (Cons c cs)
  let ?v = "DECODER ! unat (byte_of_char c)" and ?w = "push_bit (64 - 5 * length (c # cs)) r"
  have v: "?v \<noteq> 0xff" and r: "decode_loop cs (push_bit 5 acc OR ucast ?v) = Inr r"
    using Cons.prems(1) by (auto simp: Let_def split: if_splits)
  have "drop_bit 59 ?w = ucast ?v"
  proof (rule bit_word_eqI)
    fix n
    assume n: "n < LENGTH(64)"
    show "bit (drop_bit 59 ?w) n \<longleftrightarrow> bit (ucast ?v :: u64) n"
    proof (cases "n < 5")
      case True
      have "bit (drop_bit 59 ?w) n \<longleftrightarrow> bit r (5 * length cs + n)"
      proof -
        have "59 + n - (64 - 5 * length (c # cs)) = 5 * length cs + n" "64 - 5 * length (c # cs) \<le> 59 + n" "59 + n < 64"
          using Cons.prems(2) True by simp_all
        then show ?thesis unfolding bit_drop_64 bit_push_64 by (simp only: simp_thms)
      qed
      also have "\<dots> \<longleftrightarrow> bit (push_bit 5 acc OR ucast ?v) n"
        using decode_loop_bits [OF r, of "5 * length cs + n"] Cons.prems(2) True by simp
      also have "\<dots> \<longleftrightarrow> bit (ucast ?v :: u64) n"
        using True by (simp only: bit_or_iff bit_push_64) simp
      finally show ?thesis .
    next
      case False
      then have "\<not> bit (drop_bit 59 ?w) n" unfolding bit_drop_64 bit_push_64 by simp
      moreover have "\<not> bit ?v n" using symbol_bits_below [OF v] False by simp
      ultimately show ?thesis by (simp add: bit_unsigned_iff)
    qed
  qed
  then have "unat (drop_bit 59 ?w AND 0x1f) = unat ?v"
    using top_symbol(2) [of ?w] by (simp only: unat_u64_of_u8)
  then have "BASE32_CODES ! unat (drop_bit 59 ?w AND 0x1f) = c" using encode_symbol [OF v] by simp
  moreover have "push_bit 5 ?w = push_bit (64 - 5 * length cs) r"
    using Cons.prems(2) by (simp only: push_bit_push_bit) (simp add: algebra_simps)
  ultimately show ?case using Cons.IH [OF r] Cons.prems(2) by simp
qed simp

end
