(* ===== verification/Geohash_Cells.thy ===== *)
theory Geohash_Cells
  imports Geohash
begin

text \<open>
  What a geohash of length \<open>len\<close> denotes: a cell of a grid with \<open>2 ^ lon_bits len\<close> columns and
  \<open>2 ^ lat_bits len\<close> rows. Decoding gives the exact centre of the cell, encoding the cell of a
  coordinate up to the rounding of \<open>f64\<close>, and neighbours are the adjacent cells.
\<close>

unbundle bit_operations_syntax

lemma round_even_unique: "\<bar>x - of_int n\<bar> < 1 / 2 \<Longrightarrow> round_even x = n"
proof -
  assume "\<bar>x - of_int n\<bar> < 1 / 2"
  moreover have "\<bar>of_int (round_even x) - x\<bar> \<le> 1 / 2" by (rule round_even_error)
  ultimately have "\<bar>of_int (round_even x) - (of_int n :: rat)\<bar> < of_int 1" unfolding abs_less_iff abs_le_iff by linarith
  then have "\<bar>round_even x - n\<bar> < 1" by (simp only: of_int_less_iff flip: of_int_diff of_int_abs)
  then show ?thesis by linarith
qed

lemma fl_eqI:
  assumes "pow2 k \<le> q" "q < pow2 (k + 1)" "\<bar>q / pow2 (k - 52) - of_int n\<bar> < 1 / 2"
  shows "fl 53 q = of_int n * pow2 (k - 52)"
proof -
  have "q \<noteq> 0" using assms(1) pow2_pos [of k] by linarith
  then show ?thesis
    using exponent_unique [OF assms(1,2)] round_even_unique [OF assms(3)] by (simp add: fl_def Let_def)
qed


definition lat_bits :: "nat \<Rightarrow> nat" where
  "lat_bits len = 5 * len div 2"

definition lon_bits :: "nat \<Rightarrow> nat" where
  "lon_bits len = 5 * len - 5 * len div 2"

definition cell_word :: "nat \<Rightarrow> nat \<Rightarrow> u32" where
  "cell_word n k = push_bit (32 - n) (word_of_nat k)"

definition cell :: "nat \<Rightarrow> nat \<Rightarrow> nat \<Rightarrow> string" where
  "cell len i j = encode_loop len (interleave (cell_word (lat_bits len) j) (cell_word (lon_bits len) i))"

definition centre :: "rat \<Rightarrow> nat \<Rightarrow> nat \<Rightarrow> rat" where
  "centre r n k = 2 * r * (of_nat k + 1 / 2) / 2 ^ n - r"

lemma bits_le: "len \<le> 12 \<Longrightarrow> lat_bits len \<le> 30 \<and> lon_bits len \<le> 30"
  by (auto simp: lat_bits_def lon_bits_def)

lemma bit_push_32: "bit (push_bit m (w :: u32)) n \<longleftrightarrow> n < 32 \<and> m \<le> n \<and> bit w (n - m)"
  by (auto simp: bit_push_bit_iff)

lemma bit_cell_word_low: "n < 32 - m \<Longrightarrow> \<not> bit (cell_word m k) n"
  unfolding cell_word_def bit_push_32 by simp

lemma unat_small_32: "k < 2 ^ 32 \<Longrightarrow> unat (word_of_nat k :: u32) = k"
  by (simp add: unat_of_nat take_bit_nat_eq_self)

lemma unat_small_64: "k < 2 ^ 64 \<Longrightarrow> unat (word_of_nat k :: u64) = k"
  by (simp add: unat_of_nat take_bit_nat_eq_self)

lemma unat_cell_word:
  assumes "k < 2 ^ n" "n \<le> 32"
  shows "unat (cell_word n k) = k * 2 ^ (32 - n)"
proof -
  have "k * 2 ^ (32 - n) < 2 ^ n * 2 ^ (32 - n)" using assms(1) by (intro mult_strict_right_mono) simp_all
  also have "\<dots> = 2 ^ 32" using assms(2) by (simp flip: power_add)
  finally have "k * 2 ^ (32 - n) < 2 ^ 32" .
  moreover have "cell_word n k = word_of_nat (k * 2 ^ (32 - n))"
    by (simp add: cell_word_def push_bit_eq_mult)
  ultimately show ?thesis by (simp only: unat_small_32)
qed

lemma cell_word_inj:
  assumes "cell_word n k = cell_word n k'" "k < 2 ^ n" "k' < 2 ^ n" "n \<le> 32"
  shows "k = k'"
  using arg_cong [OF assms(1), of unat] assms(2-4) by (simp add: unat_cell_word)


subsection \<open>Words of whole cells\<close>

lemma interleave_low:
  assumes "\<And>n. n < 32 - lat_bits len \<Longrightarrow> \<not> bit a n" "\<And>n. n < 32 - lon_bits len \<Longrightarrow> \<not> bit b n" "k < 64 - 5 * len"
  shows "\<not> bit (interleave a b) k"
proof -
  have "k < 64" using assms(3) by simp
  moreover have "even k \<Longrightarrow> k div 2 < 32 - lat_bits len" using assms(3) by (auto simp: lat_bits_def elim!: evenE)
  moreover have "odd k \<Longrightarrow> k div 2 < 32 - lon_bits len" using assms(3) by (auto simp: lon_bits_def elim!: oddE)
  ultimately show ?thesis using assms(1,2) by (simp add: bit_interleave)
qed

lemma push_drop_high:
  assumes "\<And>k. k < d \<Longrightarrow> \<not> bit (w :: u64) k"
  shows "push_bit d (drop_bit d w) = w"
proof (rule bit_word_eqI)
  fix k
  show "bit (push_bit d (drop_bit d w)) k \<longleftrightarrow> bit w k"
    using assms [of k] bit_imp_le_length [of w k] unfolding bit_push_64 bit_drop_64 by (cases "k < d") auto
qed

lemma deinterleave_interleave: "deinterleave (interleave a b) = (a, b)"
proof -
  have "squash (interleave a b) = a"
    by (rule bit_word_eqI) (simp add: bit_squash bit_interleave)
  moreover have "squash (drop_bit 1 (interleave a b)) = b"
    by (rule bit_word_eqI) (simp add: bit_squash bit_drop_64 bit_interleave)
  ultimately show ?thesis by (simp add: deinterleave_def)
qed

lemma length_encode_loop [simp]: "length (encode_loop n w) = n"
  by (induction n arbitrary: w) simp_all

lemma length_cell [simp]: "length (cell len i j) = len"
  by (simp add: cell_def)


subsection \<open>Decoding\<close>

lemma grid_frac:
  assumes "q = of_int a / 2 ^ k" "k \<le> 40" "\<bar>q\<bar> < 8192"
  shows "grid q"
proof -
  have "(2 :: rat) ^ 40 = 2 ^ k * 2 ^ (40 - k)" using assms(2) by (simp flip: power_add)
  then have "q * 2 ^ 40 = of_int a / 2 ^ k * (2 ^ k * 2 ^ (40 - k))" by (simp only: assms(1))
  then have "q * 2 ^ 40 = of_int (a * 2 ^ (40 - k))" by simp
  with assms(3) show ?thesis unfolding grid_def by (metis Ints_of_int)
qed

lemma unat_shifted: "unat (push_bit 20 (ucast (x :: u32)) :: u64) = unat x * 2 ^ 20"
proof -
  have "unat x < 2 ^ 32" using unsigned_less [of x, where ?'a = nat] by simp
  moreover have "(push_bit 20 (ucast x) :: u64) = word_of_nat (unat x * 2 ^ 20)"
    by (simp add: push_bit_eq_mult)
  ultimately show ?thesis using unat_small_64 [of "unat x * 2 ^ 20"] by (simp only:) simp
qed

lemma mantissa_bits:
  "take_bit 52 (push_bit 20 (ucast (x :: u32)) OR push_bit 52 1023 :: u64) = push_bit 20 (ucast x)"
  "take_bit 11 (drop_bit 52 (push_bit 20 (ucast (x :: u32)) OR push_bit 52 1023 :: u64)) = 1023"
proof -
  have x: "\<not> bit x k" if "32 \<le> k" for k using bit_imp_le_length [of x k] that by auto
  show "take_bit 52 (push_bit 20 (ucast x) OR push_bit 52 1023 :: u64) = push_bit 20 (ucast x)"
  proof (rule bit_word_eqI)
    fix k
    show "bit (take_bit 52 (push_bit 20 (ucast x) OR push_bit 52 1023 :: u64)) k \<longleftrightarrow> bit (push_bit 20 (ucast x) :: u64) k"
      using x [of "k - 20"] unfolding bit_take_bit_iff bit_or_iff bit_push_64 bit_unsigned_iff by (cases "k < 52") auto
  qed
  have high: "\<not> bit (push_bit 20 (ucast x) :: u64) (52 + k)" for k
    using x [of "52 + k - 20"] unfolding bit_push_64 bit_unsigned_iff by auto
  show "take_bit 11 (drop_bit 52 (push_bit 20 (ucast x) OR push_bit 52 1023 :: u64)) = 1023"
  proof -
    have "drop_bit 52 (push_bit 20 (ucast x) OR push_bit 52 1023 :: u64) = drop_bit 52 (push_bit 52 1023)"
      by (rule bit_word_eqI) (use high in \<open>simp only: bit_drop_64 bit_or_iff simp_thms\<close>)
    also have "take_bit 11 \<dots> = 1023" by simp
    finally show ?thesis .
  qed
qed

lemma decode_range_value:
  assumes "0 < R" "R \<le> 180" "unat x = k"
  shows "decode_range x (of_int R) = 2 * of_int R * (of_nat k / 2 ^ 32) - of_int R"
proof -
  let ?q = "of_nat k / 2 ^ 32 :: rat" and ?r = "of_int R :: rat"
  have "k < 2 ^ 32" using unsigned_less [of x, where ?'a = nat] assms(3) by simp
  then have "of_nat k < (of_nat (2 ^ 32) :: rat)" unfolding of_nat_less_iff .
  then have q: "0 \<le> ?q" "?q < 1" by simp_all
  have "?r \<le> of_int 180" using assms(2) unfolding of_int_le_iff .
  then have r: "0 < ?r" "?r \<le> 180" using assms(1) by simp_all
  have prod: "0 \<le> 2 * ?r * ?q" "2 * ?r * ?q \<le> 360"
    using q r mult_mono [of "2 * ?r" 360 ?q 1] by simp_all
  have "f64_from_bits (push_bit 20 (ucast x) OR push_bit 52 1023) = 1 + ?q"
    unfolding f64_from_bits_def mantissa_bits unat_shifted assms(3) by (simp add: pow2_def)
  moreover have "f_sub (1 + ?q) 1 = ?q"
    unfolding f_sub_def by (subst fl_grid, rule grid_frac [of _ "int k" 32]) (use q in simp_all)
  moreover have "f_times 2 ?r = 2 * ?r"
    unfolding f_times_def by (rule fl_grid, rule grid_frac [of _ "2 * R" 0]) (use r in simp_all)
  moreover have "f_times (2 * ?r) ?q = 2 * ?r * ?q"
    unfolding f_times_def by (rule fl_grid, rule grid_frac [of _ "2 * R * int k" 32]) (use prod in simp_all)
  moreover have "f_sub (2 * ?r * ?q) ?r = 2 * ?r * ?q - ?r"
    unfolding f_sub_def
  proof (rule fl_grid, rule grid_frac [of _ "2 * R * int k - R * 2 ^ 32" 32])
    show "\<bar>2 * ?r * ?q - ?r\<bar> < 8192" using prod r by linarith
  qed (simp_all add: field_simps)
  ultimately show ?thesis by (simp only: decode_range_def Let_def)
qed

lemma div_pow_le: "0 < r \<Longrightarrow> 0 < r / 2 ^ n \<and> r / 2 ^ n \<le> (r :: rat)"
proof -
  assume "0 < r"
  then have "r / 2 ^ n \<le> r / 1" by (intro divide_left_mono) simp_all
  with \<open>0 < r\<close> show ?thesis by simp
qed

lemma abs_centre:
  assumes "k < 2 ^ n" "0 < r"
  shows "- r < centre r n k \<and> centre r n k < r"
proof -
  have "of_nat (k + 1) \<le> (of_nat (2 ^ n) :: rat)" unfolding of_nat_le_iff using assms(1) by simp
  then have q: "0 < (of_nat k + 1 / 2) / (2 :: rat) ^ n" "(of_nat k + 1 / 2) / (2 :: rat) ^ n < 1"
    by (simp_all add: field_simps)
  have "centre r n k = 2 * r * ((of_nat k + 1 / 2) / 2 ^ n) - r" by (simp add: centre_def)
  moreover have "0 < 2 * r * ((of_nat k + 1 / 2) / 2 ^ n)" using q(1) assms(2) by (intro mult_pos_pos) simp_all
  moreover have "2 * r * ((of_nat k + 1 / 2) / 2 ^ n) < 2 * r * 1" using q(2) assms(2) by (intro mult_strict_left_mono) simp_all
  ultimately show ?thesis by linarith
qed

lemma centre_frac: "centre (of_int R) n k = of_int (R * (2 * int k + 1) - R * 2 ^ n) / 2 ^ n"
  by (simp add: centre_def field_simps)

lemma grid_centre: "k < 2 ^ n \<Longrightarrow> 0 < R \<Longrightarrow> R \<le> 180 \<Longrightarrow> n \<le> 30 \<Longrightarrow> grid (centre (of_int R) n k)"
  using abs_centre [of k n "of_int R"]
  by (intro grid_frac [OF centre_frac]) (auto simp: abs_less_iff intro: less_le_trans order_less_trans)

lemma decode_axis:
  assumes "unat x = k * 2 ^ (32 - n)" "k < 2 ^ n" "n \<le> 30" "0 < R" "R \<le> 180"
  shows "f_add (decode_range x (of_int R)) (of_int R / 2 ^ n) = centre (of_int R) n k
    \<and> f_divide (f_times (2 * of_int R) (pow2 (- int n))) 2 = of_int R / 2 ^ n"
proof -
  have r: "0 < (of_int R :: rat)" "(of_int R :: rat) \<le> of_int 180" using assms(4,5) unfolding of_int_le_iff by simp_all
  have "(2 :: rat) ^ 32 = 2 ^ (32 - n) * 2 ^ n" using assms(3) by (simp flip: power_add)
  then have "of_nat (k * 2 ^ (32 - n)) / 2 ^ 32 = (of_nat k * 2 ^ (32 - n)) / (2 ^ (32 - n) * 2 ^ n :: rat)"
    by (simp only:) simp
  then have "of_nat (k * 2 ^ (32 - n)) / 2 ^ 32 = (of_nat k / 2 ^ n :: rat)" by simp
  then have x: "decode_range x (of_int R) = 2 * of_int R * (of_nat k / 2 ^ n) - of_int R"
    unfolding decode_range_value [OF assms(4,5,1)] by (simp only:)
  have small: "of_int R / 2 ^ n \<le> (of_int R :: rat)" using div_pow_le [OF r(1)] by simp
  have "f_times (2 * of_int R) (pow2 (- int n)) = of_int (2 * R) / 2 ^ n"
    unfolding f_times_def by (subst fl_grid, rule grid_frac [of _ "2 * R" n]) (use assms(3) r small in \<open>simp_all add: pow2_def\<close>)
  moreover have "f_divide (of_int (2 * R) / 2 ^ n) 2 = of_int R / 2 ^ n"
    unfolding f_divide_def by (subst fl_grid, rule grid_frac [of _ R n]) (use assms(3) r small in simp_all)
  moreover have "f_add (2 * of_int R * (of_nat k / 2 ^ n) - of_int R) (of_int R / 2 ^ n) = centre (of_int R) n k"
  proof -
    have "2 * of_int R * (of_nat k / 2 ^ n) - of_int R + of_int R / 2 ^ n = centre (of_int R) n k"
      by (simp add: centre_def field_simps)
    then show ?thesis unfolding f_add_def using fl_grid [OF grid_centre [OF assms(2,4,5,3)]] by (simp only:)
  qed
  ultimately show ?thesis by (simp only: x)
qed

lemma decode_cell:
  assumes "1 \<le> len" "len \<le> 12" "i < 2 ^ lon_bits len" "j < 2 ^ lat_bits len"
  shows "geohash_decode (cell len i j) =
    Some (Inr ((centre 180 (lon_bits len) i, centre 90 (lat_bits len) j), 180 / 2 ^ lon_bits len, 90 / 2 ^ lat_bits len))"
proof -
  let ?a = "cell_word (lat_bits len) j" and ?b = "cell_word (lon_bits len) i"
  let ?w = "interleave ?a ?b"
  have n: "lat_bits len \<le> 30" "lon_bits len \<le> 30" using bits_le [OF assms(2)] by simp_all
  have "decode_loop (cell len i j) 0 = Inr (drop_bit (64 - 5 * len) ?w)"
    unfolding cell_def by (subst decode_encode_loop [OF assms(2)]) simp
  moreover have "push_bit (64 - 5 * len) (drop_bit (64 - 5 * len) ?w) = ?w"
    by (rule push_drop_high, rule interleave_low [where len = len]) (auto simp: bit_cell_word_low)
  moreover have "error_with_precision (len * 5) =
      (f_times (2 * of_int 90) (pow2 (- int (lat_bits len))), f_times (2 * of_int 180) (pow2 (- int (lon_bits len))))"
    by (simp add: error_with_precision_def Let_def lat_bits_def lon_bits_def mult.commute)
  moreover have "\<not> 64 - len * 5 \<ge> 64" "64 - len * 5 = 64 - 5 * len" using assms(1) by simp_all
  ultimately show ?thesis
    using assms(2) n
      decode_axis [of ?a j "lat_bits len" 90] decode_axis [of ?b i "lon_bits len" 180]
      unat_cell_word [OF assms(4)] unat_cell_word [OF assms(3)] assms(3,4)
    by (simp add: geohash_decode_def Let_def deinterleave_interleave)
qed


subsection \<open>Encoding\<close>

lemma quantized:
  assumes S: "fl 53 (R / 2 * S) = 1 / 2" "\<bar>S * R - 1\<bar> \<le> 1 / 2 ^ 53" "0 < S" "0 < R"
    and y: "- (R / 2) \<le> y" "y \<le> R / 2 - R / 2 ^ 50"
  defines "v \<equiv> f_add (f_times y S) (3 / 2)"
  shows "1 \<le> v" "v < 2" "\<bar>v - (y / R + 3 / 2)\<bar> < 1 / 2 ^ 50"
proof -
  let ?t = "f_times y S"
  have yR: "\<bar>y / R\<bar> \<le> 1 / 2"
  proof -
    have "0 < R / 2 ^ 50" using S(4) by simp
    then have "\<bar>y\<bar> \<le> R / 2" using y unfolding abs_le_iff by linarith
    then show ?thesis using S(4) by (simp add: field_simps)
  qed
  have d: "\<bar>y * S - y / R\<bar> \<le> 1 / 2 ^ 54"
  proof -
    have "y * S - y / R = y / R * (S * R - 1)" using S(4) by (simp add: field_simps)
    then have "\<bar>y * S - y / R\<bar> = \<bar>y / R\<bar> * \<bar>S * R - 1\<bar>" by (simp only: abs_mult)
    also have "\<dots> \<le> 1 / 2 * (1 / 2 ^ 53)" using yR S(2) by (intro mult_mono) simp_all
    finally show ?thesis by simp
  qed
  moreover have "1 / 2 ^ 54 \<le> (1 / 2 :: rat)" by simp
  ultimately have yS: "\<bar>y * S\<bar> \<le> 1" using yR unfolding abs_le_iff by linarith
  have t: "\<bar>?t - y * S\<bar> \<le> 1 / 2 ^ 53"
    using fl_error [of 53 "y * S"] yS unfolding f_times_def by simp
  have err: "\<bar>v - (?t + 3 / 2)\<bar> \<le> 3 / 2 ^ 53"
  proof -
    have "\<bar>?t - y * S\<bar> \<le> 1 / 2" using t by simp
    then have "\<bar>?t + 3 / 2\<bar> \<le> 3" using yS unfolding abs_le_iff by linarith
    then show ?thesis using fl_error [of 53 "?t + 3 / 2"] unfolding v_def f_add_def by simp
  qed
  show e: "\<bar>v - (y / R + 3 / 2)\<bar> < 1 / 2 ^ 50"
  proof -
    have "\<bar>v - (y / R + 3 / 2)\<bar> \<le> 3 / 2 ^ 53 + 1 / 2 ^ 53 + 1 / 2 ^ 54"
      using d t err unfolding abs_le_iff by linarith
    then show ?thesis by simp
  qed
  have "y / R \<le> 1 / 2 - 1 / 2 ^ 50" using y(2) S(4) by (simp add: field_simps)
  then show "v < 2" using e unfolding abs_less_iff by linarith
  have "- (1 / 2) \<le> ?t"
  proof (cases "0 \<le> y")
    case True
    then show ?thesis using fl_nonneg [of "y * S" 53] S(3) by (simp add: f_times_def)
  next
    case False
    then have "fl 53 (- y * S) \<le> fl 53 (R / 2 * S)"
      using S(3) y(1) by (intro fl_mono_pos mult_right_mono mult_pos_pos) auto
    then show ?thesis using S(1) fl_minus [of 53 "y * S"] by (simp add: f_times_def)
  qed
  then show "1 \<le> v"
    unfolding v_def f_add_def by (intro le_fl [where m = 1 and k = 0]) (auto simp: pow2_def)
qed

lemma floor_div: "\<lfloor>x :: rat\<rfloor> div 2 ^ d = \<lfloor>x / 2 ^ d\<rfloor>"
proof -
  let ?q = "\<lfloor>x\<rfloor> div 2 ^ d" and ?r = "\<lfloor>x\<rfloor> mod 2 ^ d"
  have "\<lfloor>x\<rfloor> = ?q * 2 ^ d + ?r" "0 \<le> ?r" "?r + 1 \<le> 2 ^ d"
    by (simp_all only: div_mult_mod_eq) (simp_all add: zless_imp_add1_zle)
  then have "of_int (?q * 2 ^ d) \<le> x \<and> x < of_int (?q * 2 ^ d + 2 ^ d)"
    by linarith
  then have "of_int ?q \<le> x / 2 ^ d" "x / 2 ^ d < of_int ?q + 1" by (simp_all add: field_simps)
  then show ?thesis by (simp add: floor_unique)
qed

lemma uint_drop_bit: "uint (drop_bit n w) = drop_bit n (uint w)"
  by (simp add: unsigned_drop_bit_eq take_bit_int_eq_self)

lemma quantize_index:
  assumes "1 \<le> v" "v < 2" "v = f_add (f_times y S) (3 / 2)" "n \<le> 32"
  shows "int (unat (drop_bit (32 - n) (quantize S y))) = \<lfloor>(v - 1) * 2 ^ n\<rfloor>"
proof -
  have "exponent v = 0" using assms(1,2) by (intro exponent_unique) (simp_all add: pow2_def)
  then have bits: "f64_to_bits v = word_of_int (1022 * 2 ^ 52 + \<lfloor>v * 2 ^ 52\<rfloor>)"
    by (simp add: f64_to_bits_def pow2_def)
  define F where "F = \<lfloor>v * 2 ^ 52\<rfloor>"
  have F: "2 ^ 52 \<le> F" "F < 2 ^ 53" using assms(1,2) by (simp_all add: F_def le_floor_iff floor_less_iff)
  have "uint (f64_to_bits v) = 1022 * 2 ^ 52 + F"
  proof -
    have "take_bit 64 (1022 * 2 ^ 52 + F) = 1022 * 2 ^ 52 + F"
      using F by (intro take_bit_int_eq_self) simp_all
    moreover have "LENGTH(64) = 64" by simp
    ultimately show ?thesis using F unfolding bits F_def [symmetric] unsigned_of_int by simp
  qed
  then have "uint (drop_bit 20 (f64_to_bits v)) = 1022 * 2 ^ 32 + F div 2 ^ 20"
    by (simp only: uint_drop_bit) (simp add: drop_bit_eq_div)
  moreover have "F div 2 ^ 20 = \<lfloor>v * 2 ^ 32\<rfloor>" using floor_div [of "v * 2 ^ 52" 20] by (simp add: F_def mult.commute)
  ultimately have "uint (quantize S y) = (1022 * 2 ^ 32 + \<lfloor>v * 2 ^ 32\<rfloor>) mod 2 ^ 32"
    by (simp add: quantize_def flip: assms(3)) (simp add: unsigned_ucast_eq take_bit_eq_mod)
  moreover define G where "G = \<lfloor>(v - 1) * 2 ^ 32\<rfloor>"
  have "\<lfloor>v * 2 ^ 32\<rfloor> = 2 ^ 32 + G"
    using floor_add_int [of "(v - 1) * 2 ^ 32" "2 ^ 32"] by (simp add: G_def algebra_simps)
  moreover have "(1022 * 2 ^ 32 + (2 ^ 32 + G)) mod 2 ^ 32 = G"
  proof -
    have "0 \<le> G" "G < 2 ^ 32" using assms(1,2) by (simp_all add: G_def floor_less_iff)
    moreover have "1022 * 2 ^ 32 + (2 ^ 32 + G) = 1023 * 2 ^ 32 + G" by simp
    ultimately show ?thesis by (simp only: mod_mult_self3 mod_pos_pos_trivial)
  qed
  ultimately have "uint (quantize S y) = \<lfloor>(v - 1) * 2 ^ 32\<rfloor>" by (simp only: G_def)
  then have "uint (drop_bit (32 - n) (quantize S y)) = \<lfloor>(v - 1) * 2 ^ 32 / 2 ^ (32 - n)\<rfloor>"
    unfolding uint_drop_bit by (simp only: drop_bit_eq_div floor_div)
  moreover have p: "(2 :: rat) ^ 32 = 2 ^ n * 2 ^ (32 - n)" using assms(4) by (simp flip: power_add)
  have "(v - 1) * 2 ^ 32 / 2 ^ (32 - n) = (v - 1) * 2 ^ n" unfolding p by simp
  ultimately show ?thesis by simp
qed

lemma scale_values: "LAT_SCALE = 6405119470038039 / 2 ^ 60" "LON_SCALE = 6405119470038039 / 2 ^ 61"
proof -
  show "LAT_SCALE = 6405119470038039 / 2 ^ 60"
    unfolding LAT_SCALE_def by (subst fl_eqI [where k = "- 8" and n = 6405119470038039]) (simp_all add: pow2_def)
  show "LON_SCALE = 6405119470038039 / 2 ^ 61"
    unfolding LON_SCALE_def by (subst fl_eqI [where k = "- 9" and n = 6405119470038039]) (simp_all add: pow2_def)
qed

lemma scales:
  "fl 53 (180 / 2 * LAT_SCALE) = 1 / 2" "\<bar>LAT_SCALE * 180 - 1\<bar> \<le> 1 / 2 ^ 53" "0 < LAT_SCALE"
  "fl 53 (360 / 2 * LON_SCALE) = 1 / 2" "\<bar>LON_SCALE * 360 - 1\<bar> \<le> 1 / 2 ^ 53" "0 < LON_SCALE"
proof -
  show "fl 53 (180 / 2 * LAT_SCALE) = 1 / 2" "fl 53 (360 / 2 * LON_SCALE) = 1 / 2"
    unfolding scale_values by (subst fl_eqI [where k = "- 1" and n = "2 ^ 52"], simp_all add: pow2_def)+
qed (simp_all add: scale_values)

text \<open>The cell of two words is determined by their leading bits.\<close>

lemma encode_loop_cell:
  assumes "len \<le> 12"
  shows "encode_loop len (interleave a b) = cell len (unat (drop_bit (32 - lon_bits len) b)) (unat (drop_bit (32 - lat_bits len) a))"
  unfolding cell_def
proof (rule encode_loop_cong [OF _ assms])
  fix k :: nat
  assume k: "64 - 5 * len \<le> k" "k < 64"
  have word: "bit (cell_word n (unat (drop_bit (32 - n) (a :: u32)))) k \<longleftrightarrow> bit a k" if "32 - n \<le> k" "k < 32" for n a k
    unfolding cell_word_def bit_push_32 using that by (simp add: bit_drop_bit_eq)
  have "k div 2 < 32" using k(2) by simp
  moreover have "even k \<Longrightarrow> 32 - lat_bits len \<le> k div 2" using k(1) by (auto simp: lat_bits_def elim!: evenE)
  moreover have "odd k \<Longrightarrow> 32 - lon_bits len \<le> k div 2" using k(1) by (auto simp: lon_bits_def elim!: oddE)
  ultimately show "bit (interleave a b) k \<longleftrightarrow>
      bit (interleave (cell_word (lat_bits len) (unat (drop_bit (32 - lat_bits len) a)))
            (cell_word (lon_bits len) (unat (drop_bit (32 - lon_bits len) b)))) k"
    using k(2) word by (simp add: bit_interleave)
qed

lemma leading_bits_less: "n \<le> 32 \<Longrightarrow> unat (drop_bit (32 - n) (a :: u32)) < 2 ^ n"
proof -
  assume "n \<le> 32"
  then have "(2 :: nat) ^ n * 2 ^ (32 - n) = 2 ^ 32" by (simp flip: power_add)
  moreover have "unat a < 2 ^ 32" using unsigned_less [of a, where ?'a = nat] by simp
  ultimately show ?thesis unfolding unat_drop_bit_eq by (simp only: drop_bit_eq_div less_mult_imp_div_less)
qed

lemma encode_cell:
  assumes "in_range 180 (Fin x)" "in_range 90 (Fin y)" "1 \<le> len" "len \<le> 12"
  shows "geohash_encode (Fin x) (Fin y) len =
    Inr (cell len (unat (drop_bit (32 - lon_bits len) (quantize LON_SCALE x))) (unat (drop_bit (32 - lat_bits len) (quantize LAT_SCALE y))))"
  using assms by (simp add: geohash_encode_def encode_loop_cell)

text \<open>Near the centre of a cell, the leading bits are the index of the cell.\<close>

lemma index_of_centre:
  assumes "\<bar>v - (centre (R / 2) n k / R + 3 / 2)\<bar> < 1 / 2 ^ 50" "0 < R" "n \<le> 30"
  shows "\<lfloor>(v - 1) * 2 ^ n\<rfloor> = int k"
proof -
  have "centre (R / 2) n k / R + 3 / 2 = 1 + (of_nat k + 1 / 2) / 2 ^ n"
    using assms(2) by (simp add: centre_def field_simps)
  then have "\<bar>(v - 1) - (of_nat k + 1 / 2) / 2 ^ n\<bar> < 1 / 2 ^ 50" using assms(1) by (simp add: algebra_simps)
  then have "\<bar>(v - 1) - (of_nat k + 1 / 2) / 2 ^ n\<bar> * 2 ^ n < 1 / 2 ^ 50 * 2 ^ n" by (intro mult_strict_right_mono) simp_all
  moreover have "\<bar>(v - 1) - (of_nat k + 1 / 2) / 2 ^ n\<bar> * 2 ^ n = \<bar>(v - 1) * 2 ^ n - (of_nat k + 1 / 2)\<bar>"
  proof -
    have "(v - 1) * 2 ^ n - (of_nat k + 1 / 2) = ((v - 1) - (of_nat k + 1 / 2) / 2 ^ n) * 2 ^ n"
      by (simp add: left_diff_distrib)
    then show ?thesis by (simp only: abs_mult) simp
  qed
  moreover have "(2 :: rat) ^ n \<le> 2 ^ 30" using assms(3) by (intro power_increasing) simp_all
  then have "1 / 2 ^ 50 * 2 ^ n \<le> (1 / 2 :: rat)" by simp
  ultimately have "\<bar>(v - 1) * 2 ^ n - (of_nat k + 1 / 2)\<bar> < 1 / 2" by linarith
  then show ?thesis unfolding abs_less_iff by (intro floor_unique) simp_all
qed

lemma centre_below:
  assumes "k < 2 ^ n" "n \<le> 30" "0 < r"
  shows "centre r n k \<le> r - 2 * r / 2 ^ 50"
proof -
  have "of_nat (k + 1) \<le> (of_nat (2 ^ n) :: rat)" unfolding of_nat_le_iff using assms(1) by simp
  then have "centre r n k \<le> 2 * r * (2 ^ n - 1 / 2) / 2 ^ n - r"
    using assms(3) unfolding centre_def by (intro diff_right_mono divide_right_mono mult_left_mono) simp_all
  also have "\<dots> = r - r / 2 ^ n" by (simp add: field_simps)
  also have "\<dots> \<le> r - 2 * r / 2 ^ 50"
  proof -
    have "(2 :: rat) ^ n \<le> 2 ^ 49" using assms(2) by (intro power_increasing) simp_all
    then have "r / 2 ^ 49 \<le> r / 2 ^ n" using assms(3) by (intro divide_left_mono) simp_all
    then show ?thesis by simp
  qed
  finally show ?thesis .
qed

lemma encode_centre:
  assumes "1 \<le> len" "len \<le> 12" "i < 2 ^ lon_bits len" "j < 2 ^ lat_bits len"
  shows "geohash_encode (Fin (centre 180 (lon_bits len) i)) (Fin (centre 90 (lat_bits len) j)) len = Inr (cell len i j)"
proof -
  let ?x = "centre 180 (lon_bits len) i" and ?y = "centre 90 (lat_bits len) j"
  have n: "lat_bits len \<le> 30" "lon_bits len \<le> 30" using bits_le [OF assms(2)] by simp_all
  have x: "- 180 \<le> ?x" "?x \<le> 180 - 360 / 2 ^ 50" using abs_centre [OF assms(3), of 180] centre_below [OF assms(3) n(2), of 180] by simp_all
  have y: "- 90 \<le> ?y" "?y \<le> 90 - 180 / 2 ^ 50" using abs_centre [OF assms(4), of 90] centre_below [OF assms(4) n(1), of 90] by simp_all
  have "int (unat (drop_bit (32 - lon_bits len) (quantize LON_SCALE ?x))) = int i"
    using index_of_centre [of _ 360 "lon_bits len" i] quantized [OF scales(4-6), of ?x] x n
    by (subst quantize_index [OF _ _ refl]) simp_all
  moreover have "int (unat (drop_bit (32 - lat_bits len) (quantize LAT_SCALE ?y))) = int j"
    using index_of_centre [of _ 180 "lat_bits len" j] quantized [OF scales(1-3), of ?y] y n
    by (subst quantize_index [OF _ _ refl]) simp_all
  ultimately show ?thesis
    using x y assms(1,2) unfolding of_nat_eq_iff by (subst encode_cell) (auto simp: in_range_def)
qed


subsection \<open>Neighbours\<close>

lemma affine_step: "p \<noteq> 0 \<Longrightarrow> 2 * r * (q * p + u + 1 / 2) / p - 2 * r * q = 2 * r * (u + 1 / 2) / (p :: rat)"
  by (simp add: field_simps)

lemma of_int_div_mod: "(of_int m :: rat) = of_int (m div 2 ^ n) * 2 ^ n + of_int (m mod 2 ^ n)"
proof -
  have "m = m div 2 ^ n * 2 ^ n + m mod 2 ^ n" by (simp only: div_mult_mod_eq)
  then have "(of_int m :: rat) = of_int (m div 2 ^ n * 2 ^ n + m mod 2 ^ n)" by (rule arg_cong)
  then show ?thesis by simp
qed

lemma rem_euclid_step:
  assumes "k < 2 ^ n" "n \<le> 30" "0 < R" "R \<le> 180" "\<delta> = - 1 \<or> \<delta> = 0 \<or> \<delta> = (1 :: int)"
  defines "A \<equiv> 2 * of_int R * (of_int (int k + \<delta>) + 1 / 2) / 2 ^ n :: rat"
  shows "rem_euclid A (2 * of_int R) = centre (of_int R) n (nat ((int k + \<delta>) mod 2 ^ n)) + of_int R"
proof (cases "0 \<le> int k + \<delta>")
  case True
  define m where "m = int k + \<delta>"
  have r: "0 < (of_int R :: rat)" using assms(3) by simp
  have m: "0 \<le> m" using True m_def by simp
  have "A / (2 * of_int R) = (of_int m + 1 / 2) / 2 ^ n" using r by (simp add: A_def m_def)
  moreover have "\<lfloor>(of_int m + 1 / 2 :: rat) / 2 ^ n\<rfloor> = m div 2 ^ n"
  proof -
    have "\<lfloor>1 / 2 :: rat\<rfloor> = 0" by (simp add: floor_eq_iff)
    then show ?thesis using floor_div [of "of_int m + 1 / 2" n] by simp
  qed
  ultimately have "\<lfloor>A / (2 * of_int R)\<rfloor> = m div 2 ^ n" by simp
  moreover have "A - 2 * of_int R * of_int (m div 2 ^ n) = 2 * of_int R * (of_int (m mod 2 ^ n) + 1 / 2) / 2 ^ n"
    unfolding A_def m_def [symmetric] by (subst of_int_div_mod [of m n]) (rule affine_step, simp)
  moreover have "0 \<le> A" using r m by (simp add: A_def m_def)
  ultimately have "f_rem A (2 * of_int R) = 2 * of_int R * (of_int (m mod 2 ^ n) + 1 / 2) / 2 ^ n"
    by (simp add: f_rem_def)
  moreover have "0 \<le> 2 * of_int R * (of_int (m mod 2 ^ n) + 1 / 2) / (2 :: rat) ^ n" using r by simp
  ultimately show ?thesis
    by (simp add: rem_euclid_def Let_def centre_def m_def not_less)
next
  case False
  then have k: "k = 0" "\<delta> = - 1" using assms(5) by auto
  have r: "0 < (of_int R :: rat)" "(of_int R :: rat) \<le> of_int 180" using assms(3,4) unfolding of_int_le_iff by simp_all
  have A: "A = - (of_int R / 2 ^ n)" by (simp add: A_def k)
  have p: "0 < of_int R / (2 :: rat) ^ n" "of_int R / (2 :: rat) ^ n \<le> of_int R" using div_pow_le [OF r(1)] by simp_all
  moreover have "1 < 2 ^ n * (2 :: rat)" using one_le_power [of "2 :: rat" n] by linarith
  ultimately have "\<lfloor>- A / (2 * of_int R)\<rfloor> = 0" using r by (simp add: A floor_eq_iff)
  then have "f_rem A (2 * of_int R) = A" using p by (simp add: f_rem_def A)
  moreover have "f_add A \<bar>2 * of_int R\<bar> = 2 * of_int R - of_int R / 2 ^ n"
    unfolding f_add_def
  proof (subst fl_grid)
    show "grid (A + \<bar>2 * of_int R\<bar>)"
    proof (rule grid_frac [of _ "2 * R * 2 ^ n - R" n])
      show "\<bar>A + \<bar>2 * of_int R\<bar>\<bar> < 8192" using r p unfolding A by simp
    qed (use r assms(2) in \<open>simp_all add: A field_simps\<close>)
  qed (use r in \<open>simp add: A\<close>)
  moreover have "nat ((int k + \<delta>) mod 2 ^ n) = 2 ^ n - 1"
    by (simp add: k zmod_minus1 nat_diff_distrib nat_power_eq)
  moreover have "A < 0" using p(1) by (simp only: A neg_less_0_iff_less)
  moreover have "centre (of_int R) n (2 ^ n - 1) + of_int R = 2 * of_int R - of_int R / 2 ^ n"
    by (simp add: centre_def of_nat_diff field_simps)
  ultimately show ?thesis by (simp only: rem_euclid_def Let_def if_True)
qed

lemma neighbor_axis:
  assumes "k < 2 ^ n" "n \<le> 30" "0 < R" "R \<le> 180" "\<delta> = - 1 \<or> \<delta> = 0 \<or> \<delta> = (1 :: int)"
  shows "f_sub (rem_euclid (f_add (f_add (centre (of_int R) n k) (f_times (f_times 2 \<bar>of_int R / 2 ^ n\<bar>) (of_int \<delta>))) (of_int R))
           (2 * of_int R)) (of_int R) = centre (of_int R) n (nat ((int k + \<delta>) mod 2 ^ n))"
proof -
  let ?r = "of_int R :: rat" and ?m = "nat ((int k + \<delta>) mod 2 ^ n)"
  have r: "0 < ?r" "?r \<le> of_int 180" using assms(3,4) unfolding of_int_le_iff by simp_all
  have p: "0 < ?r / 2 ^ n" "?r / 2 ^ n \<le> ?r" using div_pow_le [OF r(1)] by simp_all
  have "f_times 2 \<bar>?r / 2 ^ n\<bar> = 2 * ?r / 2 ^ n"
    unfolding f_times_def by (subst fl_grid, rule grid_frac [of _ "2 * R" n]) (use r p assms(2) in simp_all)
  moreover have step: "\<bar>2 * ?r / 2 ^ n * of_int \<delta>\<bar> \<le> 360"
    using r p assms(5) by auto
  have "f_times (2 * ?r / 2 ^ n) (of_int \<delta>) = 2 * ?r / 2 ^ n * of_int \<delta>"
    unfolding f_times_def by (rule fl_grid, rule grid_frac [of _ "2 * R * \<delta>" n]) (use step assms(2) in simp_all)
  moreover have c: "\<bar>centre ?r n k\<bar> \<le> 180" using abs_centre [OF assms(1) r(1)] r unfolding abs_le_iff by simp
  have "f_add (centre ?r n k) (2 * ?r / 2 ^ n * of_int \<delta>) = centre ?r n k + 2 * ?r / 2 ^ n * of_int \<delta>"
    unfolding f_add_def
  proof (rule fl_grid, rule grid_frac [of _ "R * (2 * (int k + \<delta>) + 1) - R * 2 ^ n" n])
    show "\<bar>centre ?r n k + 2 * ?r / 2 ^ n * of_int \<delta>\<bar> < 8192" using step c unfolding abs_le_iff abs_less_iff by linarith
  qed (use assms(2) in \<open>simp_all add: centre_def field_simps\<close>)
  moreover have A: "centre ?r n k + 2 * ?r / 2 ^ n * of_int \<delta> + ?r = 2 * ?r * (of_int (int k + \<delta>) + 1 / 2) / 2 ^ n"
    by (simp add: centre_def field_simps)
  have "f_add (centre ?r n k + 2 * ?r / 2 ^ n * of_int \<delta>) ?r = 2 * ?r * (of_int (int k + \<delta>) + 1 / 2) / 2 ^ n"
    unfolding f_add_def A
  proof (rule fl_grid, rule grid_frac [of _ "R * (2 * (int k + \<delta>) + 1)" n])
    show "\<bar>2 * ?r * (of_int (int k + \<delta>) + 1 / 2) / 2 ^ n\<bar> < 8192"
      using step c r unfolding A [symmetric] abs_le_iff abs_less_iff by linarith
  qed (use assms(2) in \<open>simp_all add: field_simps\<close>)
  moreover have "rem_euclid (2 * ?r * (of_int (int k + \<delta>) + 1 / 2) / 2 ^ n) (2 * ?r) = centre ?r n ?m + ?r"
    by (rule rem_euclid_step [OF assms])
  moreover have "f_sub (centre ?r n ?m + ?r) ?r = centre ?r n ?m"
  proof -
    have "0 \<le> (int k + \<delta>) mod 2 ^ n" "(int k + \<delta>) mod 2 ^ n < 2 ^ n" by simp_all
    then have "?m < 2 ^ n" by (simp add: nat_less_iff)
    then have "grid (centre ?r n ?m)" by (rule grid_centre [OF _ assms(3,4,2)])
    then show ?thesis by (simp add: f_sub_def fl_grid)
  qed
  ultimately show ?thesis by (simp only:)
qed

fun lat_step :: "direction \<Rightarrow> int" where
  "lat_step d = (if d \<in> {DirN, DirNE, DirNW} then 1 else if d \<in> {DirS, DirSE, DirSW} then - 1 else 0)"

fun lon_step :: "direction \<Rightarrow> int" where
  "lon_step d = (if d \<in> {DirE, DirNE, DirSE} then 1 else if d \<in> {DirW, DirNW, DirSW} then - 1 else 0)"

lemma to_tuple_steps: "to_tuple d = (of_int (lat_step d), of_int (lon_step d))"
  by (cases d) simp_all

lemma steps_range:
  "lat_step d = - 1 \<or> lat_step d = 0 \<or> lat_step d = 1" "lon_step d = - 1 \<or> lon_step d = 0 \<or> lon_step d = 1"
  by simp_all

declare lat_step.simps [simp del] lon_step.simps [simp del]

definition shifted :: "nat \<Rightarrow> nat \<Rightarrow> int \<Rightarrow> nat" where
  "shifted n k \<delta> = nat ((int k + \<delta>) mod 2 ^ n)"

lemma shifted_less [simp]: "shifted n k \<delta> < 2 ^ n"
proof -
  have "0 \<le> (int k + \<delta>) mod 2 ^ n" "(int k + \<delta>) mod 2 ^ n < 2 ^ n" by simp_all
  then show ?thesis by (simp add: shifted_def nat_less_iff)
qed

lemma shifted_back: "k < 2 ^ n \<Longrightarrow> shifted n (shifted n k \<delta>) (- \<delta>) = k"
  by (simp add: shifted_def mod_simps)

lemma neighbor_cell:
  assumes "1 \<le> len" "len \<le> 12" "i < 2 ^ lon_bits len" "j < 2 ^ lat_bits len"
  shows "neighbor (cell len i j) d =
    Some (Inr (cell len (shifted (lon_bits len) i (lon_step d)) (shifted (lat_bits len) j (lat_step d))))"
proof -
  have n: "lat_bits len \<le> 30" "lon_bits len \<le> 30" using bits_le [OF assms(2)] by simp_all
  have "neighbor (cell len i j) d = Some (geohash_encode
      (Fin (centre 180 (lon_bits len) (shifted (lon_bits len) i (lon_step d))))
      (Fin (centre 90 (lat_bits len) (shifted (lat_bits len) j (lat_step d)))) len)"
    using neighbor_axis [OF assms(3) n(2), of 180 "lon_step d"] neighbor_axis [OF assms(4) n(1), of 90 "lat_step d"]
      steps_range [of d]
    by (simp add: neighbor_def decode_cell [OF assms] to_tuple_steps Let_def shifted_def)
  then show ?thesis using encode_centre [OF assms(1,2)] by simp
qed


subsection \<open>Valid hashes are cells\<close>

definition valid_hash :: "string \<Rightarrow> bool" where
  "valid_hash h \<longleftrightarrow> 1 \<le> length h \<and> length h \<le> 12 \<and> set h \<subseteq> set BASE32_CODES"

lemma decode_loop_valid: "set h \<subseteq> set BASE32_CODES \<Longrightarrow> \<exists>r. decode_loop h acc = Inr r"
proof (induction h arbitrary: acc)
  case (Cons c cs)
  then obtain k where "k < 32" "c = BASE32_CODES ! k" by (auto simp: in_set_conv_nth)
  moreover from this have "(word_of_nat k :: u8) \<noteq> 0xff"
    by (auto dest!: arg_cong [where f = unat] simp: unat_of_nat take_bit_nat_eq_self)
  ultimately show ?case using Cons by (simp add: Let_def decode_symbol)
qed simp

lemma set_encode_loop: "set (encode_loop n w) \<subseteq> set BASE32_CODES"
  using top_symbol(1) by (induction n arbitrary: w) (auto intro!: nth_mem)

lemma interleave_deinterleave: "interleave (squash w) (squash (drop_bit 1 w)) = w"
proof (rule bit_word_eqI)
  fix k
  assume "k < LENGTH(64)"
  then have "k < 64" by simp
  then show "bit (interleave (squash w) (squash (drop_bit 1 w))) k \<longleftrightarrow> bit w k"
    by (cases "even k") (auto simp: bit_interleave bit_squash bit_drop_64 elim!: evenE oddE)
qed

lemma valid_hash_cell:
  assumes "valid_hash h"
  obtains i j where "i < 2 ^ lon_bits (length h)" "j < 2 ^ lat_bits (length h)" "h = cell (length h) i j"
proof -
  let ?n = "length h"
  have n: "?n \<le> 12" using assms by (simp add: valid_hash_def)
  obtain r where "decode_loop h 0 = Inr r" using assms decode_loop_valid [of h 0] by (auto simp: valid_hash_def)
  then have "h = encode_loop ?n (push_bit (64 - 5 * ?n) r)" using encode_decode_loop n by simp
  then have "h = cell ?n (unat (drop_bit (32 - lon_bits ?n) (squash (drop_bit 1 (push_bit (64 - 5 * ?n) r)))))
      (unat (drop_bit (32 - lat_bits ?n) (squash (push_bit (64 - 5 * ?n) r))))"
    by (subst (asm) interleave_deinterleave [symmetric]) (simp only: encode_loop_cell [OF n])
  then show ?thesis using leading_bits_less bits_le [OF n] by (intro that) auto
qed

lemma valid_cell: "1 \<le> len \<Longrightarrow> len \<le> 12 \<Longrightarrow> valid_hash (cell len i j)"
  using set_encode_loop by (simp add: valid_hash_def cell_def)

lemma centre_inj: "centre r n k = centre r n k' \<Longrightarrow> 0 < r \<Longrightarrow> k = k'"
  by (simp add: centre_def)

lemma cell_inj:
  assumes "cell len i j = cell len i' j'" "1 \<le> len" "len \<le> 12"
    "i < 2 ^ lon_bits len" "j < 2 ^ lat_bits len" "i' < 2 ^ lon_bits len" "j' < 2 ^ lat_bits len"
  shows "i = i' \<and> j = j'"
  using arg_cong [OF assms(1), of geohash_decode] decode_cell [OF assms(2,3,4,5)] decode_cell [OF assms(2,3,6,7)]
  by (auto dest: centre_inj)


subsection \<open>Encoding and decoding\<close>

text \<open>
  The bit tricks are exact: deinterleaving undoes interleaving and conversely, for all words.
\<close>

theorem interleaving_inverse:
  "deinterleave (interleave a b) = (a, b) \<and> (\<lambda>(a, b). interleave a b) (deinterleave w) = w"
  using interleave_deinterleave [of w] by (simp add: deinterleave_interleave) (simp add: deinterleave_def)

text \<open>
  C7. Every hash of one to twelve alphabet symbols decodes, without rounding error in the last digit
  that matters: encoding the decoded centre at the same length gives the hash back.
\<close>

theorem decoded_centre_encodes:
  assumes "valid_hash h"
  shows "\<exists>lon lat lon_err lat_err. geohash_decode h = Some (Inr ((lon, lat), lon_err, lat_err))
           \<and> geohash_encode (Fin lon) (Fin lat) (length h) = Inr h"
proof -
  have n: "1 \<le> length h" "length h \<le> 12" using assms by (simp_all add: valid_hash_def)
  from assms obtain i j where ij: "i < 2 ^ lon_bits (length h)" "j < 2 ^ lat_bits (length h)" "h = cell (length h) i j"
    by (rule valid_hash_cell)
  then show ?thesis using decode_cell [OF n ij(1,2)] encode_centre [OF n ij(1,2)] by simp
qed

theorem decoded_centre_encodes_witness:
  "\<exists>lon lat lon_err lat_err. geohash_decode ''9q8y'' = Some (Inr ((lon, lat), lon_err, lat_err))
     \<and> geohash_encode (Fin lon) (Fin lat) 4 = Inr ''9q8y''"
  using decoded_centre_encodes [of "''9q8y''"] by (simp add: valid_hash_def BASE32_CODES_def eval_nat_numeral)

lemma axis_accuracy:
  assumes "int k = \<lfloor>(v - 1) * 2 ^ n\<rfloor>" "\<bar>v - (y / R + 3 / 2)\<bar> < 1 / 2 ^ 50" "0 < R"
  shows "\<bar>centre (R / 2) n k - y\<bar> \<le> R / 2 / 2 ^ n + R / 2 ^ 50"
proof -
  have "of_int (int k) \<le> (v - 1) * 2 ^ n" "(v - 1) * 2 ^ n < of_int (int k) + 1" unfolding assms(1) by linarith+
  then have v: "of_nat k / 2 ^ n \<le> v - 1" "v - 1 < (of_nat k + 1) / 2 ^ n" by (simp_all add: field_simps)
  let ?c = "(of_nat k + 1 / 2) / 2 ^ n :: rat"
  define a b h :: rat where "a = of_nat k / 2 ^ n" and "b = (of_nat k + 1) / 2 ^ n" and "h = 1 / 2 / 2 ^ n"
  have "?c = a + h" "b = ?c + h" by (simp_all add: a_def b_def h_def field_simps)
  then have "\<bar>?c - (y / R + 1 / 2)\<bar> \<le> h + 1 / 2 ^ 50"
    using v assms(2) unfolding a_def [symmetric] b_def [symmetric] abs_le_iff abs_less_iff by linarith
  then have "\<bar>?c - (y / R + 1 / 2)\<bar> \<le> 1 / 2 / 2 ^ n + 1 / 2 ^ 50" by (simp only: h_def)
  then have "\<bar>?c - (y / R + 1 / 2)\<bar> * R \<le> (1 / 2 / 2 ^ n + 1 / 2 ^ 50) * R" using assms(3) by (intro mult_right_mono) simp_all
  moreover have "\<bar>?c - (y / R + 1 / 2)\<bar> * R = \<bar>centre (R / 2) n k - y\<bar>"
  proof -
    have "centre (R / 2) n k - y = (?c - (y / R + 1 / 2)) * R" using assms(3) by (simp add: centre_def field_simps)
    then show ?thesis using assms(3) by (simp add: abs_mult)
  qed
  ultimately show ?thesis by (simp add: field_simps)
qed

text \<open>
  C29. The decoded centre is close: for coordinates in range, at least \<open>10 ^ -12\<close> degrees away from the
  north pole and, in the east, from the antimeridian, the hash is a valid one of the length asked for, and the decoded
  centre differs from the coordinate by at most the reported half widths plus \<open>10 ^ -12\<close> degrees.
\<close>

theorem encode_accuracy:
  assumes "- 180 \<le> x" "x \<le> 180 - 1 / 10 ^ 12" "- 90 \<le> y" "y \<le> 90 - 1 / 10 ^ 12" "1 \<le> len" "len \<le> 12"
  shows "\<exists>h lon lat. geohash_encode (Fin x) (Fin y) len = Inr h \<and> valid_hash h \<and> length h = len
           \<and> geohash_decode h = Some (Inr ((lon, lat), 180 / 2 ^ lon_bits len, 90 / 2 ^ lat_bits len))
           \<and> \<bar>lon - x\<bar> \<le> 180 / 2 ^ lon_bits len + 1 / 10 ^ 12 \<and> \<bar>lat - y\<bar> \<le> 90 / 2 ^ lat_bits len + 1 / 10 ^ 12"
proof -
  let ?i = "unat (drop_bit (32 - lon_bits len) (quantize LON_SCALE x))" and ?j = "unat (drop_bit (32 - lat_bits len) (quantize LAT_SCALE y))"
  have n: "lat_bits len \<le> 30" "lon_bits len \<le> 30" using bits_le [OF assms(6)] by simp_all
  then have ij: "?i < 2 ^ lon_bits len" "?j < 2 ^ lat_bits len" by (simp_all add: leading_bits_less)
  have x: "- (360 / 2) \<le> x" "x \<le> 360 / 2 - 360 / 2 ^ 50" and y: "- (180 / 2) \<le> y" "y \<le> 180 / 2 - 180 / 2 ^ 50"
    using assms(1-4) by simp_all
  note qx = quantized [OF scales(4-6) _ x, simplified] and qy = quantized [OF scales(1-3) _ y, simplified]
  have "int ?i = \<lfloor>(f_add (f_times x LON_SCALE) (3 / 2) - 1) * 2 ^ lon_bits len\<rfloor>"
    using qx(1,2) n(2) by (intro quantize_index [OF _ _ refl]) simp_all
  then have lon: "\<bar>centre (360 / 2) (lon_bits len) ?i - x\<bar> \<le> 360 / 2 / 2 ^ lon_bits len + 360 / 2 ^ 50"
    by (rule axis_accuracy) (use qx(3) in simp_all)
  have "int ?j = \<lfloor>(f_add (f_times y LAT_SCALE) (3 / 2) - 1) * 2 ^ lat_bits len\<rfloor>"
    using qy(1,2) n(1) by (intro quantize_index [OF _ _ refl]) simp_all
  then have lat: "\<bar>centre (180 / 2) (lat_bits len) ?j - y\<bar> \<le> 180 / 2 / 2 ^ lat_bits len + 180 / 2 ^ 50"
    by (rule axis_accuracy) (use qy(3) in simp_all)
  have range: "in_range 180 (Fin x)" "in_range 90 (Fin y)" using x y by (simp_all add: in_range_def)
  have eps: "360 / 2 ^ 50 \<le> (1 / 10 ^ 12 :: rat)" "180 / 2 ^ 50 \<le> (1 / 10 ^ 12 :: rat)" by simp_all
  show ?thesis
  proof (intro exI conjI)
    show "geohash_encode (Fin x) (Fin y) len = Inr (cell len ?i ?j)" by (rule encode_cell [OF range assms(5,6)])
    show "valid_hash (cell len ?i ?j)" by (rule valid_cell [OF assms(5,6)])
    show "geohash_decode (cell len ?i ?j) = Some (Inr ((centre 180 (lon_bits len) ?i, centre 90 (lat_bits len) ?j),
        180 / 2 ^ lon_bits len, 90 / 2 ^ lat_bits len))" by (rule decode_cell [OF assms(5,6) ij])
    have "\<bar>centre 180 (lon_bits len) ?i - x\<bar> \<le> 180 / 2 ^ lon_bits len + 360 / 2 ^ 50" using lon by simp
    then show "\<bar>centre 180 (lon_bits len) ?i - x\<bar> \<le> 180 / 2 ^ lon_bits len + 1 / 10 ^ 12"
      by (rule order_trans) (intro add_left_mono eps(1))
    have "\<bar>centre 90 (lat_bits len) ?j - y\<bar> \<le> 90 / 2 ^ lat_bits len + 180 / 2 ^ 50" using lat by simp
    then show "\<bar>centre 90 (lat_bits len) ?j - y\<bar> \<le> 90 / 2 ^ lat_bits len + 1 / 10 ^ 12"
      by (rule order_trans) (intro add_left_mono eps(2))
  qed simp
qed


theorem encode_accuracy_witness:
  "\<exists>h lon lat. geohash_encode (Fin (1 / 2)) (Fin (- 90)) 5 = Inr h \<and> length h = 5
     \<and> geohash_decode h = Some (Inr ((lon, lat), 180 / 2 ^ 13, 90 / 2 ^ 12)) \<and> \<bar>lat + 90\<bar> \<le> 90 / 2 ^ 12 + 1 / 10 ^ 12"
  using encode_accuracy [of "1 / 2" "- 90" 5] by (fastforce simp: lon_bits_def lat_bits_def)

text \<open>
  The quantisation of the code fails at its upper end: the north pole is encoded as the south pole,
  at every length and longitude.
\<close>

theorem north_pole_is_south_pole:
  assumes "- 180 \<le> x" "x \<le> 180" "1 \<le> len" "len \<le> 12"
  shows "\<exists>h. geohash_encode (Fin x) (Fin 90) len = Inr h \<and> geohash_encode (Fin x) (Fin (- 90)) len = Inr h"
proof -
  have "quantize LAT_SCALE 90 = 0"
  proof -
    have "f_add (f_times 90 LAT_SCALE) (3 / 2) = 2"
    proof -
      have "f_times 90 LAT_SCALE = 1 / 2" unfolding f_times_def using scales(1) by simp
      moreover have "grid (1 / 2 + 3 / 2)" by (simp add: grid_def)
      ultimately show ?thesis by (simp only: f_add_def fl_grid)
    qed
    moreover have "exponent 2 = 1" by (rule exponent_unique) (simp_all add: pow2_def)
    ultimately show ?thesis by (simp add: quantize_def f64_to_bits_def pow2_def)
  qed
  moreover have "quantize LAT_SCALE (- 90) = 0"
  proof -
    have "f_add (f_times (- 90) LAT_SCALE) (3 / 2) = 1"
    proof -
      have "f_times (- 90) LAT_SCALE = - (1 / 2)"
        unfolding f_times_def using scales(1) fl_minus [of 53 "90 * LAT_SCALE"] by simp
      moreover have "grid (- (1 / 2) + 3 / 2)" by (simp add: grid_def)
      ultimately show ?thesis by (simp only: f_add_def fl_grid)
    qed
    moreover have "exponent 1 = 0" by (rule exponent_unique) (simp_all add: pow2_def)
    ultimately show ?thesis by (simp add: quantize_def f64_to_bits_def pow2_def)
  qed
  ultimately show ?thesis using assms by (simp add: geohash_encode_def in_range_def)
qed

theorem north_pole_is_south_pole_witness:
  "\<exists>h. geohash_encode (Fin 7) (Fin 90) 5 = Inr h \<and> geohash_encode (Fin 7) (Fin (- 90)) 5 = Inr h"
  using north_pole_is_south_pole [of 7 5] by simp

text \<open>The empty hash is not an error but a shift by the width of the word, which panics.\<close>

lemma decode_empty: "geohash_decode [] = None"
  by (simp add: geohash_decode_def)


subsection \<open>Neighbours of valid hashes\<close>

fun opposite :: "direction \<Rightarrow> direction" where
  "opposite DirN = DirS"
| "opposite DirNE = DirSW"
| "opposite DirE = DirW"
| "opposite DirSE = DirNW"
| "opposite DirS = DirN"
| "opposite DirSW = DirNE"
| "opposite DirW = DirE"
| "opposite DirNW = DirSE"

lemma opposite_steps: "lat_step (opposite d) = - lat_step d" "lon_step (opposite d) = - lon_step d"
  by (cases d; simp add: lat_step.simps lon_step.simps)+

lemma shifted_other:
  assumes "k < 2 ^ n" "2 \<le> n" "\<delta> = - 1 \<or> \<delta> = (1 :: int)"
  shows "shifted n k \<delta> \<noteq> k"
proof
  assume "shifted n k \<delta> = k"
  then have "int (nat ((int k + \<delta>) mod 2 ^ n)) = int k" by (simp add: shifted_def)
  then have "(int k + \<delta>) mod 2 ^ n = int k" by simp
  then have "(int k + \<delta>) mod 2 ^ n = int k mod 2 ^ n" using assms(1) by simp
  then have "2 ^ n dvd \<delta>" by (metis add_diff_cancel_left' mod_eq_dvd_iff)
  then have "(2 :: int) ^ n \<le> 1" using assms(3) by (auto dest: zdvd_imp_le)
  moreover have "(2 :: int) ^ 2 \<le> 2 ^ n" using assms(2) by (intro power_increasing) simp_all
  ultimately show False by simp
qed

text \<open>
  C28. Every valid hash has a neighbour in every direction; it is a different valid hash of the same
  length, and its neighbour in the opposite direction is the hash itself.
\<close>

theorem neighbor_symmetric:
  assumes "valid_hash h"
  shows "\<exists>h'. neighbor h d = Some (Inr h') \<and> valid_hash h' \<and> length h' = length h \<and> h' \<noteq> h
           \<and> neighbor h' (opposite d) = Some (Inr h)"
proof -
  let ?n = "length h"
  have n: "1 \<le> ?n" "?n \<le> 12" using assms by (simp_all add: valid_hash_def)
  then have two: "2 \<le> lat_bits ?n" "2 \<le> lon_bits ?n" by (auto simp: lat_bits_def lon_bits_def)
  from assms obtain i j where ij: "i < 2 ^ lon_bits ?n" "j < 2 ^ lat_bits ?n" "h = cell ?n i j"
    by (rule valid_hash_cell)
  let ?i = "shifted (lon_bits ?n) i (lon_step d)" and ?j = "shifted (lat_bits ?n) j (lat_step d)"
  have "neighbor h d = Some (Inr (cell ?n ?i ?j))" using neighbor_cell [OF n ij(1,2), of d] ij(3) by simp
  moreover have "neighbor (cell ?n ?i ?j) (opposite d) = Some (Inr h)"
    using neighbor_cell [OF n, of ?i ?j "opposite d"] ij by (simp add: opposite_steps shifted_back)
  moreover have "lat_step d \<noteq> 0 \<or> lon_step d \<noteq> 0" by (cases d) (simp_all add: lat_step.simps lon_step.simps)
  then have "?i \<noteq> i \<or> ?j \<noteq> j" using shifted_other ij(1,2) two steps_range [of d] by metis
  then have "cell ?n ?i ?j \<noteq> h" using cell_inj [OF _ n _ _ ij(1,2), of ?i ?j] ij(3) by auto
  ultimately show ?thesis using valid_cell [OF n] by (intro exI [of _ "cell ?n ?i ?j"]) simp
qed

theorem neighbor_symmetric_witness:
  "\<exists>h'. neighbor ''9q8y'' DirNE = Some (Inr h') \<and> h' \<noteq> ''9q8y'' \<and> neighbor h' DirSW = Some (Inr ''9q8y'')"
  using neighbor_symmetric [of "''9q8y''" DirNE] by (auto simp: valid_hash_def BASE32_CODES_def)

text \<open>
  Latitudes wrap around like longitudes: the northern neighbour of a cell that touches the north
  pole is the cell at the south pole.
\<close>

theorem polar_neighbor_wraps:
  assumes "valid_hash h" "geohash_decode h = Some (Inr ((lon, lat), lon_err, lat_err))" "lat + lat_err = 90"
  shows "\<exists>h'. neighbor h DirN = Some (Inr h') \<and> geohash_decode h' = Some (Inr ((lon, - lat), lon_err, lat_err))"
proof -
  let ?n = "length h"
  have n: "1 \<le> ?n" "?n \<le> 12" using assms(1) by (simp_all add: valid_hash_def)
  from assms(1) obtain i j where ij: "i < 2 ^ lon_bits ?n" "j < 2 ^ lat_bits ?n" "h = cell ?n i j"
    by (rule valid_hash_cell)
  have dec: "lon = centre 180 (lon_bits ?n) i" "lat = centre 90 (lat_bits ?n) j" "lon_err = 180 / 2 ^ lon_bits ?n" "lat_err = 90 / 2 ^ lat_bits ?n"
    using decode_cell [OF n ij(1,2)] assms(2) ij(3) by auto
  have "of_nat j + 1 = (2 :: rat) ^ lat_bits ?n" using assms(3) unfolding dec by (simp add: centre_def field_simps)
  then have "of_nat (j + 1) = (of_nat (2 ^ lat_bits ?n) :: rat)" by simp
  then have j: "j + 1 = 2 ^ lat_bits ?n" unfolding of_nat_eq_iff .
  then have "int j + 1 = 2 ^ lat_bits ?n" by (metis of_nat_1 of_nat_add of_nat_numeral of_nat_power)
  then have "shifted (lat_bits ?n) j 1 = 0" by (simp add: shifted_def)
  moreover have "shifted (lon_bits ?n) i 0 = i" using ij(1) by (simp add: shifted_def)
  ultimately have "neighbor h DirN = Some (Inr (cell ?n i 0))"
    using neighbor_cell [OF n ij(1,2), of DirN] ij(3) by (simp add: lat_step.simps lon_step.simps)
  moreover have oj: "of_nat j = (2 :: rat) ^ lat_bits ?n - 1" using arg_cong [OF j, of "of_nat :: nat \<Rightarrow> rat"] by simp
  have "centre 90 (lat_bits ?n) 0 = - lat" unfolding dec centre_def oj by (simp add: field_simps)
  ultimately show ?thesis using decode_cell [OF n ij(1), of 0] dec by simp
qed

theorem polar_neighbor_wraps_witness:
  "\<exists>h'. neighbor (cell 1 0 3) DirN = Some (Inr h') \<and> geohash_decode h' = Some (Inr ((- 315 / 2, - 135 / 2), 45 / 2, 45 / 2))"
  using polar_neighbor_wraps [of "cell 1 0 3" "- 315 / 2" "135 / 2" "45 / 2" "45 / 2"] decode_cell [of 1 0 3] valid_cell [of 1 0 3]
  by (simp add: lon_bits_def lat_bits_def centre_def)

end
