(* ===== verification/Roster.thy ===== *)
theory Roster
  imports Peat_Prelude "HOL-Library.Countable"
begin

text \<open>
  The persisted roster of group members, \<open>peat-ffi/src/roster.rs\<close>: entries by node id, kept in memory
  and written to \<open>roster.json\<close> after every change. The contents of the file are part of the state;
  whether the temporary file could be written and renamed is an argument of the operations that
  write. The JSON encoder is outside the repository and a parameter.
\<close>

record roster_entry =
  re_node_id :: string
  re_group_id :: string
  re_name :: string
  re_addresses :: "string list"
  re_relay_url :: "string option"
  re_last_seen_ms :: u64

record json_codec =
  to_vec_pretty :: "roster_entry list \<Rightarrow> u8 list option"
  from_slice :: "u8 list \<Rightarrow> roster_entry list option"

record roster_store =
  rs_entries :: "(string, roster_entry) hash_map"
  rs_file :: "u8 list option"

definition roster_load :: "json_codec \<Rightarrow> u8 list option \<Rightarrow> roster_store" where
  "roster_load J file =
     \<lparr>rs_entries =
        (case Option.bind file (from_slice J) of
           Some v \<Rightarrow> fold (\<lambda>e. hm_insert (re_node_id e) e) v []
         | None \<Rightarrow> []),
      rs_file = file\<rparr>"

definition roster_persist :: "json_codec \<Rightarrow> bool \<Rightarrow> roster_store \<Rightarrow> roster_store" where
  "roster_persist J written self =
     (let list = sort_by (\<lambda>a b. cmp (re_node_id a) (re_node_id b)) (map snd (rs_entries self))
      in case to_vec_pretty J list of
           Some json \<Rightarrow> if written then self\<lparr>rs_file := Some json\<rparr> else self
         | None \<Rightarrow> self)"

definition roster_upsert :: "json_codec \<Rightarrow> bool \<Rightarrow> roster_entry \<Rightarrow> roster_store \<Rightarrow> roster_store" where
  "roster_upsert J written entry self =
     (let entry =
            (case hm_get (rs_entries self) (re_node_id entry) of
               Some existing \<Rightarrow>
                 if re_last_seen_ms entry < re_last_seen_ms existing
                 then entry\<lparr>re_last_seen_ms := re_last_seen_ms existing\<rparr> else entry
             | None \<Rightarrow> entry)
      in roster_persist J written (self\<lparr>rs_entries := hm_insert (re_node_id entry) entry (rs_entries self)\<rparr>))"

definition roster_remove :: "json_codec \<Rightarrow> bool \<Rightarrow> string \<Rightarrow> roster_store \<Rightarrow> roster_store \<times> bool" where
  "roster_remove J written node_id self =
     (if hm_contains_key (rs_entries self) node_id
      then (roster_persist J written (self\<lparr>rs_entries := hm_remove node_id (rs_entries self)\<rparr>), True)
      else (self, False))"

definition roster_get :: "string \<Rightarrow> roster_store \<Rightarrow> roster_entry option" where
  "roster_get node_id self = hm_get (rs_entries self) node_id"

definition roster_list :: "roster_store \<Rightarrow> roster_entry list" where
  "roster_list self = sort_by (\<lambda>a b. cmp (re_node_id a) (re_node_id b)) (map snd (rs_entries self))"

definition roster_list_by_group :: "string \<Rightarrow> roster_store \<Rightarrow> roster_entry list" where
  "roster_list_by_group group_id self = filter (\<lambda>e. re_group_id e = group_id) (roster_list self)"

definition roster_mark_seen :: "json_codec \<Rightarrow> bool \<Rightarrow> string \<Rightarrow> u64 \<Rightarrow> roster_store \<Rightarrow> roster_store" where
  "roster_mark_seen J written node_id now_ms self =
     (case hm_get (rs_entries self) node_id of
        Some e \<Rightarrow>
          roster_persist J written
            (self\<lparr>rs_entries := hm_insert node_id (e\<lparr>re_last_seen_ms := now_ms\<rparr>) (rs_entries self)\<rparr>)
      | None \<Rightarrow> self)"


subsection \<open>Well-formedness\<close>

text \<open>One entry per key, and every entry under its own node id.\<close>

definition roster_wf :: "roster_store \<Rightarrow> bool" where
  "roster_wf self \<longleftrightarrow> hm_wf (rs_entries self) \<and> (\<forall>(k, e) \<in> set (rs_entries self). re_node_id e = k)"

lemma roster_wf_get: "roster_wf self \<longleftrightarrow> hm_wf (rs_entries self) \<and> (\<forall>k e. roster_get k self = Some e \<longrightarrow> re_node_id e = k)"
  by (auto simp: roster_wf_def roster_get_def hm_get_Some_iff)

lemma entries_persist [simp]: "rs_entries (roster_persist J written self) = rs_entries self"
  by (simp add: roster_persist_def Let_def split: option.split)

lemma wf_persist [simp]: "roster_wf (roster_persist J written self) = roster_wf self"
  by (simp add: roster_wf_def)

lemma get_persist [simp]: "roster_get k (roster_persist J written self) = roster_get k self"
  by (simp add: roster_get_def)

lemma get_upsert:
  "roster_get k (roster_upsert J written entry self) =
     (if k = re_node_id entry
      then Some (entry\<lparr>re_last_seen_ms := max (re_last_seen_ms entry)
             (case roster_get k self of Some e \<Rightarrow> re_last_seen_ms e | None \<Rightarrow> 0)\<rparr>)
      else roster_get k self)"
proof (cases "hm_get (rs_entries self) (re_node_id entry)")
  case None
  then show ?thesis by (simp add: roster_upsert_def roster_get_def Let_def)
next
  case (Some e)
  then show ?thesis
    by (cases "re_last_seen_ms entry < re_last_seen_ms e") (simp_all add: roster_upsert_def roster_get_def Let_def max_def)
qed

lemma get_remove: "roster_get k (fst (roster_remove J written n self)) = (if k = n then None else roster_get k self)"
  by (auto simp: roster_remove_def roster_get_def hm_contains_key_def)

lemma get_mark_seen:
  "roster_get k (roster_mark_seen J written n now self) =
     (if k = n then map_option (re_last_seen_ms_update (\<lambda>_. now)) (roster_get k self) else roster_get k self)"
  by (auto simp: roster_mark_seen_def roster_get_def split: option.split)

lemma hm_wf_upsert [simp]: "hm_wf (rs_entries self) \<Longrightarrow> hm_wf (rs_entries (roster_upsert J w e self))"
  by (simp add: roster_upsert_def Let_def)

lemma hm_wf_remove [simp]: "hm_wf (rs_entries self) \<Longrightarrow> hm_wf (rs_entries (fst (roster_remove J w n self)))"
  by (simp add: roster_remove_def)

lemma hm_wf_mark_seen [simp]: "hm_wf (rs_entries self) \<Longrightarrow> hm_wf (rs_entries (roster_mark_seen J w n t self))"
  by (simp add: roster_mark_seen_def split: option.split)

lemma wf_upsert: "roster_wf self \<Longrightarrow> roster_wf (roster_upsert J w e self)"
  unfolding roster_wf_get by (auto simp: get_upsert split: if_splits)

lemma wf_remove: "roster_wf self \<Longrightarrow> roster_wf (fst (roster_remove J w n self))"
  unfolding roster_wf_get by (auto simp: get_remove split: if_splits)

lemma wf_mark_seen: "roster_wf self \<Longrightarrow> roster_wf (roster_mark_seen J w n t self)"
  unfolding roster_wf_get by (auto simp: get_mark_seen split: if_splits)

lemma set_roster_list: "set (roster_list self) = snd ` set (rs_entries self)"
  by (simp add: roster_list_def)

lemma roster_list_sorted: "roster_list self = sort_key re_node_id (map snd (rs_entries self))"
  unfolding roster_list_def by (intro sort_by_sort_key) (rule refl)

lemma distinct_roster_list: "roster_wf self \<Longrightarrow> distinct (map re_node_id (roster_list self))"
proof -
  assume wf: "roster_wf self"
  then have "map re_node_id (map snd (rs_entries self)) = map fst (rs_entries self)"
    by (auto simp: roster_wf_def)
  then have "distinct (map re_node_id (map snd (rs_entries self)))"
    using wf by (simp only: roster_wf_def hm_wf_def)
  moreover have "mset (map re_node_id (roster_list self)) = mset (map re_node_id (map snd (rs_entries self)))"
    by (simp only: mset_map roster_list_def mset_sort_by)
  ultimately show ?thesis using mset_eq_imp_distinct_iff by blast
qed

lemma roster_list_get: "roster_wf self \<Longrightarrow> e \<in> set (roster_list self) \<longleftrightarrow> roster_get (re_node_id e) self = Some e"
  by (auto simp: set_roster_list roster_get_def roster_wf_def hm_get_Some_iff intro: image_eqI [where x = "(re_node_id e, e)"])



subsection \<open>Restart\<close>

text \<open>The encoder is invertible on whatever it encodes.\<close>

definition json_ok :: "json_codec \<Rightarrow> bool" where
  "json_ok J \<longleftrightarrow> (\<forall>l. \<exists>b. to_vec_pretty J l = Some b \<and> from_slice J b = Some l)"

inductive roster_run :: "json_codec \<Rightarrow> u8 list option \<Rightarrow> roster_store \<Rightarrow> bool" for J f where
  loaded: "roster_run J f (roster_load J f)"
| upserted: "roster_run J f s \<Longrightarrow> roster_run J f (roster_upsert J True e s)"
| removed: "roster_run J f s \<Longrightarrow> roster_run J f (fst (roster_remove J True n s))"
| seen: "roster_run J f s \<Longrightarrow> roster_run J f (roster_mark_seen J True n t s)"

lemma get_fold_insert:
  "distinct (map re_node_id es) \<Longrightarrow> hm_get (fold (\<lambda>e. hm_insert (re_node_id e) e) es m) k = Some x
     \<longleftrightarrow> x \<in> set es \<and> re_node_id x = k \<or> k \<notin> re_node_id ` set es \<and> hm_get m k = Some x"
proof (induction es arbitrary: m)
  case (Cons e es)
  then show ?case by (cases "k = re_node_id e") auto
qed simp

lemma fold_insert_keyed:
  "(\<forall>k e. hm_get m k = Some e \<longrightarrow> re_node_id e = k) \<Longrightarrow>
   hm_get (fold (\<lambda>e. hm_insert (re_node_id e) e) es m) k = Some x \<Longrightarrow> re_node_id x = k"
proof (induction es arbitrary: m)
  case (Cons e es)
  have "\<forall>k x. hm_get (hm_insert (re_node_id e) e m) k = Some x \<longrightarrow> re_node_id x = k"
    using Cons.prems(1) by auto
  then show ?case by (rule Cons.IH) (use Cons.prems(2) in simp)
qed simp

lemma wf_load: "roster_wf (roster_load J f)"
proof -
  have "hm_wf (rs_entries (roster_load J f))"
    by (auto simp: roster_load_def hm_wf_def [of "[]"] intro: hm_wf_fold_insert split: option.split)
  moreover have "re_node_id e = k" if "roster_get k (roster_load J f) = Some e" for k e
    using that fold_insert_keyed [of "[]"] by (auto simp: roster_load_def roster_get_def hm_get_def split: option.splits)
  ultimately show ?thesis by (simp add: roster_wf_get)
qed

lemma file_persist:
  assumes "json_ok J"
  shows "\<exists>b. rs_file (roster_persist J True self) = Some b \<and> from_slice J b = Some (roster_list self)"
proof -
  obtain b where "to_vec_pretty J (roster_list self) = Some b" "from_slice J b = Some (roster_list self)"
    using assms unfolding json_ok_def by blast
  then show ?thesis by (simp add: roster_persist_def roster_list_def Let_def)
qed

lemma load_persist:
  assumes "json_ok J" "roster_wf self"
  shows "roster_get k (roster_load J (rs_file (roster_persist J True self))) = roster_get k self"
proof -
  obtain b where b: "rs_file (roster_persist J True self) = Some b" "from_slice J b = Some (roster_list self)"
    using file_persist [OF assms(1)] by blast
  have "roster_get k (roster_load J (Some b)) = Some e \<longleftrightarrow> roster_get k self = Some e" for e
    using get_fold_insert [OF distinct_roster_list [OF assms(2)], of "[]" k e] roster_list_get [OF assms(2), of e] assms(2)
    by (auto simp: roster_load_def b(2) roster_get_def hm_get_def roster_wf_get)
  then show ?thesis unfolding b(1) by (cases "roster_get k self") (metis not_Some_eq)+
qed

definition roster_synced :: "json_codec \<Rightarrow> roster_store \<Rightarrow> bool" where
  "roster_synced J s \<longleftrightarrow> roster_wf s \<and> (\<forall>k. roster_get k (roster_load J (rs_file s)) = roster_get k s)"

lemma synced_persist: "json_ok J \<Longrightarrow> roster_wf x \<Longrightarrow> roster_synced J (roster_persist J True x)"
  by (simp add: roster_synced_def load_persist)

lemma roster_run_synced:
  assumes "roster_run J f s" "json_ok J"
  shows "roster_synced J s"
  using assms(1)
proof induction
  case loaded
  have "roster_load J (rs_file (roster_load J f)) = roster_load J f" by (simp add: roster_load_def)
  then show ?case using wf_load [of J f] by (simp add: roster_synced_def)
next
  case (upserted s e)
  then have "roster_wf (roster_upsert J True e s)" by (simp add: roster_synced_def wf_upsert)
  moreover obtain x where "roster_upsert J True e s = roster_persist J True x" by (simp add: roster_upsert_def Let_def)
  ultimately show ?case using synced_persist [OF assms(2)] by simp
next
  case (removed s n)
  then have "roster_wf (fst (roster_remove J True n s))" by (simp add: roster_synced_def wf_remove)
  moreover have "fst (roster_remove J True n s) = s \<or> (\<exists>x. fst (roster_remove J True n s) = roster_persist J True x)"
    by (auto simp: roster_remove_def)
  ultimately show ?case using removed.IH synced_persist [OF assms(2)] by auto
next
  case (seen s n t)
  then have "roster_wf (roster_mark_seen J True n t s)" by (simp add: roster_synced_def wf_mark_seen)
  moreover have "roster_mark_seen J True n t s = s \<or> (\<exists>x. roster_mark_seen J True n t s = roster_persist J True x)"
    by (auto simp: roster_mark_seen_def split: option.split)
  ultimately show ?case using seen.IH synced_persist [OF assms(2)] by auto
qed

text \<open>
  C31. A restart loses nothing: after any run of successful writes, from whatever file the roster was
  loaded, loading the written file again gives the same entry for every node id, and the listing is
  sorted and complete.
\<close>

theorem roster_survives_restart:
  assumes "json_ok J" "roster_run J f s"
  shows "roster_get k (roster_load J (rs_file s)) = roster_get k s
         \<and> sorted (map re_node_id (roster_list s)) \<and> distinct (map re_node_id (roster_list s))
         \<and> (e \<in> set (roster_list s) \<longleftrightarrow> roster_get (re_node_id e) s = Some e)"
  using roster_run_synced [OF assms(2,1)] roster_list_get [of s e] distinct_roster_list [of s]
  by (simp add: roster_synced_def roster_list_sorted)

text \<open>An invertible encoder, for the witness: entries are numbered and the number is written in unary.\<close>

definition entry_fields :: "roster_entry \<Rightarrow> (string \<times> string \<times> string) \<times> string list \<times> string option \<times> nat" where
  "entry_fields e = ((re_node_id e, re_group_id e, re_name e), re_addresses e, re_relay_url e, unat (re_last_seen_ms e))"

definition entry_of_fields :: "(string \<times> string \<times> string) \<times> string list \<times> string option \<times> nat \<Rightarrow> roster_entry" where
  "entry_of_fields = (\<lambda>((i, g, n), a, r, t).
     \<lparr>re_node_id = i, re_group_id = g, re_name = n, re_addresses = a, re_relay_url = r, re_last_seen_ms = word_of_nat t\<rparr>)"

definition unary_codec :: json_codec where
  "unary_codec =
     \<lparr>to_vec_pretty = (\<lambda>l. Some (replicate (to_nat (map entry_fields l)) 0)),
      from_slice = (\<lambda>b. Some (map entry_of_fields (from_nat (length b))))\<rparr>"

lemma unary_codec_ok: "json_ok unary_codec"
proof -
  have "entry_of_fields (entry_fields e) = e" for e by (simp add: entry_of_fields_def entry_fields_def)
  then show ?thesis by (simp add: json_ok_def unary_codec_def o_def)
qed

definition example_entry :: "string \<Rightarrow> u64 \<Rightarrow> roster_entry" where
  "example_entry n t =
     \<lparr>re_node_id = n, re_group_id = ''g'', re_name = [], re_addresses = [], re_relay_url = None, re_last_seen_ms = t\<rparr>"

theorem roster_survives_restart_witness:
  "roster_get ''a'' (roster_load unary_codec (rs_file (roster_upsert unary_codec True (example_entry ''a'' 5) (roster_load unary_codec None))))
     = Some (example_entry ''a'' 5)"
proof -
  have "roster_run unary_codec None (roster_upsert unary_codec True (example_entry ''a'' 5) (roster_load unary_codec None))"
    by (intro roster_run.intros)
  from roster_survives_restart [OF unary_codec_ok this, of "''a''"] show ?thesis
    by (simp add: get_upsert) (simp add: example_entry_def roster_load_def roster_get_def hm_get_def)
qed

end
