(* ===== verification/Reconnect.thy ===== *)
theory Reconnect
  imports Roster
begin

text \<open>
  Reconnection: the dial state machine of \<open>peat-ffi/src/supervisor.rs\<close> and the passes of
  \<open>peat-ffi/src/lib.rs\<close> that drive it over the roster. A spawned dial runs on its own: it is an entry of
  the list of dials that wait for a permit, then of those that hold one, until its outcome is recorded, at
  any later time and in any order. A pass over the roster is one step, and dials start and end between passes.
  The transports are parameters: the set of peers connected over iroh and a test for a link on any
  other transport. The hash that spreads the jitter is a parameter too.
\<close>

definition BACKOFF_BASE_MS :: u64 where
  "BACKOFF_BASE_MS = 2000"

definition BACKOFF_MAX_MS :: u64 where
  "BACKOFF_MAX_MS = 300000"

definition CONNECTING_STUCK_MS :: u64 where
  "CONNECTING_STUCK_MS = 30000"

datatype phase = PhaseIdle | PhaseConnecting | PhaseConnected | PhaseBackoff

record peer_dial =
  pd_phase :: phase
  pd_attempts :: u32
  pd_next_ms :: u64
  pd_since_ms :: u64

definition peer_dial_default :: peer_dial where
  "peer_dial_default = \<lparr>pd_phase = PhaseIdle, pd_attempts = 0, pd_next_ms = 0, pd_since_ms = 0\<rparr>"

type_synonym supervisor = "(string, peer_dial) hash_map"

definition saturating_add :: "'a::len word \<Rightarrow> 'a word \<Rightarrow> 'a word" where
  "saturating_add a b = (if unat a + unat b < 2 ^ LENGTH('a) then a + b else - 1)"

definition saturating_mul :: "'a::len word \<Rightarrow> 'a word \<Rightarrow> 'a word" where
  "saturating_mul a b = (if unat a * unat b < 2 ^ LENGTH('a) then a * b else - 1)"

definition or_default :: "string \<Rightarrow> supervisor \<Rightarrow> peer_dial" where
  "or_default node_id m = (case hm_get m node_id of Some e \<Rightarrow> e | None \<Rightarrow> peer_dial_default)"


subsection \<open>The supervisor\<close>

definition backoff_ms :: "(string \<Rightarrow> u64) \<Rightarrow> u32 \<Rightarrow> string \<Rightarrow> u64" where
  "backoff_ms hash attempts node_id =
     (let shift = min (saturating_sub attempts 1) 8;
          base = saturating_mul BACKOFF_BASE_MS (push_bit (unat shift) 1);
          capped = min base BACKOFF_MAX_MS;
          jitter = hash node_id mod (capped div 5 + 1)
      in saturating_add capped jitter)"

definition reconcile :: "string list \<Rightarrow> supervisor \<Rightarrow> supervisor \<times> string list" where
  "reconcile connected self =
     (let (m, newly) =
            fold (\<lambda>id (m, newly).
                    let entry = or_default id m
                    in (hm_insert id (entry\<lparr>pd_phase := PhaseConnected, pd_attempts := 0\<rparr>) m,
                        if pd_phase entry \<noteq> PhaseConnected then newly @ [id] else newly))
              connected (self, [])
      in (hm_map_values (\<lambda>id entry. if pd_phase entry = PhaseConnected \<and> id \<notin> set connected
                                    then entry\<lparr>pd_phase := PhaseIdle\<rparr> else entry) m,
          newly))"

definition eligible :: "string \<Rightarrow> u64 \<Rightarrow> supervisor \<Rightarrow> supervisor \<times> bool" where
  "eligible node_id now_ms self =
     (let entry = or_default node_id self
      in (hm_insert node_id entry self,
          case pd_phase entry of
            PhaseIdle \<Rightarrow> True
          | PhaseConnected \<Rightarrow> False
          | PhaseBackoff \<Rightarrow> now_ms \<ge> pd_next_ms entry
          | PhaseConnecting \<Rightarrow> saturating_sub now_ms (pd_since_ms entry) \<ge> CONNECTING_STUCK_MS))"

definition mark_connecting :: "string \<Rightarrow> u64 \<Rightarrow> supervisor \<Rightarrow> supervisor" where
  "mark_connecting node_id now_ms self =
     hm_insert node_id ((or_default node_id self)\<lparr>pd_phase := PhaseConnecting, pd_since_ms := now_ms\<rparr>) self"

definition mark_connected :: "string \<Rightarrow> supervisor \<Rightarrow> supervisor" where
  "mark_connected node_id self =
     hm_insert node_id ((or_default node_id self)\<lparr>pd_phase := PhaseConnected, pd_attempts := 0\<rparr>) self"

definition mark_failed :: "(string \<Rightarrow> u64) \<Rightarrow> string \<Rightarrow> u64 \<Rightarrow> supervisor \<Rightarrow> supervisor" where
  "mark_failed hash node_id now_ms self =
     (let entry = or_default node_id self;
          attempts = saturating_add (pd_attempts entry) 1;
          backoff = backoff_ms hash attempts node_id
      in hm_insert node_id
           (entry\<lparr>pd_attempts := attempts, pd_phase := PhaseBackoff, pd_next_ms := saturating_add now_ms backoff\<rparr>) self)"

definition reset_backoff_all :: "supervisor \<Rightarrow> supervisor" where
  "reset_backoff_all self =
     hm_map_values (\<lambda>_ entry. if pd_phase entry = PhaseBackoff then entry\<lparr>pd_phase := PhaseIdle, pd_attempts := 0\<rparr> else entry) self"

definition supervisor_retain :: "string list \<Rightarrow> supervisor \<Rightarrow> supervisor" where
  "supervisor_retain keep self = hm_retain (\<lambda>id _. id \<in> set keep) self"


subsection \<open>The passes over the roster\<close>

record reconnect_node =
  rn_roster :: roster_store
  rn_supervisor :: supervisor
  rn_waiting :: "string list"
  rn_dialing :: "string list"

text \<open>
  A spawned dial first waits for one of the permits (\<open>rn_waiting\<close>), then dials while it holds the permit
  (\<open>rn_dialing\<close>).
\<close>

definition MAX_CONCURRENT_RECONNECT_DIALS :: nat where
  "MAX_CONCURRENT_RECONNECT_DIALS = 8"

definition try_dial_roster_peer :: "roster_entry \<Rightarrow> u64 \<Rightarrow> reconnect_node \<Rightarrow> reconnect_node" where
  "try_dial_roster_peer entry now_ms self =
     self\<lparr>rn_supervisor := mark_connecting (re_node_id entry) now_ms (rn_supervisor self),
          rn_waiting := rn_waiting self @ [re_node_id entry]\<rparr>"

text \<open>
  A waiting dial gets a permit when one is free. The tasks ask for their permits in the order in which the
  runtime first polls them, so any of those waiting may be next.
\<close>

definition dial_started :: "string \<Rightarrow> reconnect_node \<Rightarrow> reconnect_node" where
  "dial_started node_id self =
     (if node_id \<in> set (rn_waiting self) \<and> length (rn_dialing self) < MAX_CONCURRENT_RECONNECT_DIALS
      then self\<lparr>rn_waiting := remove1 node_id (rn_waiting self), rn_dialing := rn_dialing self @ [node_id]\<rparr>
      else self)"

text \<open>The end of a dial, with the clock read then; its permit is free again.\<close>

definition dial_finished ::
    "json_codec \<Rightarrow> (string \<Rightarrow> u64) \<Rightarrow> bool \<Rightarrow> bool \<Rightarrow> string \<Rightarrow> u64 \<Rightarrow> reconnect_node \<Rightarrow> reconnect_node" where
  "dial_finished J hash written ok node_id now_ms self =
     (let self = self\<lparr>rn_dialing := remove1 node_id (rn_dialing self)\<rparr>
      in if ok
         then self\<lparr>rn_supervisor := mark_connected node_id (rn_supervisor self),
                   rn_roster := roster_mark_seen J written node_id now_ms (rn_roster self)\<rparr>
         else self\<lparr>rn_supervisor := mark_failed hash node_id now_ms (rn_supervisor self)\<rparr>)"

definition connected_set :: "string list \<Rightarrow> (string \<Rightarrow> bool) \<Rightarrow> roster_entry list \<Rightarrow> string list" where
  "connected_set iroh_connected any_transport entries =
     fold (\<lambda>e connected. if re_node_id e \<notin> set connected \<and> any_transport (re_node_id e)
                         then connected @ [re_node_id e] else connected) entries iroh_connected"

definition run_supervisor_tick ::
    "json_codec \<Rightarrow> bool \<Rightarrow> string list \<Rightarrow> (string \<Rightarrow> bool) \<Rightarrow> u64 \<Rightarrow> reconnect_node \<Rightarrow> reconnect_node" where
  "run_supervisor_tick J written iroh_connected any_transport now_ms self =
     (let entries = roster_list (rn_roster self);
          connected = connected_set iroh_connected any_transport entries;
          (supervisor, newly) = reconcile connected (rn_supervisor self);
          roster = fold (\<lambda>id roster. if roster_get id roster \<noteq> None then roster_mark_seen J written id now_ms roster else roster)
                     newly (rn_roster self);
          supervisor = supervisor_retain (connected @ map re_node_id entries) supervisor;
          self = self\<lparr>rn_roster := roster, rn_supervisor := supervisor\<rparr>
      in fold (\<lambda>entry self.
                 if re_node_id entry \<in> set connected then self
                 else (let (supervisor, dial) = eligible (re_node_id entry) now_ms (rn_supervisor self);
                           self = self\<lparr>rn_supervisor := supervisor\<rparr>
                       in if \<not> dial then self else try_dial_roster_peer entry now_ms self))
           entries self)"

definition on_peer_observed ::
    "json_codec \<Rightarrow> bool \<Rightarrow> (string \<Rightarrow> bool) \<Rightarrow> string \<Rightarrow> u64 \<Rightarrow> reconnect_node \<Rightarrow> reconnect_node" where
  "on_peer_observed J written any_transport node_id now self =
     (case roster_get node_id (rn_roster self) of
        None \<Rightarrow> self
      | Some entry \<Rightarrow>
          if any_transport node_id
          then self\<lparr>rn_supervisor := mark_connected node_id (rn_supervisor self),
                    rn_roster := roster_mark_seen J written node_id now (rn_roster self)\<rparr>
          else (let (supervisor, dial) = eligible node_id now (rn_supervisor self);
                    self = self\<lparr>rn_supervisor := supervisor\<rparr>
                in if dial then try_dial_roster_peer entry now self else self))"

definition wake_reconnect ::
    "json_codec \<Rightarrow> bool \<Rightarrow> string list \<Rightarrow> (string \<Rightarrow> bool) \<Rightarrow> u64 \<Rightarrow> reconnect_node \<Rightarrow> reconnect_node" where
  "wake_reconnect J written iroh_connected any_transport now_ms self =
     run_supervisor_tick J written iroh_connected any_transport now_ms
       (self\<lparr>rn_supervisor := reset_backoff_all (rn_supervisor self)\<rparr>)"

definition reconnect_known_peers ::
    "json_codec \<Rightarrow> bool \<Rightarrow> string list \<Rightarrow> (string \<Rightarrow> bool) \<Rightarrow> u64 \<Rightarrow> reconnect_node \<Rightarrow> reconnect_node" where
  "reconnect_known_peers J written iroh_connected any_transport now_ms self =
     run_supervisor_tick J written iroh_connected any_transport now_ms self"

text \<open>The endpoint is told of the change first; the clock is read after it returned.\<close>

definition notify_network_change ::
    "json_codec \<Rightarrow> bool \<Rightarrow> string list \<Rightarrow> (string \<Rightarrow> bool) \<Rightarrow> u64 \<Rightarrow> reconnect_node \<Rightarrow> reconnect_node" where
  "notify_network_change J written iroh_connected any_transport now_ms self =
     run_supervisor_tick J written iroh_connected any_transport now_ms
       (self\<lparr>rn_supervisor := reset_backoff_all (rn_supervisor self)\<rparr>)"

definition roster_remember ::
    "json_codec \<Rightarrow> bool \<Rightarrow> string \<Rightarrow> string \<Rightarrow> string \<Rightarrow> string list \<Rightarrow> string option \<Rightarrow> roster_store \<Rightarrow> roster_store" where
  "roster_remember J written group_id node_id name addresses relay_url self =
     roster_upsert J written
       \<lparr>re_node_id = node_id, re_group_id = group_id, re_name = name, re_addresses = addresses,
        re_relay_url = relay_url, re_last_seen_ms = 0\<rparr> self"


subsection \<open>Backoff\<close>

lemma unat_saturating_add: "unat (saturating_add a b) = min (unat (a :: 'a::len word) + unat b) (2 ^ LENGTH('a) - 1)"
proof (cases "unat a + unat b < 2 ^ LENGTH('a)")
  case True
  then show ?thesis by (simp add: saturating_add_def unat_word_ariths)
next
  case False
  then show ?thesis by (simp add: saturating_add_def unsigned_minus_1_eq_mask mask_eq_exp_minus_1)
qed

lemma unat_min: "unat (min a b) = min (unat a) (unat (b :: 'a::len word))"
  by (simp add: min_def word_le_nat_alt)

definition backoff_step :: "u32 \<Rightarrow> nat" where
  "backoff_step attempts = min (2000 * 2 ^ min (unat attempts - 1) 8) 300000"

lemma backoff_range:
  "backoff_step attempts \<le> unat (backoff_ms hash attempts node_id)
   \<and> unat (backoff_ms hash attempts node_id) \<le> backoff_step attempts + backoff_step attempts div 5
   \<and> 2000 \<le> backoff_step attempts \<and> backoff_step attempts \<le> 300000"
proof -
  define k where "k = min (unat attempts - 1) 8"
  let ?shift = "min (saturating_sub attempts 1) 8 :: u32"
  have k: "k \<le> 8" by (simp add: k_def)
  have "unat ?shift = k"
    by (simp add: k_def unat_min unat_saturating_sub)
  moreover have pow: "(2 :: nat) ^ k \<le> 2 ^ 8" using k by (intro power_increasing) simp_all
  have "unat (push_bit k 1 :: u64) = take_bit 64 (2 ^ k)"
    unfolding unsigned_push_bit_eq by (simp add: push_bit_eq_mult)
  then have "unat (push_bit k 1 :: u64) = 2 ^ k"
    using k by simp
  then have "unat (saturating_mul BACKOFF_BASE_MS (push_bit k 1)) = 2000 * 2 ^ k"
    using pow by (simp add: saturating_mul_def BACKOFF_BASE_MS_def unat_word_ariths)
  ultimately have base: "unat (min (saturating_mul BACKOFF_BASE_MS (push_bit (unat ?shift) 1)) BACKOFF_MAX_MS) = backoff_step attempts"
    by (simp only: unat_min backoff_step_def flip: k_def) (simp add: BACKOFF_MAX_MS_def)
  let ?c = "min (saturating_mul BACKOFF_BASE_MS (push_bit (unat ?shift) 1)) BACKOFF_MAX_MS"
  have range: "2000 \<le> backoff_step attempts" "backoff_step attempts \<le> 300000" by (simp_all add: backoff_step_def)
  have "unat (?c div 5 + 1) = backoff_step attempts div 5 + 1"
    using range base by (simp add: unat_word_ariths unat_div)
  then have "unat (hash node_id mod (?c div 5 + 1)) \<le> backoff_step attempts div 5"
    by (simp add: unat_mod)
  then show ?thesis
    using base range by (simp add: backoff_ms_def Let_def unat_saturating_add)
qed


subsection \<open>One pass of the supervisor\<close>

text \<open>When the state kept of a peer without a link allows a dial.\<close>

definition due :: "u64 \<Rightarrow> peer_dial option \<Rightarrow> bool" where
  "due now st =
     (case st of
        None \<Rightarrow> True
      | Some e \<Rightarrow>
          (case pd_phase e of
             PhaseIdle \<Rightarrow> True
           | PhaseConnected \<Rightarrow> True
           | PhaseBackoff \<Rightarrow> unat (pd_next_ms e) \<le> unat now
           | PhaseConnecting \<Rightarrow> unat (pd_since_ms e) + 30000 \<le> unat now))"

definition unlinked :: "peer_dial \<Rightarrow> peer_dial" where
  "unlinked e = (if pd_phase e = PhaseConnected then e\<lparr>pd_phase := PhaseIdle\<rparr> else e)"

lemma unlinked_phase [simp]: "pd_phase (unlinked e) \<noteq> PhaseConnected"
  by (simp add: unlinked_def)

lemma due_unlinked [simp]: "due now (map_option unlinked st) = due now st"
  by (cases st) (simp_all add: due_def unlinked_def)

lemma snd_eligible:
  "snd (eligible k now m) \<longleftrightarrow> due now (hm_get m k) \<and> (\<forall>e. hm_get m k = Some e \<longrightarrow> pd_phase e \<noteq> PhaseConnected)"
proof -
  have "CONNECTING_STUCK_MS \<le> saturating_sub now t \<longleftrightarrow> unat t + 30000 \<le> unat now" for t
    by (auto simp: word_le_nat_alt unat_saturating_sub CONNECTING_STUCK_MS_def)
  then show ?thesis
    by (cases "hm_get m k")
      (simp_all add: eligible_def due_def or_default_def peer_dial_default_def Let_def word_le_nat_alt split: phase.split)
qed

lemma fst_eligible: "fst (eligible k now m) = hm_insert k (or_default k m) m"
  by (simp add: eligible_def Let_def)

lemma set_connected_set:
  "set (connected_set iroh any es) = set iroh \<union> {id \<in> re_node_id ` set es. any id}"
  unfolding connected_set_def by (induction es arbitrary: iroh) auto

definition reconcile_step :: "string \<Rightarrow> supervisor \<times> string list \<Rightarrow> supervisor \<times> string list" where
  "reconcile_step k = (\<lambda>(m, newly).
     let entry = or_default k m
     in (hm_insert k (entry\<lparr>pd_phase := PhaseConnected, pd_attempts := 0\<rparr>) m,
         if pd_phase entry \<noteq> PhaseConnected then newly @ [k] else newly))"

lemma reconcile_fold:
  "fst (reconcile c m) = hm_map_values (\<lambda>id e. if pd_phase e = PhaseConnected \<and> id \<notin> set c then e\<lparr>pd_phase := PhaseIdle\<rparr> else e)
     (fst (fold reconcile_step c (m, [])))"
  "snd (reconcile c m) = snd (fold reconcile_step c (m, []))"
  unfolding reconcile_def reconcile_step_def [abs_def] by (simp_all add: Let_def split: prod.split)

lemma get_reconcile_fold:
  "k \<notin> set c \<Longrightarrow> hm_get (fst (fold reconcile_step c mn)) k = hm_get (fst mn) k"
  by (induction c arbitrary: mn) (auto simp: reconcile_step_def Let_def split: prod.split)

lemma hm_wf_reconcile [simp]: "hm_wf m \<Longrightarrow> hm_wf (fst (reconcile c m))"
proof -
  have "hm_wf (fst (fold reconcile_step c mn))" if "hm_wf (fst mn)" for mn
    using that by (induction c arbitrary: mn) (auto simp: reconcile_step_def Let_def split: prod.split)
  then show "hm_wf m \<Longrightarrow> hm_wf (fst (reconcile c m))" by (simp add: reconcile_fold)
qed

lemma get_reconcile: "k \<notin> set c \<Longrightarrow> hm_get (fst (reconcile c m)) k = map_option unlinked (hm_get m k)"
  by (simp add: reconcile_fold hm_get_map_values get_reconcile_fold unlinked_def [abs_def] cong: map_option_cong)

text \<open>The loop over the roster that spawns the dials.\<close>

definition dial_step :: "string list \<Rightarrow> u64 \<Rightarrow> roster_entry \<Rightarrow> reconnect_node \<Rightarrow> reconnect_node" where
  "dial_step connected now_ms entry self =
     (if re_node_id entry \<in> set connected then self
      else (let (supervisor, dial) = eligible (re_node_id entry) now_ms (rn_supervisor self);
                self = self\<lparr>rn_supervisor := supervisor\<rparr>
            in if \<not> dial then self else try_dial_roster_peer entry now_ms self))"

lemma dial_step_waiting:
  "rn_waiting (dial_step c now e self) =
     rn_waiting self @ (if re_node_id e \<notin> set c \<and> snd (eligible (re_node_id e) now (rn_supervisor self)) then [re_node_id e] else [])"
  by (simp add: dial_step_def try_dial_roster_peer_def Let_def split: prod.split)

lemma dial_step_other: "k \<noteq> re_node_id e \<Longrightarrow> hm_get (rn_supervisor (dial_step c now e self)) k = hm_get (rn_supervisor self) k"
  by (simp add: dial_step_def try_dial_roster_peer_def mark_connecting_def eligible_def Let_def)

lemma eligible_cong: "hm_get m k = hm_get m' k \<Longrightarrow> snd (eligible k now m) = snd (eligible k now m')"
  by (simp add: snd_eligible)

lemma dial_loop_waiting:
  "distinct (map re_node_id es) \<Longrightarrow>
   rn_waiting (fold (dial_step c now) es self) =
     rn_waiting self @ map re_node_id
       (filter (\<lambda>e. re_node_id e \<notin> set c \<and> snd (eligible (re_node_id e) now (rn_supervisor self))) es)"
proof (induction es arbitrary: self)
  case (Cons e es)
  have "snd (eligible (re_node_id x) now (rn_supervisor (dial_step c now e self)))
      = snd (eligible (re_node_id x) now (rn_supervisor self))" if "x \<in> set es" for x
    using Cons.prems that by (intro eligible_cong dial_step_other) (metis distinct.simps(2) image_eqI list.set_map list.simps(9))
  then have "filter (\<lambda>x. re_node_id x \<notin> set c \<and> snd (eligible (re_node_id x) now (rn_supervisor (dial_step c now e self)))) es
      = filter (\<lambda>x. re_node_id x \<notin> set c \<and> snd (eligible (re_node_id x) now (rn_supervisor self))) es"
    by (intro filter_cong) simp_all
  then show ?case using Cons by (simp add: dial_step_waiting)
qed simp

definition tick_start ::
    "json_codec \<Rightarrow> bool \<Rightarrow> string list \<Rightarrow> u64 \<Rightarrow> reconnect_node \<Rightarrow> reconnect_node" where
  "tick_start J written connected now_ms self =
     self\<lparr>rn_roster := fold (\<lambda>id roster. if roster_get id roster \<noteq> None then roster_mark_seen J written id now_ms roster else roster)
                        (snd (reconcile connected (rn_supervisor self))) (rn_roster self),
          rn_supervisor := supervisor_retain (connected @ map re_node_id (roster_list (rn_roster self)))
                             (fst (reconcile connected (rn_supervisor self)))\<rparr>"

lemma tick_unfold:
  "run_supervisor_tick J w iroh any now self =
     fold (dial_step (connected_set iroh any (roster_list (rn_roster self))) now) (roster_list (rn_roster self))
       (tick_start J w (connected_set iroh any (roster_list (rn_roster self))) now self)"
  unfolding run_supervisor_tick_def tick_start_def dial_step_def [abs_def] Let_def by (simp split: prod.split)

lemma get_tick_start:
  assumes "hm_wf (rn_supervisor self)" "e \<in> set (roster_list (rn_roster self))" "re_node_id e \<notin> set c"
  shows "hm_get (rn_supervisor (tick_start J w c now self)) (re_node_id e) = map_option unlinked (hm_get (rn_supervisor self) (re_node_id e))"
  using assms by (auto simp: tick_start_def supervisor_retain_def hm_get_retain get_reconcile split: option.split)


lemma distinct_count_list: "distinct xs \<Longrightarrow> count_list xs x = (if x \<in> set xs then 1 else 0)"
  by (induction xs) auto

lemma tick_waiting:
  assumes "roster_wf (rn_roster self)" "hm_wf (rn_supervisor self)"
  shows "rn_waiting (run_supervisor_tick J w iroh any now self) =
     rn_waiting self @ map re_node_id
       (filter (\<lambda>e. re_node_id e \<notin> set iroh \<and> \<not> any (re_node_id e) \<and> due now (hm_get (rn_supervisor self) (re_node_id e)))
          (roster_list (rn_roster self)))"
proof -
  let ?es = "roster_list (rn_roster self)"
  let ?c = "connected_set iroh any ?es"
  let ?s = "tick_start J w ?c now self"
  have "re_node_id e \<notin> set ?c \<and> snd (eligible (re_node_id e) now (rn_supervisor ?s))
      \<longleftrightarrow> re_node_id e \<notin> set iroh \<and> \<not> any (re_node_id e) \<and> due now (hm_get (rn_supervisor self) (re_node_id e))"
    if e: "e \<in> set ?es" for e
  proof -
    have "snd (eligible (re_node_id e) now (rn_supervisor ?s)) = due now (hm_get (rn_supervisor self) (re_node_id e))"
      if "re_node_id e \<notin> set ?c"
      using get_tick_start [OF assms(2) e that] by (auto simp: snd_eligible)
    moreover have "re_node_id e \<notin> set ?c \<longleftrightarrow> re_node_id e \<notin> set iroh \<and> \<not> any (re_node_id e)"
      using e by (auto simp: set_connected_set)
    ultimately show ?thesis by blast
  qed
  then have "filter (\<lambda>e. re_node_id e \<notin> set ?c \<and> snd (eligible (re_node_id e) now (rn_supervisor ?s))) ?es
      = filter (\<lambda>e. re_node_id e \<notin> set iroh \<and> \<not> any (re_node_id e) \<and> due now (hm_get (rn_supervisor self) (re_node_id e))) ?es"
    by (intro filter_cong) simp_all
  moreover have "rn_waiting ?s = rn_waiting self" by (simp add: tick_start_def)
  ultimately show ?thesis
    unfolding tick_unfold dial_loop_waiting [OF distinct_roster_list [OF assms(1)]] by simp
qed


lemma tick_dialing: "rn_dialing (run_supervisor_tick J w iroh any now self) = rn_dialing self"
proof -
  have "rn_dialing (fold (dial_step c now) es s) = rn_dialing s" for c es s
    by (induction es arbitrary: s) (simp_all add: dial_step_def try_dial_roster_peer_def Let_def case_prod_beta)
  then show ?thesis by (simp add: tick_unfold tick_start_def)
qed


subsection \<open>Runs\<close>

text \<open>
  The node from the moment it loads its roster: passes of the supervisor, wake-ups, sightings of peers,
  dials that start and end and edits of the roster, in any order, the clock never going back.
\<close>

inductive node_run :: "json_codec \<Rightarrow> (string \<Rightarrow> u64) \<Rightarrow> u64 \<Rightarrow> reconnect_node \<Rightarrow> bool" for J hash where
  start: "node_run J hash t \<lparr>rn_roster = roster_load J f, rn_supervisor = [], rn_waiting = [], rn_dialing = []\<rparr>"
| tick: "node_run J hash t s \<Longrightarrow> t \<le> now \<Longrightarrow> node_run J hash now (run_supervisor_tick J w iroh any now s)"
| wake: "node_run J hash t s \<Longrightarrow> t \<le> now \<Longrightarrow> node_run J hash now (wake_reconnect J w iroh any now s)"
| known: "node_run J hash t s \<Longrightarrow> t \<le> now \<Longrightarrow> node_run J hash now (reconnect_known_peers J w iroh any now s)"
| changed: "node_run J hash t s \<Longrightarrow> t \<le> now \<Longrightarrow> node_run J hash now (notify_network_change J w iroh any now s)"
| observed: "node_run J hash t s \<Longrightarrow> t \<le> now \<Longrightarrow> node_run J hash now (on_peer_observed J w any n now s)"
| finished: "node_run J hash t s \<Longrightarrow> t \<le> now \<Longrightarrow> n \<in> set (rn_dialing s) \<Longrightarrow> node_run J hash now (dial_finished J hash w ok n now s)"
| started: "node_run J hash t s \<Longrightarrow> node_run J hash t (dial_started n s)"
| remembered: "node_run J hash t s \<Longrightarrow> node_run J hash t (s\<lparr>rn_roster := roster_remember J w g n name as url (rn_roster s)\<rparr>)"
| upserted: "node_run J hash t s \<Longrightarrow> node_run J hash t (s\<lparr>rn_roster := roster_upsert J w e (rn_roster s)\<rparr>)"
| forgotten: "node_run J hash t s \<Longrightarrow> node_run J hash t (s\<lparr>rn_roster := fst (roster_remove J w n (rn_roster s))\<rparr>)"

definition timely :: "u64 \<Rightarrow> peer_dial \<Rightarrow> bool" where
  "timely t e \<longleftrightarrow> (pd_phase e = PhaseBackoff \<longrightarrow> unat (pd_next_ms e) \<le> unat t + 360000)
     \<and> (pd_phase e = PhaseConnecting \<longrightarrow> pd_since_ms e \<le> t)"

definition sup_ok :: "u64 \<Rightarrow> supervisor \<Rightarrow> bool" where
  "sup_ok t m \<longleftrightarrow> hm_wf m \<and> (\<forall>k e. hm_get m k = Some e \<longrightarrow> timely t e)"

lemma timely_mono: "timely t e \<Longrightarrow> t \<le> now \<Longrightarrow> timely now e"
  by (cases "pd_phase e") (simp_all add: timely_def word_le_nat_alt)

lemma sup_ok_mono: "sup_ok t m \<Longrightarrow> t \<le> now \<Longrightarrow> sup_ok now m"
  using timely_mono unfolding sup_ok_def by blast

lemma sup_ok_insert: "sup_ok t m \<Longrightarrow> timely t e \<Longrightarrow> sup_ok t (hm_insert k e m)"
  by (simp add: sup_ok_def)

lemma timely_default: "sup_ok t m \<Longrightarrow> timely t (or_default k m)"
  by (auto simp: sup_ok_def or_default_def peer_dial_default_def timely_def split: option.split)

lemma backoff_le: "unat (backoff_ms hash n k) \<le> 360000"
proof -
  have "backoff_step n div 5 \<le> 60000" "backoff_step n \<le> 300000" by (simp_all add: backoff_step_def)
  then show ?thesis using backoff_range [where attempts = n and hash = hash and node_id = k] by linarith
qed

lemma sup_ok_connecting: "sup_ok t m \<Longrightarrow> sup_ok t (mark_connecting k t m)"
  unfolding mark_connecting_def by (intro sup_ok_insert) (simp_all add: timely_def)

lemma sup_ok_connected: "sup_ok t m \<Longrightarrow> sup_ok t (mark_connected k m)"
  unfolding mark_connected_def by (intro sup_ok_insert) (simp_all add: timely_def)

lemma sup_ok_failed: "sup_ok t m \<Longrightarrow> sup_ok t (mark_failed hash k t m)"
  unfolding mark_failed_def Let_def
  by (intro sup_ok_insert) (simp_all add: timely_def unat_saturating_add min_le_iff_disj backoff_le)

lemma sup_ok_reset: "sup_ok t m \<Longrightarrow> sup_ok t (reset_backoff_all m)"
  by (auto simp: reset_backoff_all_def sup_ok_def hm_get_map_values timely_def)

lemma sup_ok_eligible: "sup_ok t m \<Longrightarrow> sup_ok t (fst (eligible k now m))"
  unfolding fst_eligible by (intro sup_ok_insert timely_default)

lemma sup_ok_retain: "sup_ok t m \<Longrightarrow> sup_ok t (supervisor_retain c m)"
  by (auto simp: supervisor_retain_def sup_ok_def hm_get_retain split: option.splits if_splits)

lemma sup_ok_reconcile:
  assumes "sup_ok t m"
  shows "sup_ok t (fst (reconcile c m))"
proof -
  have "sup_ok t (fst (fold reconcile_step c mn))" if "sup_ok t (fst mn)" for mn
    using that
  proof (induction c arbitrary: mn)
    case (Cons k c)
    have "sup_ok t (fst (reconcile_step k mn))"
      unfolding reconcile_step_def using Cons.prems by (auto simp: Let_def timely_def intro: sup_ok_insert split: prod.split)
    then show ?case using Cons.IH by simp
  qed simp
  then have "sup_ok t (fst (fold reconcile_step c (m, [])))" using assms by simp
  then show ?thesis by (auto simp: reconcile_fold sup_ok_def hm_get_map_values timely_def)
qed

definition node_ok :: "u64 \<Rightarrow> reconnect_node \<Rightarrow> bool" where
  "node_ok t s \<longleftrightarrow> roster_wf (rn_roster s) \<and> sup_ok t (rn_supervisor s) \<and> length (rn_dialing s) \<le> MAX_CONCURRENT_RECONNECT_DIALS"

lemma node_ok_dial: "node_ok t s \<Longrightarrow> node_ok t (try_dial_roster_peer e t s)"
  by (simp add: node_ok_def try_dial_roster_peer_def sup_ok_connecting)

lemma node_ok_dial_step: "node_ok t s \<Longrightarrow> node_ok t (dial_step c t e s)"
proof -
  assume ok: "node_ok t s"
  then have "node_ok t (s\<lparr>rn_supervisor := fst (eligible (re_node_id e) t (rn_supervisor s))\<rparr>)"
    by (simp add: node_ok_def sup_ok_eligible)
  then show ?thesis using ok by (simp add: dial_step_def Let_def case_prod_beta node_ok_dial)
qed

lemma node_ok_tick: "node_ok t s \<Longrightarrow> node_ok t (run_supervisor_tick J w iroh any t s)"
proof -
  assume ok: "node_ok t s"
  have seen: "roster_wf (fold (\<lambda>id roster. if roster_get id roster \<noteq> None then roster_mark_seen J w id t roster else roster) ns r)"
    if "roster_wf r" for ns r
    using that by (induction ns arbitrary: r) (simp_all add: wf_mark_seen)
  have fold_ok: "node_ok t (fold (dial_step c t) es s')" if "node_ok t s'" for c es s'
    using that by (induction es arbitrary: s') (simp_all add: node_ok_dial_step)
  show ?thesis unfolding tick_unfold
    by (rule fold_ok) (use ok seen in \<open>simp add: tick_start_def node_ok_def sup_ok_retain sup_ok_reconcile\<close>)
qed

lemma node_ok_observed: "node_ok t s \<Longrightarrow> node_ok t (on_peer_observed J w any n t s)"
proof -
  assume ok: "node_ok t s"
  then have "node_ok t (s\<lparr>rn_supervisor := fst (eligible n t (rn_supervisor s))\<rparr>)"
    by (simp add: node_ok_def sup_ok_eligible)
  with ok show ?thesis
    by (simp add: on_peer_observed_def case_prod_beta Let_def node_ok_dial split: option.split)
      (simp add: node_ok_def sup_ok_connected wf_mark_seen)
qed

lemma node_ok_finished: "node_ok t s \<Longrightarrow> node_ok t (dial_finished J hash w ok n t s)"
  by (auto simp: dial_finished_def node_ok_def Let_def sup_ok_connected sup_ok_failed wf_mark_seen length_remove1)

lemma node_ok_started: "node_ok t s \<Longrightarrow> node_ok t (dial_started n s)"
  by (simp add: dial_started_def node_ok_def)

lemma node_run_ok: "node_run J hash t s \<Longrightarrow> node_ok t s"
proof (induction rule: node_run.induct)
  case (start t f)
  then show ?case by (simp add: node_ok_def wf_load sup_ok_def hm_wf_def hm_get_def)
next
  case (wake t s now w iroh any)
  then have "node_ok now (s\<lparr>rn_supervisor := reset_backoff_all (rn_supervisor s)\<rparr>)"
    by (auto simp: node_ok_def intro: sup_ok_reset sup_ok_mono)
  then show ?case unfolding wake_reconnect_def by (rule node_ok_tick)
next
  case (tick t s now w iroh any)
  then show ?case by (auto intro!: node_ok_tick simp: node_ok_def [of _ s] intro: sup_ok_mono)
next
  case (known t s now w iroh any)
  then show ?case unfolding reconnect_known_peers_def by (auto intro!: node_ok_tick simp: node_ok_def [of _ s] intro: sup_ok_mono)
next
  case (changed t s now w iroh any)
  then have "node_ok now (s\<lparr>rn_supervisor := reset_backoff_all (rn_supervisor s)\<rparr>)"
    by (auto simp: node_ok_def intro: sup_ok_reset sup_ok_mono)
  then show ?case unfolding notify_network_change_def by (rule node_ok_tick)
next
  case (observed t s now w any n)
  then show ?case by (auto intro!: node_ok_observed simp: node_ok_def [of _ s] intro: sup_ok_mono)
next
  case (finished t s now n w ok)
  then show ?case by (auto intro!: node_ok_finished simp: node_ok_def [of _ s] intro: sup_ok_mono)
next
  case (started t s n)
  then show ?case by (simp add: node_ok_started)
next
  case (remembered t s w g n name as url)
  then show ?case by (simp add: node_ok_def roster_remember_def wf_upsert)
next
  case (upserted t s w e)
  then show ?case by (simp add: node_ok_def wf_upsert)
next
  case (forgotten t s w n)
  then show ?case by (simp add: node_ok_def wf_remove)
qed


subsection \<open>A small run\<close>

text \<open>A node that remembers one peer and dials it at time zero.\<close>

definition demo_codec :: json_codec where
  "demo_codec = \<lparr>to_vec_pretty = (\<lambda>_. None), from_slice = (\<lambda>_. None)\<rparr>"

definition demo_node :: reconnect_node where
  "demo_node = run_supervisor_tick demo_codec False [] (\<lambda>_. False) 0
     \<lparr>rn_roster = roster_remember demo_codec False ''g'' ''n'' ''N'' [] None (roster_load demo_codec None),
      rn_supervisor = [], rn_waiting = [], rn_dialing = []\<rparr>"

lemma demo_run: "node_run demo_codec (\<lambda>_. 0) 0 demo_node"
proof -
  have "node_run demo_codec (\<lambda>_. 0) 0 \<lparr>rn_roster = roster_load demo_codec None, rn_supervisor = [], rn_waiting = [], rn_dialing = []\<rparr>"
    by (rule node_run.start)
  from node_run.remembered [OF this, of False "''g''" "''n''" "''N''" "[]" None]
  show ?thesis unfolding demo_node_def by (intro node_run.tick [where t = 0]) simp_all
qed

lemma demo_entries:
  "demo_node = \<lparr>rn_roster = \<lparr>rs_entries = [(''n'', \<lparr>re_node_id = ''n'', re_group_id = ''g'', re_name = ''N'',
       re_addresses = [], re_relay_url = None, re_last_seen_ms = 0\<rparr>)], rs_file = None\<rparr>,
     rn_supervisor = [(''n'', \<lparr>pd_phase = PhaseConnecting, pd_attempts = 0, pd_next_ms = 0, pd_since_ms = 0\<rparr>)],
     rn_waiting = [''n''], rn_dialing = []\<rparr>"
  by code_simp


subsection \<open>Properties\<close>

text \<open>
  Backoff. For every attempt counter, node id and hash the delay lies between the doubled step (two
  seconds doubling up to five minutes) and a fifth more than it; the step never shrinks as failures
  accumulate, and neither the shift nor a product nor the sum leaves 64 bits.
\<close>

theorem backoff_bounds:
  "backoff_step attempts \<le> unat (backoff_ms hash attempts node_id)
   \<and> unat (backoff_ms hash attempts node_id) \<le> backoff_step attempts + backoff_step attempts div 5
   \<and> 2000 \<le> unat (backoff_ms hash attempts node_id) \<and> unat (backoff_ms hash attempts node_id) \<le> 360000
   \<and> backoff_step attempts \<le> backoff_step (saturating_add attempts 1)"
proof -
  have "min (unat attempts - 1) 8 \<le> min (unat (saturating_add attempts 1) - 1) (8 :: nat)"
    by (simp add: unat_saturating_add) linarith
  then have "(2 :: nat) ^ min (unat attempts - 1) 8 \<le> 2 ^ min (unat (saturating_add attempts 1) - 1) 8"
    by (rule power_increasing) simp
  then have "backoff_step attempts \<le> backoff_step (saturating_add attempts 1)"
    unfolding backoff_step_def by linarith
  then show ?thesis
    using backoff_range [where attempts = attempts and hash = hash and node_id = node_id] backoff_le [of hash attempts node_id]
    by linarith
qed

text \<open>
  C12. One pass of the supervisor spawns dials for exactly the roster members that have no link and whose
  recorded state allows it: no state yet, idle, a link that was lost, a backoff that has expired, or a dial
  that has been outstanding for thirty seconds. One dial is spawned for each, in roster order; they
  join the dials that wait for a permit, and the dials that hold one go on.
\<close>

theorem tick_dials_exactly:
  assumes "node_run J hash t s"
  shows "rn_waiting (run_supervisor_tick J w iroh any now s) =
     rn_waiting s @ map re_node_id
       (filter (\<lambda>e. re_node_id e \<notin> set iroh \<and> \<not> any (re_node_id e) \<and> due now (hm_get (rn_supervisor s) (re_node_id e)))
          (roster_list (rn_roster s)))
   \<and> rn_dialing (run_supervisor_tick J w iroh any now s) = rn_dialing s
   \<and> distinct (map re_node_id (roster_list (rn_roster s)))"
  using node_run_ok [OF assms] tick_waiting [of s J w iroh any now]
  by (simp add: node_ok_def sup_ok_def distinct_roster_list tick_dialing)

text \<open>
  C8. No peer is given up by the supervisor. In every run, however often the dials of a peer have failed or
  hung, any pass that comes at least six minutes after the last step spawns a new dial for every roster
  member that has no link. At most eight dials hold a permit at any time. If fewer do, the new dial can take
  one and start; if eight do, then neither it nor any other waiting dial starts before one of the eight ends.
\<close>

theorem unlinked_peer_is_redialed:
  fixes w :: bool
  assumes "node_run J hash t s"
    and "unat t + 360000 \<le> unat now"
    and "roster_get n (rn_roster s) = Some e"
    and "n \<notin> set iroh" "\<not> any n"
  defines "s' \<equiv> run_supervisor_tick J w iroh any now s"
  shows "(\<exists>ds. rn_waiting s' = rn_waiting s @ ds \<and> n \<in> set ds) \<and> rn_dialing s' = rn_dialing s \<and>
    length (rn_dialing s') \<le> 8 \<and>
    (if length (rn_dialing s') < 8 then rn_dialing (dial_started n s') = rn_dialing s' @ [n]
     else \<forall>m. dial_started m s' = s')"
proof -
  have ok: "roster_wf (rn_roster s)" "hm_wf (rn_supervisor s)" "\<And>e. hm_get (rn_supervisor s) n = Some e \<Longrightarrow> timely t e"
    "length (rn_dialing s) \<le> 8"
    using node_run_ok [OF assms(1)] by (auto simp: node_ok_def sup_ok_def MAX_CONCURRENT_RECONNECT_DIALS_def)
  have id: "re_node_id e = n" using ok(1) assms(3) by (auto simp: roster_wf_get)
  have "due now (hm_get (rn_supervisor s) n)"
    using ok(3) assms(2) by (auto simp: due_def timely_def word_le_nat_alt split: option.split phase.split)
  then have "n \<in> set (map re_node_id (filter (\<lambda>e. re_node_id e \<notin> set iroh \<and> \<not> any (re_node_id e)
      \<and> due now (hm_get (rn_supervisor s) (re_node_id e))) (roster_list (rn_roster s))))"
    using assms(3-5) id roster_list_get [OF ok(1), of e] by force
  then have "\<exists>ds. rn_waiting s' = rn_waiting s @ ds \<and> n \<in> set ds"
    using tick_waiting [OF ok(1,2), of J w iroh any now] unfolding s'_def by blast
  then show ?thesis
    using ok(4) by (auto simp: s'_def tick_dialing dial_started_def MAX_CONCURRENT_RECONNECT_DIALS_def)
qed

text \<open>
  A dial that still waits for one of the dial permits after thirty seconds is spawned a second time:
  the pass does not know that the first is queued, and both then wait for the same peer.
\<close>

theorem queued_dial_is_spawned_again:
  assumes "node_run J hash t s"
    and "hm_get (rn_supervisor s) n = Some d" "pd_phase d = PhaseConnecting"
    and "unat (pd_since_ms d) + 30000 \<le> unat now"
    and "roster_get n (rn_roster s) = Some e"
    and "n \<notin> set iroh" "\<not> any n"
  shows "count_list (rn_waiting (run_supervisor_tick J w iroh any now s)) n = count_list (rn_waiting s) n + 1"
proof -
  let ?P = "\<lambda>e. re_node_id e \<notin> set iroh \<and> \<not> any (re_node_id e) \<and> due now (hm_get (rn_supervisor s) (re_node_id e))"
  have ok: "roster_wf (rn_roster s)" "hm_wf (rn_supervisor s)"
    using node_run_ok [OF assms(1)] by (auto simp: node_ok_def sup_ok_def)
  have id: "re_node_id e = n" using ok(1) assms(5) by (auto simp: roster_wf_get)
  then have "n \<in> set (map re_node_id (filter ?P (roster_list (rn_roster s))))"
    using assms roster_list_get [OF ok(1), of e] by (force simp: due_def)
  moreover have "distinct (map re_node_id (filter ?P (roster_list (rn_roster s))))"
    using distinct_roster_list [OF ok(1)] by (rule distinct_map_filter)
  ultimately have "count_list (map re_node_id (filter ?P (roster_list (rn_roster s)))) n = 1"
    by (simp add: distinct_count_list)
  then show ?thesis unfolding tick_waiting [OF ok] by (simp add: count_list_append)
qed

theorem tick_dials_exactly_witness:
  "rn_waiting (run_supervisor_tick demo_codec False [] (\<lambda>_. False) 20000 demo_node) = [''n'']
   \<and> rn_waiting (run_supervisor_tick demo_codec False [] (\<lambda>_. False) 30000 demo_node) = [''n'', ''n'']"
proof -
  have "roster_list (rn_roster demo_node) = [\<lparr>re_node_id = ''n'', re_group_id = ''g'', re_name = ''N'',
       re_addresses = [], re_relay_url = None, re_last_seen_ms = 0\<rparr>]"
    unfolding demo_entries by code_simp
  then show ?thesis
    using tick_dials_exactly [OF demo_run, of False "[]" "\<lambda>_. False" 20000] tick_dials_exactly [OF demo_run, of False "[]" "\<lambda>_. False" 30000]
    by (simp add: demo_entries due_def hm_get_def)
qed

theorem unlinked_peer_is_redialed_witness:
  "rn_dialing (dial_started ''n'' (run_supervisor_tick demo_codec False [] (\<lambda>_. False) 400000 (dial_started ''n'' demo_node)))
     = [''n'', ''n'']"
proof -
  have d: "dial_started ''n'' demo_node = demo_node\<lparr>rn_waiting := [], rn_dialing := [''n'']\<rparr>"
    by (simp add: demo_entries dial_started_def MAX_CONCURRENT_RECONNECT_DIALS_def)
  obtain e where "roster_get ''n'' (rn_roster (dial_started ''n'' demo_node)) = Some e"
    unfolding d by (simp add: demo_entries roster_get_def hm_get_def)
  then show ?thesis
    using unlinked_peer_is_redialed [OF node_run.started [OF demo_run, of "''n''"], of 400000 "''n''" e "[]" "\<lambda>_. False" False]
    by (simp add: tick_dialing d)
qed

theorem queued_dial_is_spawned_again_witness:
  "count_list (rn_waiting (run_supervisor_tick demo_codec False [] (\<lambda>_. False) 30000 demo_node)) ''n'' = 2"
  using queued_dial_is_spawned_again [OF demo_run, of "''n''" _ 30000 _ "[]" "\<lambda>_. False" False]
  by (simp add: demo_entries roster_get_def hm_get_def)

end
