(* ===== verification/Token_Bucket.thy ===== *)
theory Token_Bucket
  imports Peat_Prelude Float_Rounding
begin

text \<open>
  What the two token buckets of the code base have in common (\<open>event/transmitter.rs\<close> and
  \<open>hierarchy/flow_control.rs\<close>): the arithmetic of a refill in double precision, and the rate limit that
  follows from it. The buckets are modelled with their components, which interpret \<open>token_bucket_laws\<close>.
  All quantities stay far inside the range of the format, so only rounding matters.
\<close>

definition as_f64 :: "nat \<Rightarrow> rat" where
  "as_f64 n = fl 53 (of_nat n)"

text \<open>\<open>Duration::as_secs_f64\<close> of a number of nanoseconds.\<close>

definition as_secs_f64 :: "nat \<Rightarrow> rat" where
  "as_secs_f64 ns = f_add (as_f64 (ns div 10 ^ 9)) (f_divide (of_nat (ns mod 10 ^ 9)) (10 ^ 9))"


subsection \<open>Representable values\<close>

lemma fl_idem: "0 \<le> q \<Longrightarrow> fl 53 (fl 53 q) = fl 53 q"
proof (cases "q = 0")
  case False
  assume "0 \<le> q"
  with False have q: "0 < q" by simp
  define e where "e = exponent q - 52"
  define m where "m = round_even (q / pow2 e)"
  have fl: "fl 53 q = of_int m * pow2 e" using q by (simp add: fl_def e_def m_def Let_def)
  have "pow2 (exponent q + 1) = 2 ^ 53 * pow2 e" unfolding e_def
    using pow2_add [of 53 "exponent q - 52"] by (simp add: pow2_def [of 53] add.commute)
  then have "q / pow2 e \<le> of_int (2 ^ 53)"
    using less_pow2_exponent [OF q] by (simp add: pos_divide_le_eq less_imp_le)
  then have "m \<le> 2 ^ 53" unfolding m_def by (rule round_even_le)
  moreover have "0 \<le> m" unfolding m_def using q by (intro round_even_nonneg) simp
  ultimately consider "m = 2 ^ 53" | "\<bar>of_int m\<bar> < (2 :: rat) ^ 53" by (cases "m = 2 ^ 53") simp_all
  then show ?thesis
  proof cases
    case 1
    then have "fl 53 q = of_int 1 * pow2 (53 + e)" unfolding fl pow2_add by (simp add: pow2_def [of 53])
    then show ?thesis by (rule fl_exact) simp
  next
    case 2
    then show ?thesis by (rule fl_exact [OF fl])
  qed
qed (simp add: fl_def)

lemma fl_le_self: "0 \<le> q \<Longrightarrow> q \<le> c \<Longrightarrow> fl 53 c = c \<Longrightarrow> fl 53 q \<le> c"
  using fl_mono_pos [of q c 53] by (cases "q = 0") (simp_all add: fl_def)


lemma fl_as_f64 [simp]: "fl 53 (as_f64 n) = as_f64 n"
  by (simp add: as_f64_def fl_idem)

lemma as_f64_exact: "n < 2 ^ 53 \<Longrightarrow> as_f64 n = of_nat n"
proof -
  assume "n < 2 ^ 53"
  then have "(of_nat n :: rat) < of_nat (2 ^ 53)" by (simp only: of_nat_less_iff)
  then show ?thesis unfolding as_f64_def by (intro fl_exact [where m = "int n" and k = 0]) (simp_all add: pow2_def)
qed

subsection \<open>Rounding upwards\<close>

lemma fl_upper: "0 \<le> q \<Longrightarrow> fl 53 q \<le> q + q / 2 ^ 53"
proof -
  assume "0 \<le> q"
  then have "\<bar>fl 53 q - q\<bar> \<le> q / 2 ^ 53" using fl_error [of 53 q] by (simp only: abs_of_nonneg)
  then show ?thesis by linarith
qed

lemma fl_upper_mult: "0 \<le> q \<Longrightarrow> q \<le> a \<Longrightarrow> fl 53 q \<le> a * (1 + 1 / 2 ^ 53)"
proof -
  assume "0 \<le> q" "q \<le> a"
  then have "fl 53 q \<le> q * (1 + 1 / 2 ^ 53)" using fl_upper [of q] by (simp add: distrib_left)
  also have "\<dots> \<le> a * (1 + 1 / 2 ^ 53)" using \<open>q \<le> a\<close> by (intro mult_right_mono) simp_all
  finally show ?thesis .
qed

lemma as_f64_nonneg [simp]: "0 \<le> as_f64 n"
  by (simp add: as_f64_def fl_nonneg)

lemma as_secs_f64_nonneg [simp]: "0 \<le> as_secs_f64 ns"
  by (simp add: as_secs_f64_def f_add_def f_divide_def fl_nonneg)

lemma secs_split: "(of_nat (ns div 10 ^ 9) :: rat) + of_nat (ns mod 10 ^ 9) / 10 ^ 9 = of_nat ns / 10 ^ 9"
proof -
  have "(of_nat ns :: rat) = of_nat (ns div 10 ^ 9 * 10 ^ 9 + ns mod 10 ^ 9)" by simp
  also have "\<dots> = of_nat (ns div 10 ^ 9) * 10 ^ 9 + of_nat (ns mod 10 ^ 9)"
    by (simp only: of_nat_add of_nat_mult of_nat_power of_nat_numeral)
  finally show ?thesis by (simp add: field_simps)
qed

lemma as_secs_f64_upper: "as_secs_f64 ns \<le> of_nat ns / 10 ^ 9 * (1 + 1 / 2 ^ 53) * (1 + 1 / 2 ^ 53)"
proof -
  define s r e where "s = (of_nat (ns div 10 ^ 9) :: rat)" and "r = (of_nat (ns mod 10 ^ 9) :: rat)" and "e = (1 + 1 / 2 ^ 53 :: rat)"
  have "fl 53 s \<le> s * e" "fl 53 (r / 10 ^ 9) \<le> r / 10 ^ 9 * e"
    unfolding e_def s_def r_def by (rule fl_upper_mult; simp)+
  then have "fl 53 s + fl 53 (r / 10 ^ 9) \<le> (s + r / 10 ^ 9) * e"
    unfolding distrib_right by (rule add_mono)
  moreover have "0 \<le> fl 53 s + fl 53 (r / 10 ^ 9)"
    unfolding s_def r_def by (intro add_nonneg_nonneg fl_nonneg) simp_all
  ultimately have "fl 53 (fl 53 s + fl 53 (r / 10 ^ 9)) \<le> (s + r / 10 ^ 9) * e * e"
    unfolding e_def by (rule fl_upper_mult [rotated])
  then show ?thesis
    unfolding as_secs_f64_def as_f64_def f_add_def f_divide_def s_def r_def e_def secs_split .
qed

lemma refill_amount_upper:
  assumes "0 \<le> rate"
  shows "f_times (as_secs_f64 ns) rate \<le> rate * (of_nat ns / 10 ^ 9) * (1 + 1 / 2 ^ 50)"
proof -
  let ?e = "1 + 1 / 2 ^ 53 :: rat" and ?s = "of_nat ns / 10 ^ 9 :: rat"
  have "as_secs_f64 ns * rate \<le> ?s * ?e * ?e * rate"
    using as_secs_f64_upper assms by (rule mult_right_mono)
  then have "f_times (as_secs_f64 ns) rate \<le> ?s * ?e * ?e * rate * ?e"
    unfolding f_times_def using assms by (intro fl_upper_mult) simp_all
  also have "\<dots> = rate * ?s * (?e * ?e * ?e)" by (simp only: ac_simps)
  also have "\<dots> \<le> rate * ?s * (1 + 1 / 2 ^ 50)"
    using assms by (intro mult_left_mono) simp_all
  finally show ?thesis .
qed


subsection \<open>Rounding downwards\<close>

lemma fl_lower_mult: "0 \<le> a \<Longrightarrow> a \<le> q \<Longrightarrow> a * (1 - 1 / 2 ^ 53) \<le> fl 53 q"
proof -
  assume a: "0 \<le> a" "a \<le> q"
  then have "\<bar>fl 53 q - q\<bar> \<le> q / 2 ^ 53" using fl_error [of 53 q] by (simp only: abs_of_nonneg order_trans)
  then have "q * (1 - 1 / 2 ^ 53) \<le> fl 53 q" unfolding right_diff_distrib mult_1_right times_divide_eq_right by linarith
  moreover have "a * (1 - 1 / 2 ^ 53) \<le> q * (1 - 1 / 2 ^ 53)" using a by (intro mult_right_mono) simp_all
  ultimately show ?thesis by (rule order_trans [rotated])
qed

lemma as_secs_f64_lower: "of_nat ns / 10 ^ 9 * (1 - 1 / 2 ^ 53) * (1 - 1 / 2 ^ 53) \<le> as_secs_f64 ns"
proof -
  define s r e where "s = (of_nat (ns div 10 ^ 9) :: rat)" and "r = (of_nat (ns mod 10 ^ 9) :: rat)" and "e = (1 - 1 / 2 ^ 53 :: rat)"
  have "s * e \<le> fl 53 s" "r / 10 ^ 9 * e \<le> fl 53 (r / 10 ^ 9)"
    unfolding e_def s_def r_def by (rule fl_lower_mult; simp)+
  then have "(s + r / 10 ^ 9) * e \<le> fl 53 s + fl 53 (r / 10 ^ 9)"
    unfolding distrib_right by (rule add_mono)
  moreover have "0 \<le> (s + r / 10 ^ 9) * e"
    unfolding s_def r_def e_def by (intro mult_nonneg_nonneg add_nonneg_nonneg) simp_all
  ultimately have "(s + r / 10 ^ 9) * e * e \<le> fl 53 (fl 53 s + fl 53 (r / 10 ^ 9))"
    unfolding e_def by (intro fl_lower_mult)
  then show ?thesis
    unfolding as_secs_f64_def as_f64_def f_add_def f_divide_def s_def r_def e_def secs_split .
qed

lemma as_secs_f64_pos: "0 < ns \<Longrightarrow> 0 < as_secs_f64 ns"
proof -
  assume "0 < ns"
  then have "0 < of_nat ns / 10 ^ 9 * (1 - 1 / 2 ^ 53) * (1 - 1 / 2 ^ 53 :: rat)" by simp
  then show ?thesis using as_secs_f64_lower by (rule less_le_trans)
qed

lemma as_secs_f64_0 [simp]: "as_secs_f64 0 = 0"
  by (simp add: as_secs_f64_def as_f64_def f_add_def f_divide_def fl_def)

subsection \<open>One refill and one charge\<close>

definition refilled :: "rat \<Rightarrow> rat \<Rightarrow> nat \<Rightarrow> rat \<Rightarrow> rat" where
  "refilled capacity rate ns tokens = min (f_add tokens (f_times (as_secs_f64 ns) rate)) capacity"

lemma refilled_bounds:
  assumes "0 \<le> tokens" "0 \<le> rate" "0 \<le> capacity"
  shows "0 \<le> refilled capacity rate ns tokens \<and> refilled capacity rate ns tokens \<le> capacity
    \<and> refilled capacity rate ns tokens \<le> tokens + rate * (of_nat ns / 10 ^ 9) * (1 + 1 / 2 ^ 50) + capacity / 2 ^ 53"
proof -
  define r where "r = f_times (as_secs_f64 ns) rate"
  have r: "0 \<le> r" "r \<le> rate * (of_nat ns / 10 ^ 9) * (1 + 1 / 2 ^ 50)"
    using assms(2) refill_amount_upper [OF assms(2)] by (simp_all add: r_def f_times_def fl_nonneg)
  have "0 \<le> f_add tokens r" using assms r by (simp add: f_add_def fl_nonneg)
  moreover have "min (f_add tokens r) capacity \<le> tokens + r + capacity / 2 ^ 53"
  proof (cases "tokens + r \<le> capacity")
    case True
    have "f_add tokens r \<le> tokens + r + (tokens + r) / 2 ^ 53"
      unfolding f_add_def using assms r by (intro fl_upper) simp
    also have "\<dots> \<le> tokens + r + capacity / 2 ^ 53" using True by (simp add: divide_right_mono)
    finally show ?thesis by simp
  next
    case False
    then have "capacity \<le> tokens + r + capacity / 2 ^ 53" using assms(3) by (simp add: add_increasing2)
    then show ?thesis by simp
  qed
  ultimately show ?thesis using r assms(3) unfolding refilled_def r_def [symmetric] by simp
qed

text \<open>Ten milliseconds at a rate of one capacity a second bring at least half a percent.\<close>

lemma refilled_lower:
  assumes "0 \<le> t" "t \<le> c" "10 ^ 7 \<le> ns"
  shows "min c (t + c / 200) \<le> refilled c c ns t"
proof -
  define e :: rat where "e = 1 - 1 / 2 ^ 53"
  have e: "0 \<le> e" "999 / 1000 \<le> e * e * e" "1 - e \<le> 1 / 1000" "e \<le> 1" "999 / 1000 \<le> e" by (simp_all add: e_def)
  have c: "0 \<le> c" using assms by simp
  have "of_nat (10 ^ 7) \<le> (of_nat ns :: rat)" using assms(3) by (simp only: of_nat_le_iff)
  then have "1 / 100 \<le> (of_nat ns / 10 ^ 9 :: rat)" by simp
  then have "1 / 100 * e * e \<le> of_nat ns / 10 ^ 9 * e * e" using e(1) by (intro mult_right_mono)
  then have "1 / 100 * e * e \<le> as_secs_f64 ns" using as_secs_f64_lower [of ns] unfolding e_def by (rule order_trans)
  then have "1 / 100 * e * e * c \<le> as_secs_f64 ns * c" using c by (rule mult_right_mono)
  then have "1 / 100 * e * e * c * e \<le> f_times (as_secs_f64 ns) c"
    unfolding f_times_def e_def by (intro fl_lower_mult) (use c in simp_all)
  moreover have "c * (999 / 100000) \<le> c * (1 / 100 * (e * e * e))" using e(2) c by (intro mult_left_mono) simp_all
  ultimately have x: "c * (999 / 100000) \<le> f_times (as_secs_f64 ns) c" by (simp add: ac_simps)
  then have "(t + c * (999 / 100000)) * e \<le> f_add t (f_times (as_secs_f64 ns) c)"
    unfolding f_add_def e_def using assms c by (intro fl_lower_mult) simp_all
  moreover have "t + c / 200 \<le> (t + c * (999 / 100000)) * e"
  proof -
    have "c * (999 / 100000) * (999 / 1000) \<le> c * (999 / 100000) * e" using e(5) c by (intro mult_left_mono) simp_all
    moreover have "t * (1 - e) \<le> c * (1 / 1000)" using e(3,4) assms c by (intro mult_mono) simp_all
    ultimately show ?thesis using c unfolding distrib_right right_diff_distrib by simp
  qed
  ultimately show ?thesis unfolding refilled_def by linarith
qed

lemma charged_bounds:
  assumes "0 \<le> amount" "amount \<le> tokens" "tokens \<le> capacity" "fl 53 capacity = capacity"
  shows "f_sub tokens amount \<le> capacity"
    and "0 \<le> f_sub tokens amount" "f_sub tokens amount \<le> tokens - amount + capacity / 2 ^ 53" 
proof -
  show "f_sub tokens amount \<le> capacity" unfolding f_sub_def using assms by (intro fl_le_self) simp_all
  show "0 \<le> f_sub tokens amount" using assms by (simp add: f_sub_def fl_nonneg)
  have "f_sub tokens amount \<le> tokens - amount + (tokens - amount) / 2 ^ 53"
    unfolding f_sub_def using assms by (intro fl_upper) simp
  also have "\<dots> \<le> tokens - amount + capacity / 2 ^ 53" using assms by (simp add: divide_right_mono)
  finally show "f_sub tokens amount \<le> tokens - amount + capacity / 2 ^ 53" .
qed


subsection \<open>The rate limit\<close>

text \<open>A sequence of operations, each with the amount it took out.\<close>

fun op_run :: "('b \<Rightarrow> rat \<Rightarrow> 'b \<Rightarrow> bool) \<Rightarrow> 'b \<Rightarrow> rat list \<Rightarrow> 'b \<Rightarrow> bool" where
  "op_run op b [] b' \<longleftrightarrow> b' = b"
| "op_run op b (c # cs) b' \<longleftrightarrow> (\<exists>m. op b c m \<and> op_run op m cs b')"

lemma op_run_append: "op_run op b cs m \<Longrightarrow> op_run op m ds b' \<Longrightarrow> op_run op b (cs @ ds) b'"
  by (induction cs arbitrary: b) auto

text \<open>
  The contract of a token bucket: an operation takes out no more than is there, and puts in what the
  rate allows for the time since the last refill, up to the error of the two roundings.
\<close>

locale token_bucket_laws =
  fixes wf :: "'b \<Rightarrow> bool"
    and tokens capacity rate :: "'b \<Rightarrow> rat"
    and last_refill :: "'b \<Rightarrow> nat"
    and start :: nat
    and op :: "'b \<Rightarrow> rat \<Rightarrow> 'b \<Rightarrow> bool"
  assumes tokens_range: "wf b \<Longrightarrow> 0 \<le> tokens b \<and> tokens b \<le> capacity b"
    and rate_nonneg: "wf b \<Longrightarrow> 0 \<le> rate b"
    and op_wf: "wf b \<Longrightarrow> op b c b' \<Longrightarrow> wf b'"
    and op_config: "op b c b' \<Longrightarrow> capacity b' = capacity b \<and> rate b' = rate b"
    and op_time: "op b c b' \<Longrightarrow> last_refill b \<le> last_refill b'"
    and op_start: "op b c b' \<Longrightarrow> start \<le> last_refill b'"
    and op_capacity: "wf b \<Longrightarrow> op b c b' \<Longrightarrow> tokens b' + c \<le> capacity b + capacity b / 2 ^ 52"
    and op_tokens: "wf b \<Longrightarrow> op b c b' \<Longrightarrow>
      tokens b' + c \<le> tokens b + rate b * (of_nat (last_refill b' - last_refill b) / 10 ^ 9) * (1 + 1 / 2 ^ 50) + capacity b / 2 ^ 52"
begin

lemma run_config: "op_run op b cs b' \<Longrightarrow> capacity b' = capacity b \<and> rate b' = rate b"
  by (induction cs arbitrary: b) (auto dest: op_config)

lemma run_time: "op_run op b cs b' \<Longrightarrow> last_refill b \<le> last_refill b'"
  by (induction cs arbitrary: b) (auto dest: op_time intro: order_trans)

lemma run_wf: "wf b \<Longrightarrow> op_run op b cs b' \<Longrightarrow> wf b'"
  by (induction cs arbitrary: b) (auto dest: op_wf)

lemma run_tokens:
  assumes "wf b" "op_run op b cs b'"
  shows "tokens b' + sum_list cs \<le> tokens b
    + rate b * (of_nat (last_refill b' - last_refill b) / 10 ^ 9) * (1 + 1 / 2 ^ 50) + of_nat (length cs) * (capacity b / 2 ^ 52)"
  using assms
proof (induction cs arbitrary: b)
  case (Cons c cs)
  then obtain m where m: "op b c m" "op_run op m cs b'" by auto
  let ?R = "\<lambda>n. rate b * (of_nat n / 10 ^ 9) * (1 + 1 / 2 ^ 50)"
  have "?R (last_refill b' - last_refill m) + ?R (last_refill m - last_refill b) = ?R (last_refill b' - last_refill b)"
    unfolding distrib_right [symmetric] distrib_left [symmetric] add_divide_distrib [symmetric] of_nat_add [symmetric]
    using op_time [OF m(1)] run_time [OF m(2)] by simp
  moreover have "tokens b' + sum_list cs \<le> tokens m + ?R (last_refill b' - last_refill m) + of_nat (length cs) * (capacity b / 2 ^ 52)"
    using Cons.IH [OF op_wf [OF Cons.prems(1) m(1)] m(2)] op_config [OF m(1)] by simp
  moreover have "tokens m + c \<le> tokens b + ?R (last_refill m - last_refill b) + capacity b / 2 ^ 52"
    by (rule op_tokens [OF Cons.prems(1) m(1)])
  moreover have "of_nat (length (c # cs)) * (capacity b / 2 ^ 52) = of_nat (length cs) * (capacity b / 2 ^ 52) + capacity b / 2 ^ 52"
    by (simp only: length_Cons of_nat_Suc distrib_right mult_1_left add.commute)
  ultimately show ?case unfolding sum_list.Cons by linarith
qed simp

text \<open>
  The amount taken out in a window that begins at \<open>start\<close> is at most one full bucket and what the rate
  allows for the length of the window; time before the window counts for nothing.
\<close>

lemma rate_limit:
  assumes "wf b" "op_run op b cs b'" "cs \<noteq> [] \<Longrightarrow> last_refill b' \<le> stop"
  shows "sum_list cs \<le> capacity b + rate b * (of_nat (stop - start) / 10 ^ 9) * (1 + 1 / 2 ^ 50) + of_nat (length cs) * (capacity b / 2 ^ 52)"
proof (cases cs)
  case Nil
  then show ?thesis
    using tokens_range [OF assms(1)] rate_nonneg [OF assms(1)] by (simp add: add_nonneg_nonneg)
next
  case (Cons c ds)
  then obtain m where m: "op b c m" "op_run op m ds b'" using assms(2) by auto
  let ?R = "\<lambda>n. rate b * (of_nat n / 10 ^ 9) * (1 + 1 / 2 ^ 50)"
  have "?R (last_refill b' - last_refill m) \<le> ?R (stop - start)"
    using op_start [OF m(1)] assms(3) Cons rate_nonneg [OF assms(1)]
    by (intro mult_right_mono mult_left_mono divide_right_mono) simp_all
  moreover have wf: "wf m" by (rule op_wf [OF assms(1) m(1)])
  then have "tokens b' + sum_list ds \<le> tokens m + ?R (last_refill b' - last_refill m) + of_nat (length ds) * (capacity b / 2 ^ 52)"
    using run_tokens [OF _ m(2)] op_config [OF m(1)] by simp
  moreover have "0 \<le> tokens b'" using tokens_range [OF run_wf [OF wf m(2)]] by simp
  moreover have "of_nat (length cs) * (capacity b / 2 ^ 52) = of_nat (length ds) * (capacity b / 2 ^ 52) + capacity b / 2 ^ 52"
    by (simp only: Cons length_Cons of_nat_Suc distrib_right mult_1_left add.commute)
  ultimately show ?thesis using op_capacity [OF assms(1) m(1)] unfolding Cons sum_list.Cons by linarith
qed

end

end
