(* ===== verification/Event_Transmitter.thy ===== *)
theory Event_Transmitter
  imports Event_Queue Token_Bucket
begin

text \<open>
  The event transmitter, \<open>peat-protocol/src/event/transmitter.rs\<close>: four bounded queues, one token bucket
  per priority and a budget of events per call. Every attempt to take tokens reads the clock; the
  readings are a function of the level and of the number of the attempt within the call.
\<close>


subsection \<open>Bandwidth\<close>

record bandwidth_allocation =
  ba_critical_reserved_bps :: u64
  ba_high_min_bps :: u64
  ba_normal_min_bps :: u64
  ba_low_min_bps :: u64
  ba_total_available_bps :: u64

definition bandwidth_allocation_default :: bandwidth_allocation where
  "bandwidth_allocation_default =
     (let total = 1000000
      in \<lparr>ba_critical_reserved_bps = total div 10,
          ba_high_min_bps = (total * 9 div 10) * 50 div 100,
          ba_normal_min_bps = (total * 9 div 10) * 35 div 100,
          ba_low_min_bps = (total * 9 div 10) * 15 div 100,
          ba_total_available_bps = total\<rparr>)"

definition bandwidth_allocation_new :: "u64 \<Rightarrow> bandwidth_allocation" where
  "bandwidth_allocation_new total_bps =
     (let non_critical = total_bps * 90 div 100
      in \<lparr>ba_critical_reserved_bps = total_bps div 10,
          ba_high_min_bps = non_critical * 50 div 100,
          ba_normal_min_bps = non_critical * 35 div 100,
          ba_low_min_bps = non_critical * 15 div 100,
          ba_total_available_bps = total_bps\<rparr>)"

text \<open>The assertion adds the percentages as \<open>u8\<close>; a failed assertion is \<open>None\<close>.\<close>

definition with_percentages :: "u64 \<Rightarrow> u8 \<Rightarrow> u8 \<Rightarrow> u8 \<Rightarrow> u8 \<Rightarrow> bandwidth_allocation option" where
  "with_percentages total_bps critical_pct high_pct normal_pct low_pct =
     (if critical_pct + high_pct + normal_pct + low_pct \<le> 100
      then Some \<lparr>ba_critical_reserved_bps = total_bps * ucast critical_pct div 100,
                 ba_high_min_bps = total_bps * ucast high_pct div 100,
                 ba_normal_min_bps = total_bps * ucast normal_pct div 100,
                 ba_low_min_bps = total_bps * ucast low_pct div 100,
                 ba_total_available_bps = total_bps\<rparr>
      else None)"

record token_bucket =
  tb_tokens :: rat
  tb_capacity :: rat
  tb_rate :: rat
  tb_last_refill :: instant

definition token_bucket_new :: "rat \<Rightarrow> rat \<Rightarrow> instant \<Rightarrow> token_bucket" where
  "token_bucket_new capacity rate now =
     \<lparr>tb_tokens = capacity, tb_capacity = capacity, tb_rate = rate, tb_last_refill = now\<rparr>"

definition bucket_refill :: "instant \<Rightarrow> token_bucket \<Rightarrow> token_bucket" where
  "bucket_refill now self =
     (let elapsed = as_secs_f64 (elapsed now (tb_last_refill self))
      in self\<lparr>tb_tokens := min (f_add (tb_tokens self) (f_times elapsed (tb_rate self))) (tb_capacity self),
              tb_last_refill := now\<rparr>)"

definition bucket_try_consume :: "instant \<Rightarrow> rat \<Rightarrow> token_bucket \<Rightarrow> token_bucket \<times> bool" where
  "bucket_try_consume now amount self =
     (let self = bucket_refill now self
      in if amount \<le> tb_tokens self then (self\<lparr>tb_tokens := f_sub (tb_tokens self) amount\<rparr>, True) else (self, False))"

definition bucket_available :: "instant \<Rightarrow> token_bucket \<Rightarrow> token_bucket \<times> rat" where
  "bucket_available now self = (let self = bucket_refill now self in (self, tb_tokens self))"


subsection \<open>The transmitter\<close>

datatype overflow_policy = RejectNew | RemoveOldest | RemoveLowestPriority

record transmitter_stats =
  ts_transmitted :: "u64 list"
  ts_dropped :: "u64 list"
  ts_bytes_transmitted :: "u64 list"

definition transmitter_stats_default :: transmitter_stats where
  "transmitter_stats_default =
     \<lparr>ts_transmitted = [0, 0, 0, 0], ts_dropped = [0, 0, 0, 0], ts_bytes_transmitted = [0, 0, 0, 0]\<rparr>"

record event_transmitter =
  tx_queues :: "peat_event list list"
  tx_max_queue_sizes :: "nat list"
  tx_buckets :: "token_bucket list"
  tx_allocation :: bandwidth_allocation
  tx_overflow_policy :: overflow_policy
  tx_stats :: transmitter_stats

definition event_transmitter_new :: "bandwidth_allocation \<Rightarrow> (nat \<Rightarrow> instant) \<Rightarrow> event_transmitter" where
  "event_transmitter_new allocation clock =
     (let bucket = (\<lambda>i bps. token_bucket_new (as_f64 (unat bps)) (as_f64 (unat bps)) (clock i));
          critical_bucket = bucket 0 (ba_critical_reserved_bps allocation);
          high_bucket = bucket 1 (ba_high_min_bps allocation);
          normal_bucket = bucket 2 (ba_normal_min_bps allocation);
          low_bucket = bucket 3 (ba_low_min_bps allocation)
      in \<lparr>tx_queues = [[], [], [], []],
          tx_max_queue_sizes = [100, 1000, 1000, 1000],
          tx_buckets = [critical_bucket, high_bucket, normal_bucket, low_bucket],
          tx_allocation = allocation,
          tx_overflow_policy = RemoveLowestPriority,
          tx_stats = transmitter_stats_default\<rparr>)"

definition set_max_queue_size :: "event_priority \<Rightarrow> nat \<Rightarrow> event_transmitter \<Rightarrow> event_transmitter" where
  "set_max_queue_size priority n self =
     self\<lparr>tx_max_queue_sizes := (tx_max_queue_sizes self)[priority_to_level priority := n]\<rparr>"

definition set_overflow_policy :: "overflow_policy \<Rightarrow> event_transmitter \<Rightarrow> event_transmitter" where
  "set_overflow_policy policy self = self\<lparr>tx_overflow_policy := policy\<rparr>"

definition get_level :: "peat_event \<Rightarrow> nat" where
  "get_level event =
     priority_to_level
       (case pe_routing event of
          Some r \<Rightarrow> (case event_priority_of_int (ap_priority r) of Some p \<Rightarrow> p | None \<Rightarrow> PriorityNormal)
        | None \<Rightarrow> PriorityNormal)"

definition estimate_event_size :: "peat_event \<Rightarrow> nat" where
  "estimate_event_size event = (let base_overhead = 200 in base_overhead + length (pe_payload_value event))"

definition incr :: "nat \<Rightarrow> u64 \<Rightarrow> u64 list \<Rightarrow> u64 list" where
  "incr level n counters = counters[level := counters ! level + n]"

definition drop_front :: "nat \<Rightarrow> event_transmitter \<Rightarrow> event_transmitter" where
  "drop_front level self =
     self\<lparr>tx_queues := (tx_queues self)[level := tl (tx_queues self ! level)],
          tx_stats := (tx_stats self)\<lparr>ts_dropped := incr level 1 (ts_dropped (tx_stats self))\<rparr>\<rparr>"

definition drop_lowest_priority :: "event_transmitter \<Rightarrow> event_transmitter \<times> bool" where
  "drop_lowest_priority self =
     (if tx_queues self ! 3 \<noteq> [] then (drop_front 3 self, True)
      else if tx_queues self ! 2 \<noteq> [] then (drop_front 2 self, True)
      else if tx_queues self ! 1 \<noteq> [] then (drop_front 1 self, True)
      else (self, False))"

definition transmitter_enqueue :: "peat_event \<Rightarrow> event_transmitter \<Rightarrow> event_transmitter \<times> bool" where
  "transmitter_enqueue event self =
     (let level = get_level event;
          rejected = self\<lparr>tx_stats := (tx_stats self)\<lparr>ts_dropped := incr level 1 (ts_dropped (tx_stats self))\<rparr>\<rparr>;
          accept = (\<lambda>self. (self\<lparr>tx_queues := (tx_queues self)[level := tx_queues self ! level @ [event]]\<rparr>, True))
      in if length (tx_queues self ! level) \<ge> tx_max_queue_sizes self ! level
         then (case tx_overflow_policy self of
                 RejectNew \<Rightarrow> (rejected, False)
               | RemoveOldest \<Rightarrow> accept (drop_front level self)
               | RemoveLowestPriority \<Rightarrow>
                   (let (self', dropped) = drop_lowest_priority self
                    in if \<not> dropped then (rejected, False) else accept self'))
         else accept self)"

text \<open>The loop that \<open>transmit\<close> runs for one level and a number of events.\<close>

fun transmit_level :: "nat \<Rightarrow> nat \<Rightarrow> (nat \<Rightarrow> instant) \<Rightarrow> event_transmitter \<Rightarrow> event_transmitter \<times> peat_event list" where
  "transmit_level level 0 clock self = (self, [])"
| "transmit_level level (Suc n) clock self =
     (case tx_queues self ! level of
        [] \<Rightarrow> (self, [])
      | event # rest \<Rightarrow>
          (let size = estimate_event_size event;
               (bucket, ok) = bucket_try_consume (clock 0) (as_f64 size) (tx_buckets self ! level);
               self = self\<lparr>tx_buckets := (tx_buckets self)[level := bucket]\<rparr>
           in if ok
              then (let stats = tx_stats self;
                        self = self\<lparr>tx_queues := (tx_queues self)[level := rest],
                                    tx_stats := stats\<lparr>ts_transmitted := incr level 1 (ts_transmitted stats),
                                                      ts_bytes_transmitted := incr level (of_nat size) (ts_bytes_transmitted stats)\<rparr>\<rparr>;
                        (self, result) = transmit_level level n (\<lambda>i. clock (Suc i)) self
                    in (self, event # result))
              else (self, [])))"

definition transmit :: "nat \<Rightarrow> (nat \<Rightarrow> nat \<Rightarrow> instant) \<Rightarrow> event_transmitter \<Rightarrow> event_transmitter \<times> peat_event list" where
  "transmit max_events clock self =
     (let (self, result) = transmit_level 0 max_events (clock 0) self;
          remaining = max_events - length result
      in if remaining = 0 then (self, result)
         else (let high_alloc = (remaining * 50) div 100;
                   normal_alloc = (remaining * 35) div 100;
                   (self, high) = transmit_level 1 high_alloc (clock 1) self;
                   high_remaining = high_alloc - length high;
                   remaining = remaining - length high;
                   high_unused = high_alloc - (high_alloc - high_remaining);
                   (self, normal) = transmit_level 2 (min (normal_alloc + high_unused) remaining) (clock 2) self;
                   remaining = remaining - length normal;
                   (self, low) = transmit_level 3 remaining (clock 3) self
               in (self, result @ high @ normal @ low)))"

text \<open>Every round of this loop takes an event off the queue or ends it.\<close>

definition transmit_critical :: "(nat \<Rightarrow> instant) \<Rightarrow> event_transmitter \<Rightarrow> event_transmitter \<times> peat_event list" where
  "transmit_critical clock self = transmit_level 0 (length (tx_queues self ! 0)) clock self"

definition reset_stats :: "event_transmitter \<Rightarrow> event_transmitter" where
  "reset_stats self = self\<lparr>tx_stats := transmitter_stats_default\<rparr>"

definition available_bandwidth :: "(nat \<Rightarrow> instant) \<Rightarrow> event_transmitter \<Rightarrow> event_transmitter \<times> rat list" where
  "available_bandwidth clock self =
     (let rs = map (\<lambda>i. bucket_available (clock i) (tx_buckets self ! i)) [0, 1, 2, 3]
      in (self\<lparr>tx_buckets := map fst rs\<rparr>, map snd rs))"


subsection \<open>One bucket\<close>

definition bucket_wf :: "token_bucket \<Rightarrow> bool" where
  "bucket_wf b \<longleftrightarrow> 0 \<le> tb_tokens b \<and> tb_tokens b \<le> tb_capacity b \<and> 0 \<le> tb_rate b \<and> fl 53 (tb_capacity b) = tb_capacity b"

text \<open>An operation on a bucket, not before \<open>start\<close> and the last one, and the tokens it takes out.\<close>

definition bucket_op :: "instant \<Rightarrow> token_bucket \<Rightarrow> rat \<Rightarrow> token_bucket \<Rightarrow> bool" where
  "bucket_op start b c b' \<longleftrightarrow>
     (\<exists>now amount. start \<le> now \<and> tb_last_refill b \<le> now \<and> 0 \<le> amount \<and>
        (b' = fst (bucket_try_consume now amount b) \<and> c = (if snd (bucket_try_consume now amount b) then amount else 0)
         \<or> b' = fst (bucket_available now b) \<and> c = 0))"

lemma bucket_refill_eq:
  "tb_last_refill b \<le> now \<Longrightarrow>
   bucket_refill now b = b\<lparr>tb_tokens := refilled (tb_capacity b) (tb_rate b) (now - tb_last_refill b) (tb_tokens b), tb_last_refill := now\<rparr>"
  by (simp add: bucket_refill_def refilled_def elapsed_def)

lemma try_consume_eq:
  "bucket_try_consume now amount b =
     (let b = bucket_refill now b
      in (if amount \<le> tb_tokens b then b\<lparr>tb_tokens := f_sub (tb_tokens b) amount\<rparr> else b, amount \<le> tb_tokens b))"
  by (simp add: bucket_try_consume_def Let_def)

lemma bucket_op_elim:
  assumes "bucket_op start b c b'" "bucket_wf b"
  obtains "start \<le> tb_last_refill b'" "tb_last_refill b \<le> tb_last_refill b'" "bucket_wf b'" "0 \<le> c"
    "tb_tokens b' + c \<le> refilled (tb_capacity b) (tb_rate b) (tb_last_refill b' - tb_last_refill b) (tb_tokens b) + tb_capacity b / 2 ^ 53"
proof -
  obtain now amount where now: "start \<le> now" "tb_last_refill b \<le> now" "0 \<le> amount"
    and b': "b' = fst (bucket_try_consume now amount b) \<and> c = (if snd (bucket_try_consume now amount b) then amount else 0)
         \<or> b' = fst (bucket_available now b) \<and> c = 0"
    using assms(1) unfolding bucket_op_def by blast
  define t where "t = refilled (tb_capacity b) (tb_rate b) (now - tb_last_refill b) (tb_tokens b)"
  have wf: "0 \<le> tb_tokens b" "0 \<le> tb_rate b" "0 \<le> tb_capacity b" "fl 53 (tb_capacity b) = tb_capacity b"
    using assms(2) by (simp_all add: bucket_wf_def)
  have t: "0 \<le> t" "t \<le> tb_capacity b" using refilled_bounds [OF wf(1-3)] by (simp_all add: t_def)
  have refill: "bucket_refill now b = b\<lparr>tb_tokens := t, tb_last_refill := now\<rparr>"
    unfolding t_def by (rule bucket_refill_eq [OF now(2)])
  have "(b' = b\<lparr>tb_tokens := f_sub t amount, tb_last_refill := now\<rparr> \<and> c = amount \<and> amount \<le> t)
      \<or> (b' = b\<lparr>tb_tokens := t, tb_last_refill := now\<rparr> \<and> c = 0)"
    using b' by (auto simp: try_consume_eq bucket_available_def refill Let_def split: if_splits)
  then show thesis
  proof (elim disjE conjE)
    assume "b' = b\<lparr>tb_tokens := f_sub t amount, tb_last_refill := now\<rparr>" "c = amount" "amount \<le> t"
    with charged_bounds [OF now(3) \<open>amount \<le> t\<close> t(2) wf(4)] show thesis
      using now wf by (intro that) (simp_all add: bucket_wf_def flip: t_def)
  next
    assume "b' = b\<lparr>tb_tokens := t, tb_last_refill := now\<rparr>" "c = 0"
    then show thesis using now wf t by (intro that) (simp_all add: bucket_wf_def flip: t_def)
  qed
qed

lemma bucket_op_config: "bucket_op start b c b' \<Longrightarrow> tb_capacity b' = tb_capacity b \<and> tb_rate b' = tb_rate b
    \<and> start \<le> tb_last_refill b' \<and> tb_last_refill b \<le> tb_last_refill b'"
  by (auto simp: bucket_op_def try_consume_eq bucket_available_def bucket_refill_def Let_def)

interpretation tx_bucket: token_bucket_laws bucket_wf tb_tokens tb_capacity tb_rate tb_last_refill start "bucket_op start" for start
proof
  fix b c b'
  assume wf: "bucket_wf b" and op: "bucket_op start b c b'"
  have r: "refilled (tb_capacity b) (tb_rate b) n (tb_tokens b) \<le> tb_capacity b"
    "refilled (tb_capacity b) (tb_rate b) n (tb_tokens b) \<le> tb_tokens b + tb_rate b * (of_nat n / 10 ^ 9) * (1 + 1 / 2 ^ 50) + tb_capacity b / 2 ^ 53" for n
    using refilled_bounds [of "tb_tokens b" "tb_rate b" "tb_capacity b" n] wf by (simp_all add: bucket_wf_def)
  have half: "tb_capacity b / 2 ^ 52 = tb_capacity b / 2 ^ 53 + tb_capacity b / 2 ^ 53" by simp
  have cap: "0 \<le> tb_capacity b / 2 ^ 53" using wf by (simp add: bucket_wf_def)
  from op wf show "bucket_wf b'" by (rule bucket_op_elim)
  show "tb_tokens b' + c \<le> tb_capacity b + tb_capacity b / 2 ^ 52"
    by (rule bucket_op_elim [OF op wf]) (use r(1) [of "tb_last_refill b' - tb_last_refill b"] half cap in linarith)
  show "tb_tokens b' + c \<le> tb_tokens b + tb_rate b * (of_nat (tb_last_refill b' - tb_last_refill b) / 10 ^ 9) * (1 + 1 / 2 ^ 50)
      + tb_capacity b / 2 ^ 52"
    by (rule bucket_op_elim [OF op wf]) (use r(2) [of "tb_last_refill b' - tb_last_refill b"] half in linarith)
qed (auto simp: bucket_wf_def dest: bucket_op_config)


subsection \<open>One level\<close>

text \<open>The bucket after charging it for the events at the front of a queue, and how many were paid.\<close>

fun charge :: "nat \<Rightarrow> (nat \<Rightarrow> instant) \<Rightarrow> token_bucket \<Rightarrow> peat_event list \<Rightarrow> token_bucket \<times> nat" where
  "charge 0 clock b es = (b, 0)"
| "charge (Suc n) clock b [] = (b, 0)"
| "charge (Suc n) clock b (e # es) =
     (let (b', ok) = bucket_try_consume (clock 0) (as_f64 (estimate_event_size e)) b
      in if ok then (let (b'', m) = charge n (\<lambda>i. clock (Suc i)) b' es in (b'', Suc m)) else (b', 0))"

definition sent_stats :: "nat \<Rightarrow> peat_event list \<Rightarrow> transmitter_stats \<Rightarrow> transmitter_stats" where
  "sent_stats k es stats =
     stats\<lparr>ts_transmitted := incr k (of_nat (length es)) (ts_transmitted stats),
           ts_bytes_transmitted := incr k (of_nat (sum_list (map estimate_event_size es))) (ts_bytes_transmitted stats)\<rparr>"

definition send_front :: "nat \<Rightarrow> token_bucket \<Rightarrow> nat \<Rightarrow> event_transmitter \<Rightarrow> event_transmitter" where
  "send_front k b m s =
     s\<lparr>tx_queues := (tx_queues s)[k := drop m (tx_queues s ! k)], tx_buckets := (tx_buckets s)[k := b],
       tx_stats := sent_stats k (take m (tx_queues s ! k)) (tx_stats s)\<rparr>"

lemma incr_0 [simp]: "incr k 0 xs = xs"
  by (simp add: incr_def)

lemma incr_incr [simp]: "incr k a (incr k b xs) = incr k (b + a) xs"
  by (cases "k < length xs") (simp_all add: incr_def add.assoc list_update_beyond)

lemma length_incr [simp]: "length (incr k a xs) = length xs"
  by (simp add: incr_def)

lemma nth_incr: "j < length xs \<Longrightarrow> incr k a xs ! j = (if j = k then xs ! j + a else xs ! j)"
  by (auto simp: incr_def)

lemma charge_le: "snd (charge n clock b es) \<le> n \<and> snd (charge n clock b es) \<le> length es"
  by (induction n clock b es rule: charge.induct) (auto simp: Let_def split: prod.split)

lemma transmit_level_eq:
  assumes "k < length (tx_queues s)" "k < length (tx_buckets s)"
  shows "transmit_level k n clock s =
     (let (b, m) = charge n clock (tx_buckets s ! k) (tx_queues s ! k) in (send_front k b m s, take m (tx_queues s ! k)))"
  using assms
proof (induction n arbitrary: clock s)
  case 0
  then show ?case by (simp add: send_front_def sent_stats_def)
next
  case (Suc n)
  show ?case
  proof (cases "tx_queues s ! k")
    case Nil
    then have "(tx_queues s)[k := []] = tx_queues s" by (metis list_update_id)
    then show ?thesis using Nil by (simp add: send_front_def sent_stats_def)
  next
    case (Cons e es)
    obtain b ok where b: "bucket_try_consume (clock 0) (as_f64 (estimate_event_size e)) (tx_buckets s ! k) = (b, ok)"
      by (cases "bucket_try_consume (clock 0) (as_f64 (estimate_event_size e)) (tx_buckets s ! k)")
    show ?thesis
    proof (cases ok)
      case False
      moreover have "(tx_queues s)[k := e # es] = tx_queues s" using Cons by (metis list_update_id)
      ultimately show ?thesis using Cons b by (simp add: send_front_def sent_stats_def)
    next
      case True
      then show ?thesis using Suc.prems Cons b
        by (simp add: Suc.IH send_front_def sent_stats_def Let_def split: prod.split)
    qed
  qed
qed


subsection \<open>Well-formed transmitters\<close>

definition tx_wf :: "event_transmitter \<Rightarrow> bool" where
  "tx_wf s \<longleftrightarrow>
     length (tx_queues s) = 4 \<and> length (tx_max_queue_sizes s) = 4 \<and> length (tx_buckets s) = 4 \<and>
     length (ts_transmitted (tx_stats s)) = 4 \<and> length (ts_dropped (tx_stats s)) = 4 \<and>
     length (ts_bytes_transmitted (tx_stats s)) = 4 \<and>
     (\<forall>k < 4. (\<forall>e \<in> set (tx_queues s ! k). get_level e = k) \<and> bucket_wf (tx_buckets s ! k))"

lemma get_level_eq: "get_level e = event_level e"
  by (simp add: get_level_def event_level_def get_priority_def)

lemma get_level_less [simp]: "get_level e < 4"
  using event_level_bound [of e] by (simp add: get_level_eq PRIORITY_LEVELS_def)

lemma less_4: "k < 4 \<longleftrightarrow> k = 0 \<or> k = 1 \<or> k = 2 \<or> k = (3 :: nat)"
  by auto

lemma tx_wf_new: "tx_wf (event_transmitter_new a clock)"
  by (simp add: tx_wf_def event_transmitter_new_def token_bucket_new_def transmitter_stats_default_def bucket_wf_def less_4 Let_def all_conj_distrib imp_conjL)

lemma bucket_try_wf: "bucket_wf b \<Longrightarrow> 0 \<le> amount \<Longrightarrow> bucket_wf (fst (bucket_try_consume now amount b))"
proof -
  assume wf: "bucket_wf b" and amount: "0 \<le> amount"
  let ?t = "tb_tokens (bucket_refill now b)"
  have "?t = refilled (tb_capacity b) (tb_rate b) (elapsed now (tb_last_refill b)) (tb_tokens b)"
    by (simp add: bucket_refill_def refilled_def Let_def)
  then have t: "0 \<le> ?t" "?t \<le> tb_capacity b"
    using refilled_bounds [of "tb_tokens b" "tb_rate b" "tb_capacity b"] wf by (simp_all add: bucket_wf_def)
  moreover have "tb_capacity (bucket_refill now b) = tb_capacity b" "tb_rate (bucket_refill now b) = tb_rate b"
    by (simp_all add: bucket_refill_def Let_def)
  ultimately show ?thesis
    using charged_bounds [OF amount, of ?t "tb_capacity b"] wf by (simp add: try_consume_eq Let_def bucket_wf_def)
qed

lemma charge_wf: "bucket_wf b \<Longrightarrow> bucket_wf (fst (charge n clock b es))"
proof (induction n clock b es rule: charge.induct)
  case (3 n clock b e es)
  then show ?case
    using bucket_try_wf [OF "3.prems", of "as_f64 (estimate_event_size e)" "clock 0"]
    by (auto simp: Let_def split: prod.splits)
qed simp_all

lemma tx_wf_send_front:
  assumes "tx_wf s" "k < 4" "bucket_wf b"
  shows "tx_wf (send_front k b m s)"
proof -
  have "\<forall>e \<in> set (drop m (tx_queues s ! k)). get_level e = k"
    using assms(1,2) by (auto simp: tx_wf_def dest: in_set_dropD)
  then show ?thesis
    using assms by (auto simp: tx_wf_def send_front_def sent_stats_def nth_list_update)
qed

lemma nth_send_front:
  assumes "tx_wf s" "k < 4" "j < 4"
  shows "tx_queues (send_front k b m s) ! j = (if j = k then drop m (tx_queues s ! j) else tx_queues s ! j)"
    and "tx_buckets (send_front k b m s) ! j = (if j = k then b else tx_buckets s ! j)"
  using assms by (auto simp: send_front_def tx_wf_def)

lemma transmit_level_elim:
  assumes "tx_wf s" "k < 4"
  obtains b m where "transmit_level k n clock s = (send_front k b m s, take m (tx_queues s ! k))"
    "charge n clock (tx_buckets s ! k) (tx_queues s ! k) = (b, m)" "tx_wf (send_front k b m s)" "m \<le> n" "m \<le> length (tx_queues s ! k)"
proof -
  obtain b m where c: "charge n clock (tx_buckets s ! k) (tx_queues s ! k) = (b, m)"
    by (cases "charge n clock (tx_buckets s ! k) (tx_queues s ! k)")
  have "bucket_wf (tx_buckets s ! k)" using assms by (simp add: tx_wf_def)
  then have "bucket_wf b" using charge_wf [of "tx_buckets s ! k" n clock "tx_queues s ! k"] c by simp
  then show thesis
    using that [of b m] transmit_level_eq [of k s n clock] charge_le [of n clock "tx_buckets s ! k" "tx_queues s ! k"] assms c
    by (simp add: tx_wf_send_front) (simp add: tx_wf_def)
qed


subsection \<open>All levels\<close>

text \<open>
  What a call that sends events does: from every level it takes a prefix of the queue, as long as the
  bucket pays and up to a limit \<open>N k\<close>, and nothing else changes.
\<close>

definition sent :: "(nat \<Rightarrow> nat \<Rightarrow> instant) \<Rightarrow> (nat \<Rightarrow> nat) \<Rightarrow> event_transmitter \<Rightarrow> event_transmitter \<times> peat_event list \<Rightarrow> bool" where
  "sent clock N s r \<longleftrightarrow>
     (let c = (\<lambda>k. charge (N k) (clock k) (tx_buckets s ! k) (tx_queues s ! k)); s' = fst r
      in tx_wf s' \<and> snd r = concat (map (\<lambda>k. take (snd (c k)) (tx_queues s ! k)) [0, 1, 2, 3]) \<and>
         (\<forall>k < 4. tx_queues s' ! k = drop (snd (c k)) (tx_queues s ! k) \<and> tx_buckets s' ! k = fst (c k) \<and>
            ts_transmitted (tx_stats s') ! k = ts_transmitted (tx_stats s) ! k + of_nat (snd (c k)) \<and>
            ts_bytes_transmitted (tx_stats s') ! k = ts_bytes_transmitted (tx_stats s) ! k
              + of_nat (sum_list (map estimate_event_size (take (snd (c k)) (tx_queues s ! k))))) \<and>
         ts_dropped (tx_stats s') = ts_dropped (tx_stats s) \<and> tx_max_queue_sizes s' = tx_max_queue_sizes s \<and>
         tx_overflow_policy s' = tx_overflow_policy s \<and> tx_allocation s' = tx_allocation s)"

definition send_level :: "nat \<Rightarrow> nat \<Rightarrow> (nat \<Rightarrow> instant) \<Rightarrow> event_transmitter \<Rightarrow> event_transmitter" where
  "send_level k n clock s = fst (transmit_level k n clock s)"

lemma send_level_frame:
  fixes n :: nat and clock :: "nat \<Rightarrow> instant"
  assumes "tx_wf s" "k < 4"
  defines "c \<equiv> charge n clock (tx_buckets s ! k) (tx_queues s ! k)"
  shows "tx_wf (send_level k n clock s)"
    and "snd (transmit_level k n clock s) = take (snd c) (tx_queues s ! k)"
    and "j < 4 \<Longrightarrow> tx_queues (send_level k n clock s) ! j = (if j = k then drop (snd c) (tx_queues s ! j) else tx_queues s ! j)"
    and "j < 4 \<Longrightarrow> tx_buckets (send_level k n clock s) ! j = (if j = k then fst c else tx_buckets s ! j)"
    and "tx_stats (send_level k n clock s) = sent_stats k (take (snd c) (tx_queues s ! k)) (tx_stats s)"
    and "tx_max_queue_sizes (send_level k n clock s) = tx_max_queue_sizes s"
    and "tx_overflow_policy (send_level k n clock s) = tx_overflow_policy s"
    and "tx_allocation (send_level k n clock s) = tx_allocation s"
proof -
  obtain b m where *: "transmit_level k n clock s = (send_front k b m s, take m (tx_queues s ! k))"
    "charge n clock (tx_buckets s ! k) (tx_queues s ! k) = (b, m)" "tx_wf (send_front k b m s)"
    by (rule transmit_level_elim [OF assms(1,2)])
  then show "tx_wf (send_level k n clock s)"
    and "snd (transmit_level k n clock s) = take (snd c) (tx_queues s ! k)"
    and "tx_stats (send_level k n clock s) = sent_stats k (take (snd c) (tx_queues s ! k)) (tx_stats s)"
    and "tx_max_queue_sizes (send_level k n clock s) = tx_max_queue_sizes s"
    and "tx_overflow_policy (send_level k n clock s) = tx_overflow_policy s"
    and "tx_allocation (send_level k n clock s) = tx_allocation s"
    by (simp_all add: send_level_def c_def send_front_def)
  show "j < 4 \<Longrightarrow> tx_queues (send_level k n clock s) ! j = (if j = k then drop (snd c) (tx_queues s ! j) else tx_queues s ! j)"
    and "j < 4 \<Longrightarrow> tx_buckets (send_level k n clock s) ! j = (if j = k then fst c else tx_buckets s ! j)"
    using * nth_send_front [OF assms(1,2)] by (simp_all add: send_level_def c_def)
qed

lemma sent_levels:
  fixes N :: "nat \<Rightarrow> nat" and clock :: "nat \<Rightarrow> nat \<Rightarrow> instant"
  assumes "tx_wf s"
  defines "c \<equiv> \<lambda>k. charge (N k) (clock k) (tx_buckets s ! k) (tx_queues s ! k)"
  shows "sent clock N s
    (send_level 3 (N 3) (clock 3) (send_level 2 (N 2) (clock 2) (send_level 1 (N 1) (clock 1) (send_level 0 (N 0) (clock 0) s))),
     concat (map (\<lambda>k. take (snd (c k)) (tx_queues s ! k)) [0, 1, 2, 3]))"
proof -
  define s0 s1 s2 s3 where s: "s0 = send_level 0 (N 0) (clock 0) s" "s1 = send_level 1 (N 1) (clock 1) s0"
    "s2 = send_level 2 (N 2) (clock 2) s1" "s3 = send_level 3 (N 3) (clock 3) s2"
  have wf: "tx_wf s0" "tx_wf s1" "tx_wf s2" "tx_wf s3" unfolding s using assms(1) by (simp_all add: send_level_frame(1))
  have len: "length (ts_transmitted (tx_stats s)) = 4" "length (ts_bytes_transmitted (tx_stats s)) = 4"
    using assms(1) by (simp_all add: tx_wf_def)
  have lt: "0 < (4 :: nat)" "1 < (4 :: nat)" "2 < (4 :: nat)" "3 < (4 :: nat)" by simp_all
  note frames = send_level_frame(3-) [OF assms(1) lt(1), where n = "N 0" and clock = "clock 0", folded s]
    send_level_frame(3-) [OF wf(1) lt(2), where n = "N 1" and clock = "clock 1", folded s]
    send_level_frame(3-) [OF wf(2) lt(3), where n = "N 2" and clock = "clock 2", folded s]
    send_level_frame(3-) [OF wf(3) lt(4), where n = "N 3" and clock = "clock 3", folded s]
  have "min (length (tx_queues s ! k)) (snd (c k)) = snd (c k)" for k
    using charge_le [of "N k" "clock k" "tx_buckets s ! k" "tx_queues s ! k"] by (simp add: c_def min_def)
  then show ?thesis
    unfolding s [symmetric] sent_def using wf(4) by (simp add: less_4 frames c_def sent_stats_def nth_incr len all_conj_distrib del: One_nat_def)
qed

lemma send_level_0 [simp]: "send_level k 0 clock s = s"
  by (simp add: send_level_def)

lemma fst_transmit_level: "fst (transmit_level k n clock s) = send_level k n clock s"
  by (simp add: send_level_def)

text \<open>The limits that \<open>transmit\<close> sets for the levels.\<close>

definition level_limit :: "nat \<Rightarrow> (nat \<Rightarrow> nat) \<Rightarrow> nat \<Rightarrow> nat" where
  "level_limit n m k =
     (let rem = n - m 0; high = rem * 50 div 100; normal = rem * 35 div 100
      in if k = 0 then n else if k = 1 then high
         else if k = 2 then min (normal + (high - m 1)) (rem - m 1)
         else rem - m 1 - m 2)"

lemma transmit_sent:
  assumes wf: "tx_wf s"
  obtains N where "sent clock N s (transmit n clock s)"
    "\<forall>k < 4. N k = level_limit n (\<lambda>k. snd (charge (N k) (clock k) (tx_buckets s ! k) (tx_queues s ! k))) k"
proof -
  let ?c = "\<lambda>k n. charge n (clock k) (tx_buckets s ! k) (tx_queues s ! k)"
  define m0 where "m0 = snd (?c 0 n)"
  define n1 where "n1 = (n - m0) * 50 div 100"
  define m1 where "m1 = snd (?c 1 n1)"
  define n2 where "n2 = min ((n - m0) * 35 div 100 + (n1 - m1)) (n - m0 - m1)"
  define m2 where "m2 = snd (?c 2 n2)"
  define n3 where "n3 = n - m0 - m1 - m2"
  define N :: "nat \<Rightarrow> nat" where "N = (\<lambda>k. if k = 0 then n else if k = 1 then n1 else if k = 2 then n2 else n3)"
  have N: "N 0 = n" "N 1 = n1" "N 2 = n2" "N 3 = n3" by (simp_all add: N_def)
  define s0 s1 s2 where s: "s0 = send_level 0 n (clock 0) s" "s1 = send_level 1 n1 (clock 1) s0" "s2 = send_level 2 n2 (clock 2) s1"
  have lt: "0 < (4 :: nat)" "1 < (4 :: nat)" "2 < (4 :: nat)" "3 < (4 :: nat)" by simp_all
  have wfs: "tx_wf s0" "tx_wf s1" "tx_wf s2" unfolding s using wf by (simp_all add: send_level_frame(1))
  note f0 = send_level_frame [OF wf lt(1), where n = n and clock = "clock 0", folded s]
  note f1 = send_level_frame [OF wfs(1) lt(2), where n = n1 and clock = "clock 1", folded s]
  note f2 = send_level_frame [OF wfs(2) lt(3), where n = n2 and clock = "clock 2", folded s]
  note f3 = send_level_frame [OF wfs(3) lt(4), where n = n3 and clock = "clock 3"]
  have r: "snd (transmit_level 0 n (clock 0) s) = take m0 (tx_queues s ! 0)"
    "snd (transmit_level 1 n1 (clock 1) s0) = take m1 (tx_queues s ! 1)"
    "snd (transmit_level 2 n2 (clock 2) s1) = take m2 (tx_queues s ! 2)"
    "snd (transmit_level 3 n3 (clock 3) s2) = take (snd (?c 3 n3)) (tx_queues s ! 3)"
    by (simp_all add: f0 f1 f2 f3 m0_def m1_def m2_def del: One_nat_def)
  have m: "m0 \<le> length (tx_queues s ! 0)" "m1 \<le> length (tx_queues s ! 1)" "m1 \<le> n1" "m2 \<le> length (tx_queues s ! 2)" "m2 \<le> n2"
    using charge_le unfolding m0_def m1_def m2_def by blast+
  have "transmit n clock s = (send_level 3 n3 (clock 3) s2,
      take m0 (tx_queues s ! 0) @ take m1 (tx_queues s ! 1) @ take m2 (tx_queues s ! 2) @ take (snd (?c 3 n3)) (tx_queues s ! 3))"
  proof (cases "n - m0 = 0")
    case True
    then have "n1 = 0" "n2 = 0" "n3 = 0" "m1 = 0" "m2 = 0" using m by (simp_all add: n1_def n2_def n3_def)
    then show ?thesis using True m r(1)
      by (simp add: transmit_def s case_prod_beta fst_transmit_level min_absorb2)
  next
    case False
    have *: "n1 - (n1 - (n1 - m1)) = n1 - m1" using m by simp
    have len: "length (take m0 (tx_queues s ! 0)) = m0" "length (take m1 (tx_queues s ! 1)) = m1"
      "length (take m2 (tx_queues s ! 2)) = m2" using m by simp_all
    show ?thesis
      by (simp only: transmit_def Let_def case_prod_beta prod.sel fst_transmit_level s [symmetric] r len False if_False
          n1_def [symmetric] * n2_def [symmetric] n3_def [symmetric])
  qed
  then have "sent clock N s (transmit n clock s)"
    using sent_levels [OF wf, of clock N] by (simp add: N s m0_def m1_def m2_def del: One_nat_def)
  moreover have "\<forall>k < 4. N k = level_limit n (\<lambda>k. snd (?c k (N k))) k"
    by (simp add: less_4 level_limit_def N Let_def del: One_nat_def flip: m0_def m1_def m2_def) (simp add: n1_def n2_def n3_def)
  ultimately show thesis by (rule that)
qed

lemma transmit_critical_sent:
  assumes wf: "tx_wf s"
  shows "sent (\<lambda>k. clock) (\<lambda>k. if k = 0 then length (tx_queues s ! 0) else 0) s (transmit_critical clock s)"
proof -
  have "transmit_critical clock s = (send_level 0 (length (tx_queues s ! 0)) clock s,
      take (snd (charge (length (tx_queues s ! 0)) clock (tx_buckets s ! 0) (tx_queues s ! 0))) (tx_queues s ! 0))"
    using send_level_frame(2) [OF wf, of 0 "length (tx_queues s ! 0)" clock]
    by (intro prod_eqI) (simp_all add: transmit_critical_def fst_transmit_level)
  then show ?thesis
    using sent_levels [OF wf, of "\<lambda>k. clock" "\<lambda>k. if k = 0 then length (tx_queues s ! 0) else 0"] by simp
qed

end
