(* ===== verification/Transmitter_Runs.thy ===== *)
theory Transmitter_Runs
  imports Event_Transmitter
begin

text \<open>
  What the event transmitter guarantees over any sequence of calls: its shape, the order and number of
  the events a call sends, the bandwidth of each level, the balance of its counters, and where limits
  and progress fail.
\<close>


subsection \<open>Runs\<close>

text \<open>The readings of a call lie in a window, do not go back, and come after the last use of the buckets.\<close>

definition clock_ok :: "instant \<Rightarrow> instant \<Rightarrow> (nat \<Rightarrow> nat \<Rightarrow> instant) \<Rightarrow> event_transmitter \<Rightarrow> bool" where
  "clock_ok start stop clock s \<longleftrightarrow>
     (\<forall>k < 4. mono (clock k) \<and> start \<le> clock k 0 \<and> tb_last_refill (tx_buckets s ! k) \<le> clock k 0 \<and> (\<forall>i. clock k i \<le> stop))"

text \<open>The events that leave a transmitter in a window, with the number of calls that use the buckets.\<close>

inductive tx_run :: "instant \<Rightarrow> instant \<Rightarrow> event_transmitter \<Rightarrow> peat_event list \<Rightarrow> nat \<Rightarrow> event_transmitter \<Rightarrow> bool"
  for start stop s0 where
  run_init: "tx_run start stop s0 [] 0 s0"
| run_enqueue: "tx_run start stop s0 out n s \<Longrightarrow> tx_run start stop s0 out n (fst (transmitter_enqueue e s))"
| run_transmit: "tx_run start stop s0 out n s \<Longrightarrow> clock_ok start stop clock s \<Longrightarrow>
    tx_run start stop s0 (out @ snd (transmit m clock s)) (Suc n) (fst (transmit m clock s))"
| run_critical: "tx_run start stop s0 out n s \<Longrightarrow> clock_ok start stop (\<lambda>_. clock) s \<Longrightarrow>
    tx_run start stop s0 (out @ snd (transmit_critical clock s)) (Suc n) (fst (transmit_critical clock s))"
| run_bandwidth: "tx_run start stop s0 out n s \<Longrightarrow> clock_ok start stop (\<lambda>k _. clock k) s \<Longrightarrow>
    tx_run start stop s0 out (Suc n) (fst (available_bandwidth clock s))"
| run_limit: "tx_run start stop s0 out n s \<Longrightarrow> tx_run start stop s0 out n (set_max_queue_size p l s)"
| run_policy: "tx_run start stop s0 out n s \<Longrightarrow> tx_run start stop s0 out n (set_overflow_policy x s)"
| run_reset: "tx_run start stop s0 out n s \<Longrightarrow> tx_run start stop s0 out n (reset_stats s)"

lemma tx_buckets_enqueue [simp]: "tx_buckets (fst (transmitter_enqueue e s)) = tx_buckets s"
  by (simp add: transmitter_enqueue_def drop_lowest_priority_def drop_front_def Let_def split: overflow_policy.split)

lemma tx_wf_drop_front: "tx_wf s \<Longrightarrow> k < 4 \<Longrightarrow> tx_wf (drop_front k s)"
proof -
  assume wf: "tx_wf s" and k: "k < 4"
  have "set (tl (tx_queues s ! k)) \<subseteq> set (tx_queues s ! k)" by (cases "tx_queues s ! k") auto
  then show ?thesis using wf k by (auto simp: tx_wf_def drop_front_def nth_list_update)
qed

lemma tx_wf_push:
  "tx_wf s \<Longrightarrow> tx_wf (s\<lparr>tx_queues := (tx_queues s)[get_level e := tx_queues s ! get_level e @ [e]]\<rparr>)"
  by (auto simp: tx_wf_def nth_list_update)

lemma tx_wf_rejected:
  "tx_wf s \<Longrightarrow> tx_wf (s\<lparr>tx_stats := (tx_stats s)\<lparr>ts_dropped := incr k 1 (ts_dropped (tx_stats s))\<rparr>\<rparr>)"
  by (simp add: tx_wf_def)

lemma tx_wf_enqueue: "tx_wf s \<Longrightarrow> tx_wf (fst (transmitter_enqueue e s))"
proof -
  assume wf: "tx_wf s"
  have "tx_wf (fst (drop_lowest_priority s))"
    using wf by (simp add: drop_lowest_priority_def tx_wf_drop_front)
  then show ?thesis
    using wf by (simp add: transmitter_enqueue_def Let_def case_prod_beta tx_wf_rejected tx_wf_push tx_wf_drop_front split: overflow_policy.split)
qed

lemma tx_wf_sent: "sent clock N s r \<Longrightarrow> tx_wf (fst r)"
  by (simp add: sent_def Let_def)

lemma tx_wf_bandwidth: "tx_wf s \<Longrightarrow> tx_wf (fst (available_bandwidth clock s))"
proof -
  assume wf: "tx_wf s"
  have "bucket_wf (bucket_refill now b)" if "bucket_wf b" for now b
  proof -
    have "fst (bucket_try_consume now (tb_capacity b + 1) b) = bucket_refill now b"
      by (simp add: bucket_try_consume_def bucket_refill_def Let_def min_le_iff_disj not_le)
    moreover have "bucket_wf (fst (bucket_try_consume now (tb_capacity b + 1) b))"
      using that by (intro bucket_try_wf) (simp_all add: bucket_wf_def)
    ultimately show ?thesis by simp
  qed
  then show ?thesis
    using wf by (simp add: available_bandwidth_def bucket_available_def Let_def tx_wf_def less_4 all_conj_distrib del: One_nat_def)
qed

lemma tx_run_wf: "tx_run start stop s0 out n s \<Longrightarrow> tx_wf s0 \<Longrightarrow> tx_wf s"
proof (induction rule: tx_run.induct)
  case (run_transmit out n s clock m)
  then show ?case by (metis transmit_sent tx_wf_sent)
next
  case (run_critical out n s clock)
  then show ?case by (metis transmit_critical_sent tx_wf_sent)
next
  case (run_limit out n s p l)
  then show ?case by (simp add: tx_wf_def set_max_queue_size_def)
next
  case (run_policy out n s x)
  then show ?case by (simp add: tx_wf_def set_overflow_policy_def)
next
  case (run_reset out n s)
  then show ?case by (simp add: tx_wf_def reset_stats_def transmitter_stats_default_def)
qed (simp_all add: tx_wf_enqueue tx_wf_bandwidth)


subsection \<open>The buckets along a run\<close>

lemma op_run_single: "op b c b' \<Longrightarrow> op_run op b [c] b'"
  by simp

lemma bucket_op_try:
  "start \<le> now \<Longrightarrow> tb_last_refill b \<le> now \<Longrightarrow> 0 \<le> amount \<Longrightarrow>
   bucket_op start b (if snd (bucket_try_consume now amount b) then amount else 0) (fst (bucket_try_consume now amount b))"
  unfolding bucket_op_def by blast

lemma try_last_refill: "tb_last_refill (fst (bucket_try_consume now amount b)) = now"
  by (simp add: bucket_try_consume_def bucket_refill_def Let_def)

lemma charge_run:
  assumes "mono clock" "start \<le> clock 0" "tb_last_refill b \<le> clock 0" "\<forall>i. clock i \<le> stop"
  shows "\<exists>cs. op_run (bucket_op start) b cs (fst (charge n clock b es))
    \<and> sum_list cs = sum_list (map (\<lambda>e. as_f64 (estimate_event_size e)) (take (snd (charge n clock b es)) es))
    \<and> length cs \<le> Suc (snd (charge n clock b es)) \<and> (cs \<noteq> [] \<longrightarrow> tb_last_refill (fst (charge n clock b es)) \<le> stop)"
  using assms
proof (induction n clock b es rule: charge.induct)
  case (3 n clock b e es)
  let ?a = "as_f64 (estimate_event_size e)"
  obtain b' ok where b': "bucket_try_consume (clock 0) ?a b = (b', ok)" by (cases "bucket_try_consume (clock 0) ?a b")
  have op: "bucket_op start b (if ok then ?a else 0) b'" and last: "tb_last_refill b' = clock 0"
    using bucket_op_try [of start "clock 0" b ?a] try_last_refill [of "clock 0" ?a b] "3.prems" b' by simp_all
  show ?case
  proof (cases ok)
    case True
    have "clock 0 \<le> clock (Suc 0)" using "3.prems"(1) by (simp add: mono_def)
    then have "start \<le> clock (Suc 0)" "tb_last_refill b' \<le> clock (Suc 0)" using "3.prems"(2) last by simp_all
    moreover have "mono (\<lambda>i. clock (Suc i))" using "3.prems"(1) by (simp add: mono_def)
    moreover have "\<forall>i. clock (Suc i) \<le> stop" using "3.prems"(4) by simp
    ultimately obtain cs where cs: "op_run (bucket_op start) b' cs (fst (charge n (\<lambda>i. clock (Suc i)) b' es))"
      "sum_list cs = sum_list (map (\<lambda>e. as_f64 (estimate_event_size e)) (take (snd (charge n (\<lambda>i. clock (Suc i)) b' es)) es))"
      "length cs \<le> Suc (snd (charge n (\<lambda>i. clock (Suc i)) b' es))"
      "cs \<noteq> [] \<longrightarrow> tb_last_refill (fst (charge n (\<lambda>i. clock (Suc i)) b' es)) \<le> stop"
      using "3.IH" [OF b' [symmetric] refl True] by blast
    have "tb_last_refill (fst (charge n (\<lambda>i. clock (Suc i)) b' es)) \<le> stop"
      using cs(1,4) last "3.prems"(4) by (cases cs) auto
    then show ?thesis using cs op True b'
      by (intro exI [of _ "?a # cs"]) (auto simp: case_prod_beta Let_def)
  next
    case False
    then show ?thesis using op last b' "3.prems"(4) by (intro exI [of _ "[0]"]) simp
  qed
qed (intro exI [of _ "[]"]; simp)+

lemma sent_filter:
  assumes "tx_wf s" "sent clock N s r" "k < 4"
  shows "filter (\<lambda>e. get_level e = k) (snd r) = take (snd (charge (N k) (clock k) (tx_buckets s ! k) (tx_queues s ! k))) (tx_queues s ! k)"
proof -
  have lev: "filter (\<lambda>e. get_level e = k) (take m (tx_queues s ! j)) = (if j = k then take m (tx_queues s ! j) else [])" if "j < 4" for j m
    using assms(1) that by (auto simp: tx_wf_def filter_empty_conv filter_id_conv dest: in_set_takeD)
  show ?thesis
    using assms(2,3) by (auto simp: sent_def Let_def less_4 lev simp del: One_nat_def)
qed

text \<open>The operations on the bucket of one level that a run consists of.\<close>

definition level_ops :: "instant \<Rightarrow> instant \<Rightarrow> nat \<Rightarrow> token_bucket \<Rightarrow> token_bucket \<Rightarrow> peat_event list \<Rightarrow> nat \<Rightarrow> bool" where
  "level_ops start stop k b b' out n \<longleftrightarrow>
     (\<exists>cs. op_run (bucket_op start) b cs b'
       \<and> sum_list cs = sum_list (map (\<lambda>e. as_f64 (estimate_event_size e)) (filter (\<lambda>e. get_level e = k) out))
       \<and> length cs \<le> length (filter (\<lambda>e. get_level e = k) out) + n \<and> (cs \<noteq> [] \<longrightarrow> tb_last_refill b' \<le> stop))"

lemma level_ops_trans:
  assumes "level_ops start stop k b m out n" "level_ops start stop k m b' out' n'"
  shows "level_ops start stop k b b' (out @ out') (n + n')"
proof -
  obtain cs ds where cs: "op_run (bucket_op start) b cs m" "op_run (bucket_op start) m ds b'"
    "cs \<noteq> [] \<longrightarrow> tb_last_refill m \<le> stop" "ds \<noteq> [] \<longrightarrow> tb_last_refill b' \<le> stop"
    and *: "sum_list cs = sum_list (map (\<lambda>e. as_f64 (estimate_event_size e)) (filter (\<lambda>e. get_level e = k) out))"
    "sum_list ds = sum_list (map (\<lambda>e. as_f64 (estimate_event_size e)) (filter (\<lambda>e. get_level e = k) out'))"
    "length cs \<le> length (filter (\<lambda>e. get_level e = k) out) + n" "length ds \<le> length (filter (\<lambda>e. get_level e = k) out') + n'"
    using assms unfolding level_ops_def by blast
  have "cs @ ds \<noteq> [] \<longrightarrow> tb_last_refill b' \<le> stop" using cs by (cases ds) auto
  then show ?thesis unfolding level_ops_def
    using op_run_append [OF cs(1,2)] * by (intro exI [of _ "cs @ ds"]) simp
qed

lemma level_ops_sent:
  assumes "tx_wf s" "sent clock N s r" "k < 4" "clock_ok start stop clock s"
  shows "level_ops start stop k (tx_buckets s ! k) (tx_buckets (fst r) ! k) (snd r) 1"
proof -
  let ?c = "charge (N k) (clock k) (tx_buckets s ! k) (tx_queues s ! k)"
  have "length (take (snd ?c) (tx_queues s ! k)) = snd ?c"
    using charge_le [of "N k" "clock k" "tx_buckets s ! k" "tx_queues s ! k"] by simp
  moreover have "tx_buckets (fst r) ! k = fst ?c" using assms(2,3) by (simp add: sent_def Let_def)
  ultimately show ?thesis
    unfolding level_ops_def sent_filter [OF assms(1-3)]
    using charge_run [of "clock k" start "tx_buckets s ! k" stop "N k" "tx_queues s ! k"] assms(3,4) by (simp add: clock_ok_def)
qed

lemma level_ops_bandwidth:
  assumes "tx_wf s" "k < 4" "clock_ok start stop (\<lambda>k _. clock k) s"
  shows "level_ops start stop k (tx_buckets s ! k) (tx_buckets (fst (available_bandwidth clock s)) ! k) [] 1"
proof -
  have "tx_buckets (fst (available_bandwidth clock s)) ! k = fst (bucket_available (clock k) (tx_buckets s ! k))"
    using assms(2) by (auto simp: available_bandwidth_def Let_def less_4)
  moreover have "bucket_op start (tx_buckets s ! k) 0 (fst (bucket_available (clock k) (tx_buckets s ! k)))"
    using assms(2,3) unfolding bucket_op_def clock_ok_def by (intro exI [of _ "clock k"] exI [of _ 0]) simp
  moreover have "tb_last_refill (fst (bucket_available (clock k) (tx_buckets s ! k))) \<le> stop"
    using assms(2,3) by (simp add: bucket_available_def bucket_refill_def Let_def clock_ok_def)
  ultimately show ?thesis unfolding level_ops_def by (intro exI [of _ "[0]"]) simp
qed

lemma tx_run_ops:
  assumes "tx_run start stop s0 out n s" "tx_wf s0" "k < 4"
  shows "level_ops start stop k (tx_buckets s0 ! k) (tx_buckets s ! k) out n"
  using assms(1)
proof (induction rule: tx_run.induct)
  case run_init
  then show ?case unfolding level_ops_def by (intro exI [of _ "[]"]) simp
next
  case (run_transmit out n s clock m)
  have wf: "tx_wf s" using tx_run_wf run_transmit.hyps(1) assms(2) .
  then obtain N where "sent clock N s (transmit m clock s)" by (rule transmit_sent)
  from level_ops_trans [OF run_transmit.IH level_ops_sent [OF wf this assms(3) run_transmit.hyps(2)]] show ?case by simp
next
  case (run_critical out n s clock)
  have wf: "tx_wf s" using tx_run_wf run_critical.hyps(1) assms(2) .
  from level_ops_trans [OF run_critical.IH level_ops_sent [OF wf transmit_critical_sent [OF wf] assms(3) run_critical.hyps(2)]]
  show ?case by simp
next
  case (run_bandwidth out n s clock)
  have wf: "tx_wf s" using tx_run_wf run_bandwidth.hyps(1) assms(2) .
  from level_ops_trans [OF run_bandwidth.IH level_ops_bandwidth [OF wf assms(3) run_bandwidth.hyps(2)]] show ?case by simp
qed (simp_all add: set_max_queue_size_def set_overflow_policy_def reset_stats_def)

lemma level_ops_rate:
  assumes "level_ops start stop k b b' out n" "bucket_wf b"
    and "\<forall>e \<in> set out. estimate_event_size e < 2 ^ 53"
  defines "es \<equiv> filter (\<lambda>e. get_level e = k) out"
  shows "of_nat (sum_list (map estimate_event_size es)) \<le> tb_capacity b
    + tb_rate b * (of_nat (stop - start) / 10 ^ 9) * (1 + 1 / 2 ^ 50) + of_nat (length es + n) * (tb_capacity b / 2 ^ 52)"
proof -
  obtain cs where cs: "op_run (bucket_op start) b cs b'" "cs \<noteq> [] \<longrightarrow> tb_last_refill b' \<le> stop"
    "sum_list cs = sum_list (map (\<lambda>e. as_f64 (estimate_event_size e)) es)" "length cs \<le> length es + n"
    using assms(1) unfolding level_ops_def es_def by blast
  have "map (\<lambda>e. as_f64 (estimate_event_size e)) es = map of_nat (map estimate_event_size es)"
    using assms(3) by (auto simp: es_def as_f64_exact)
  then have "sum_list cs = of_nat (sum_list (map estimate_event_size es))"
    unfolding cs(3) by (simp only: sum_list_of_nat)
  moreover have "of_nat (length cs) * (tb_capacity b / 2 ^ 52) \<le> of_nat (length es + n) * (tb_capacity b / 2 ^ 52)"
    using assms(2) cs(4) by (intro mult_right_mono) (simp_all only: of_nat_le_iff, simp add: bucket_wf_def)
  ultimately show ?thesis
    using tx_bucket.rate_limit [OF assms(2) cs(1), of stop] cs(2) by linarith
qed

lemma tx_run_config:
  assumes "tx_run start stop s0 out n s" "tx_wf s0" "k < 4"
  shows "tb_capacity (tx_buckets s ! k) = tb_capacity (tx_buckets s0 ! k) \<and> tb_rate (tx_buckets s ! k) = tb_rate (tx_buckets s0 ! k)"
  using tx_run_ops [OF assms] tx_bucket.run_config unfolding level_ops_def by blast

text \<open>The bandwidth configured for a level.\<close>

definition level_bps :: "bandwidth_allocation \<Rightarrow> nat \<Rightarrow> u64" where
  "level_bps a k = [ba_critical_reserved_bps a, ba_high_min_bps a, ba_normal_min_bps a, ba_low_min_bps a] ! k"

lemma new_config:
  "k < 4 \<Longrightarrow> tb_capacity (tx_buckets (event_transmitter_new a clock) ! k) = as_f64 (unat (level_bps a k))
     \<and> tb_rate (tx_buckets (event_transmitter_new a clock) ! k) = as_f64 (unat (level_bps a k))"
  by (auto simp: less_4 event_transmitter_new_def token_bucket_new_def level_bps_def Let_def)


subsection \<open>What one call sends\<close>

lemma charge_stops:
  "snd (charge n clock b es) < n \<Longrightarrow> snd (charge n clock b es) < length es \<Longrightarrow>
   tb_tokens (fst (charge n clock b es)) < as_f64 (estimate_event_size (es ! snd (charge n clock b es)))"
proof (induction n clock b es rule: charge.induct)
  case (3 n clock b e es)
  obtain b' ok where b': "bucket_try_consume (clock 0) (as_f64 (estimate_event_size e)) b = (b', ok)"
    by (cases "bucket_try_consume (clock 0) (as_f64 (estimate_event_size e)) b")
  show ?case
  proof (cases ok)
    case True
    then show ?thesis using "3.IH" [OF b' [symmetric] refl True] "3.prems" b' by (simp add: case_prod_beta Let_def)
  next
    case False
    then show ?thesis using b' by (auto simp: try_consume_eq Let_def split: if_splits)
  qed
qed simp_all

lemma sent_sorted:
  assumes "tx_wf s" "sent clock N s r"
  shows "sorted (map get_level (snd r))"
proof -
  have level: "\<forall>e \<in> set (take m (tx_queues s ! k)). get_level e = k" if "k < 4" for k m
    using assms(1) that by (auto simp: tx_wf_def dest: in_set_takeD)
  have const: "map get_level (take m (tx_queues s ! k)) = replicate (length (take m (tx_queues s ! k))) k" if "k < 4" for k m
    using level [OF that] by (simp only: map_replicate_const [symmetric]) (intro map_cong; simp)
  show ?thesis
    using assms(2) unfolding sent_def Let_def
    by (auto simp: const sorted_append set_replicate_conv_if simp del: One_nat_def)
qed

lemma count_levels: "length xs = (\<Sum>k \<leftarrow> [0, 1, 2, 3]. length (filter (\<lambda>e. get_level e = k) xs))"
proof (induction xs)
  case (Cons x xs)
  have "get_level x = 0 \<or> get_level x = 1 \<or> get_level x = 2 \<or> get_level x = 3" using get_level_less [of x] less_4 by blast
  then show ?case using Cons by auto
qed simp

text \<open>
  C11. One call of \<open>transmit\<close>. The events come out by priority, those of a level in the order they were
  queued and only from the front of its queue. At most \<open>max_events\<close> are sent: critical events first,
  then up to half of what is left for high, then 35 percent and what high left over for normal, the rest
  for low. A level stops before its share only when its queue is empty or its bucket cannot pay for the
  next event.
\<close>

theorem transmit_shares:
  fixes n :: nat and clock :: "nat \<Rightarrow> nat \<Rightarrow> instant"
  assumes "tx_wf s"
  defines "out \<equiv> snd (transmit n clock s)" and "s' \<equiv> fst (transmit n clock s)"
  defines "lev \<equiv> \<lambda>k. filter (\<lambda>e. get_level e = k) out"
  defines "limit \<equiv> level_limit n (\<lambda>k. length (lev k))"
  shows "sorted (map get_level out) \<and> length out \<le> n \<and>
    (\<forall>k < 4. tx_queues s ! k = lev k @ tx_queues s' ! k \<and> length (lev k) \<le> limit k \<and>
      (length (lev k) < limit k \<and> tx_queues s' ! k \<noteq> []
         \<longrightarrow> tb_tokens (tx_buckets s' ! k) < as_f64 (estimate_event_size (hd (tx_queues s' ! k)))))"
proof -
  let ?c = "\<lambda>N k. charge (N k) (clock k) (tx_buckets s ! k) (tx_queues s ! k)"
  obtain N where N: "sent clock N s (transmit n clock s)" "\<forall>k < 4. N k = level_limit n (\<lambda>k. snd (?c N k)) k"
    by (rule transmit_sent [OF assms(1)])
  have lev: "lev k = take (snd (?c N k)) (tx_queues s ! k)" "length (lev k) = snd (?c N k)" if "k < 4" for k
    using sent_filter [OF assms(1) N(1) that] charge_le [of "N k" "clock k" "tx_buckets s ! k" "tx_queues s ! k"]
    by (simp_all add: lev_def out_def)
  have limit: "limit k = N k" if "k < 4" for k
    using N(2) that lev(2) by (simp add: limit_def level_limit_def Let_def)
  have level: "tx_queues s ! k = lev k @ tx_queues s' ! k \<and> length (lev k) \<le> limit k \<and>
      (length (lev k) < limit k \<and> tx_queues s' ! k \<noteq> []
         \<longrightarrow> tb_tokens (tx_buckets s' ! k) < as_f64 (estimate_event_size (hd (tx_queues s' ! k))))" if k: "k < 4" for k
  proof -
    have s': "tx_queues s' ! k = drop (snd (?c N k)) (tx_queues s ! k)" "tx_buckets s' ! k = fst (?c N k)"
      using N(1) k by (simp_all add: sent_def Let_def s'_def)
    then show ?thesis
      using lev [OF k] limit [OF k] charge_stops [of "N k" "clock k" "tx_buckets s ! k" "tx_queues s ! k"]
        charge_le [of "N k" "clock k" "tx_buckets s ! k" "tx_queues s ! k"] by (auto simp: hd_drop_conv_nth)
  qed
  have "length out = length (lev 0) + length (lev 1) + length (lev 2) + length (lev 3)"
    using count_levels [of out] by (simp add: lev_def)
  moreover have "length (lev k) \<le> level_limit n (\<lambda>k. length (lev k)) k" if "k < 4" for k
    using level [OF that] by (simp add: limit_def)
  from this [of 0] this [of 1] this [of 2] this [of 3]
  have "length (lev 0) \<le> n" "length (lev 1) \<le> (n - length (lev 0)) * 50 div 100"
    "length (lev 2) \<le> n - length (lev 0) - length (lev 1)" "length (lev 3) \<le> n - length (lev 0) - length (lev 1) - length (lev 2)"
    unfolding level_limit_def Let_def by (simp_all del: One_nat_def)
  ultimately have "length out \<le> n" by linarith
  then show ?thesis using level sent_sorted [OF assms(1) N(1)] by (simp add: out_def)
qed

subsection \<open>Shape and bandwidth\<close>

text \<open>
  C25. Every transmitter that any sequence of calls can reach is well formed: four queues that hold events
  of their own level only, four limits and counters of each kind, and four buckets whose tokens lie
  between zero and their capacity, which is still the configured bandwidth.
\<close>

theorem reachable_transmitter_wf:
  assumes "tx_run start stop (event_transmitter_new a clock) out n s"
  shows "tx_wf s \<and> (\<forall>k < 4. tb_capacity (tx_buckets s ! k) = as_f64 (unat (level_bps a k))
    \<and> 0 \<le> tb_tokens (tx_buckets s ! k) \<and> tb_tokens (tx_buckets s ! k) \<le> as_f64 (unat (level_bps a k)))"
  using tx_run_wf [OF assms tx_wf_new] tx_run_config [OF assms tx_wf_new] new_config [of _ a clock]
  by (simp add: tx_wf_def bucket_wf_def)

text \<open>
  C5. Bandwidth. In any window of time, whatever happened before it, the bytes sent at a level are at most
  one second of its configured bandwidth in stock plus the bandwidth times the length of the window, up
  to the rounding of double precision: a part in \<open>2^50\<close>, and a part in \<open>2^52\<close> of the bandwidth for every
  event sent and every call.
\<close>

theorem bandwidth_respected:
  assumes "tx_run start0 stop0 (event_transmitter_new a clock) out0 n0 s0"
    and "tx_run start stop s0 out n s"
    and "k < 4" and "\<forall>e \<in> set out. estimate_event_size e < 2 ^ 53"
  defines "es \<equiv> filter (\<lambda>e. get_level e = k) out" and "bps \<equiv> as_f64 (unat (level_bps a k))"
  shows "of_nat (sum_list (map estimate_event_size es)) \<le>
    bps + bps * (of_nat (stop - start) / 10 ^ 9) * (1 + 1 / 2 ^ 50) + of_nat (length es + n) * (bps / 2 ^ 52)"
proof -
  have wf: "tx_wf s0" by (rule tx_run_wf [OF assms(1) tx_wf_new])
  then have "bucket_wf (tx_buckets s0 ! k)" using assms(3) by (simp add: tx_wf_def)
  from level_ops_rate [OF tx_run_ops [OF assms(2) wf assms(3)] this assms(4)]
  show ?thesis
    using tx_run_config [OF assms(1) tx_wf_new assms(3)] new_config [OF assms(3), of a clock] by (simp only: es_def bps_def)
qed


subsection \<open>Sequences of calls\<close>

text \<open>
  The calls that use the queues, the buckets and the settings, at any times; a call gives the new state and
  the events it sends. Resetting the counters is left out.
\<close>

datatype tx_op =
    OpEnqueue peat_event
  | OpTransmit nat "nat \<Rightarrow> nat \<Rightarrow> instant"
  | OpCritical "nat \<Rightarrow> instant"
  | OpBandwidth "nat \<Rightarrow> instant"
  | OpLimit event_priority nat
  | OpPolicy overflow_policy

fun tx_apply :: "tx_op \<Rightarrow> event_transmitter \<Rightarrow> event_transmitter \<times> peat_event list" where
  "tx_apply (OpEnqueue e) s = (fst (transmitter_enqueue e s), [])"
| "tx_apply (OpTransmit n clock) s = transmit n clock s"
| "tx_apply (OpCritical clock) s = transmit_critical clock s"
| "tx_apply (OpBandwidth clock) s = (fst (available_bandwidth clock s), [])"
| "tx_apply (OpLimit p n) s = (set_max_queue_size p n s, [])"
| "tx_apply (OpPolicy x) s = (set_overflow_policy x s, [])"

fun tx_calls :: "tx_op list \<Rightarrow> event_transmitter \<Rightarrow> event_transmitter \<times> peat_event list" where
  "tx_calls [] s = (s, [])"
| "tx_calls (op # ops) s =
     (let (s, out) = tx_apply op s; (s, outs) = tx_calls ops s in (s, out @ outs))"

lemma tx_calls_Cons [simp]:
  "fst (tx_calls (op # ops) s) = fst (tx_calls ops (fst (tx_apply op s)))"
  "snd (tx_calls (op # ops) s) = snd (tx_apply op s) @ snd (tx_calls ops (fst (tx_apply op s)))"
  by (simp_all add: case_prod_beta Let_def)

declare tx_calls.simps(2) [simp del]

fun offered_at :: "tx_op \<Rightarrow> nat option" where
  "offered_at (OpEnqueue e) = Some (get_level e)"
| "offered_at _ = None"

definition offered :: "nat \<Rightarrow> tx_op list \<Rightarrow> nat" where
  "offered k ops = length (filter (\<lambda>op. offered_at op = Some k) ops)"

text \<open>Calls other than \<open>enqueue\<close> charge the buckets for what they send, or touch neither queues nor capacities.\<close>

definition calm :: "event_transmitter \<Rightarrow> event_transmitter \<times> peat_event list \<Rightarrow> bool" where
  "calm s r \<longleftrightarrow> snd r = [] \<and> tx_queues (fst r) = tx_queues s \<and> tx_stats (fst r) = tx_stats s
     \<and> (\<forall>k < 4. tb_capacity (tx_buckets (fst r) ! k) = tb_capacity (tx_buckets s ! k))"

lemma tx_apply_cases [consumes 1, case_names enqueue send calm]:
  assumes "tx_wf s"
  obtains (enqueue) e where "op = OpEnqueue e"
  | (send) clock N where "sent clock N s (tx_apply op s)" "offered_at op = None"
  | (calm) "calm s (tx_apply op s)" "offered_at op = None"
proof (cases op)
  case (OpTransmit n clock)
  obtain N where "sent clock N s (transmit n clock s)" by (rule transmit_sent [OF assms])
  then show ?thesis using send OpTransmit by simp
next
  case (OpCritical clock)
  from send [unfolded OpCritical tx_apply.simps, OF transmit_critical_sent [OF assms]] show ?thesis by simp
next
  case (OpBandwidth clock)
  have "calm s (tx_apply op s)"
    by (auto simp: OpBandwidth calm_def available_bandwidth_def bucket_available_def bucket_refill_def Let_def less_4)
  then show ?thesis using calm OpBandwidth by simp
qed (use enqueue calm in \<open>simp_all add: calm_def set_max_queue_size_def set_overflow_policy_def\<close>)

lemma try_capacity [simp]: "tb_capacity (fst (bucket_try_consume now amount b)) = tb_capacity b"
  by (simp add: try_consume_eq bucket_refill_def Let_def)

lemma charge_capacity: "tb_capacity (fst (charge n clock b es)) = tb_capacity b"
proof (induction n clock b es rule: charge.induct)
  case (3 n clock b e es)
  obtain b' ok where b': "bucket_try_consume (clock 0) (as_f64 (estimate_event_size e)) b = (b', ok)"
    by (cases "bucket_try_consume (clock 0) (as_f64 (estimate_event_size e)) b")
  then have "tb_capacity b' = tb_capacity b" using try_capacity [of "clock 0" "as_f64 (estimate_event_size e)" b] by simp
  then show ?case using "3.IH" [OF b' [symmetric] refl] b' by (simp add: case_prod_beta Let_def)
qed simp_all

lemma charge_fits:
  "e \<in> set (take (snd (charge n clock b es)) es) \<Longrightarrow> as_f64 (estimate_event_size e) \<le> tb_capacity b"
proof (induction n clock b es rule: charge.induct)
  case (3 n clock b x es)
  let ?a = "as_f64 (estimate_event_size x)"
  obtain b' ok where b': "bucket_try_consume (clock 0) ?a b = (b', ok)" by (cases "bucket_try_consume (clock 0) ?a b")
  have "tb_capacity b' = tb_capacity b" using try_capacity [of "clock 0" ?a b] b' by simp
  moreover have "ok \<Longrightarrow> ?a \<le> tb_capacity b"
    using b' by (auto simp: try_consume_eq bucket_refill_def Let_def)
  ultimately show ?case
    using "3.IH" [OF b' [symmetric] refl] "3.prems" b' by (auto simp: case_prod_beta Let_def split: if_splits)
qed simp_all

lemma tx_apply_wf: "tx_wf s \<Longrightarrow> tx_wf (fst (tx_apply op s))"
proof (cases op)
  case (OpTransmit n clock)
  assume "tx_wf s"
  then show ?thesis by (metis OpTransmit transmit_sent tx_apply.simps(2) tx_wf_sent)
next
  case (OpCritical clock)
  assume "tx_wf s"
  then show ?thesis by (metis OpCritical transmit_critical_sent tx_apply.simps(3) tx_wf_sent)
qed (simp_all add: tx_wf_enqueue tx_wf_bandwidth, simp_all add: tx_wf_def set_max_queue_size_def set_overflow_policy_def)

lemma tx_apply_capacity:
  assumes "tx_wf s" "k < 4"
  shows "tb_capacity (tx_buckets (fst (tx_apply op s)) ! k) = tb_capacity (tx_buckets s ! k)"
  using assms(1)
proof (cases rule: tx_apply_cases [where op = op])
  case (send clock N)
  then show ?thesis using assms(2) by (simp add: sent_def Let_def charge_capacity)
qed (use assms(2) in \<open>simp_all add: calm_def\<close>)


subsection \<open>An event larger than the bucket\<close>

lemma charge_oversized:
  assumes "tb_capacity b < as_f64 (estimate_event_size e)"
  shows "snd (charge n clock b (e # es)) = 0"
proof (cases n)
  case (Suc m)
  have "\<not> as_f64 (estimate_event_size e) \<le> tb_tokens (bucket_refill (clock 0) b)"
    using assms by (simp add: bucket_refill_def Let_def min_le_iff_disj)
  then show ?thesis by (simp add: Suc try_consume_eq Let_def)
qed simp

text \<open>Whatever is sent was paid for by a bucket, which never holds more than its capacity.\<close>

lemma sent_fits:
  assumes "tx_wf s" "sent clock N s r" "e \<in> set (snd r)"
  shows "as_f64 (estimate_event_size e) \<le> tb_capacity (tx_buckets s ! get_level e)"
proof -
  have "e \<in> set (filter (\<lambda>x. get_level x = get_level e) (snd r))" using assms(3) by simp
  then have "e \<in> set (take (snd (charge (N (get_level e)) (clock (get_level e)) (tx_buckets s ! get_level e) (tx_queues s ! get_level e)))
      (tx_queues s ! get_level e))"
    unfolding sent_filter [OF assms(1,2) get_level_less] .
  then show ?thesis by (rule charge_fits)
qed

text \<open>What an \<open>enqueue\<close> does to a queue: nothing, an event at the end, or one lost at the front and counted.\<close>

lemma enqueue_queue:
  fixes x :: peat_event
  assumes "tx_wf s" "k < 4"
  defines "s' \<equiv> fst (transmitter_enqueue x s)" and "new \<equiv> if get_level x = k then [x] else []"
  shows "tx_queues s' ! k = tx_queues s ! k \<or> tx_queues s' ! k = tx_queues s ! k @ new
    \<or> tx_queues s' ! k = tl (tx_queues s ! k) @ new \<and> ts_dropped (tx_stats s') ! k = ts_dropped (tx_stats s) ! k + 1"
  using assms get_level_less [of x]
  by (auto simp: transmitter_enqueue_def drop_lowest_priority_def drop_front_def Let_def tx_wf_def nth_list_update nth_incr
      split: overflow_policy.split)

lemma calls_fit:
  "tx_wf s \<Longrightarrow> x \<in> set (snd (tx_calls ops s)) \<Longrightarrow> as_f64 (estimate_event_size x) \<le> tb_capacity (tx_buckets s ! get_level x)"
proof (induction ops arbitrary: s)
  case (Cons op ops)
  from Cons.prems(1) have "x \<in> set (snd (tx_apply op s)) \<Longrightarrow> ?case"
  proof (cases rule: tx_apply_cases [where op = op])
    case (send clock N)
    assume "x \<in> set (snd (tx_apply op s))"
    with sent_fits [OF Cons.prems(1) send(1)] show ?thesis by simp
  qed (simp_all add: calm_def)
  then show ?case
    using Cons.IH [OF tx_apply_wf [OF Cons.prems(1), of op]] Cons.prems tx_apply_capacity [OF Cons.prems(1), of "get_level x" op] by auto
qed simp

text \<open>One call on a blocked level: it stays blocked, with more events behind, or the call is an \<open>enqueue\<close> that drops the front.\<close>

lemma apply_blocked:
  assumes "tx_wf s" "k < 4" "tx_queues s ! k = e # es" "tb_capacity (tx_buckets s ! k) < as_f64 (estimate_event_size e)"
  shows "filter (\<lambda>x. get_level x = k) (snd (tx_apply op s)) = [] \<and>
    ((\<exists>es'. tx_queues (fst (tx_apply op s)) ! k = e # es') \<or>
     (\<exists>x rest. op = OpEnqueue x \<and> tx_queues (fst (tx_apply op s)) ! k = es @ rest
        \<and> ts_dropped (tx_stats (fst (tx_apply op s))) ! k = ts_dropped (tx_stats s) ! k + 1))"
  using assms(1)
proof (cases rule: tx_apply_cases [where op = op])
  case (enqueue x)
  then show ?thesis using enqueue_queue [OF assms(1,2), of x] assms(3) by auto
next
  case (send clock N)
  have "snd (charge (N k) (clock k) (tx_buckets s ! k) (tx_queues s ! k)) = 0"
    using charge_oversized [OF assms(4)] assms(3) by simp
  then show ?thesis using sent_filter [OF assms(1) send(1) assms(2)] send(1) assms(2,3) by (simp add: sent_def Let_def)
next
  case calm
  then show ?thesis using assms(3) by (simp add: calm_def)
qed

definition front_dropped :: "nat \<Rightarrow> peat_event \<Rightarrow> event_transmitter \<Rightarrow> event_transmitter \<Rightarrow> bool" where
  "front_dropped k e s s' \<longleftrightarrow>
     (\<exists>es rest. tx_queues s ! k = e # es \<and> tx_queues s' ! k = es @ rest
        \<and> ts_dropped (tx_stats s') ! k = ts_dropped (tx_stats s) ! k + 1)"

lemma calls_blocked:
  assumes "tx_wf s" "k < 4" "tx_queues s ! k = e # es" "tb_capacity (tx_buckets s ! k) < as_f64 (estimate_event_size e)"
  shows "filter (\<lambda>x. get_level x = k) (snd (tx_calls ops s)) = [] \<and> (\<exists>es'. tx_queues (fst (tx_calls ops s)) ! k = e # es') \<or>
     (\<exists>ops1 x ops2. ops = ops1 @ OpEnqueue x # ops2 \<and> filter (\<lambda>x. get_level x = k) (snd (tx_calls ops1 s)) = [] \<and>
        front_dropped k e (fst (tx_calls ops1 s)) (fst (tx_calls (ops1 @ [OpEnqueue x]) s)))"
  using assms
proof (induction ops arbitrary: s es)
  case (Cons op ops)
  let ?s = "fst (tx_apply op s)"
  note b = apply_blocked [OF Cons.prems, of op]
  show ?case
  proof (cases "\<exists>es'. tx_queues ?s ! k = e # es'")
    case True
    then obtain es' where "tx_queues ?s ! k = e # es'" by blast
    from Cons.IH [OF tx_apply_wf [OF Cons.prems(1)] Cons.prems(2) this]
    consider "filter (\<lambda>x. get_level x = k) (snd (tx_calls ops ?s)) = []" "\<exists>es'. tx_queues (fst (tx_calls ops ?s)) ! k = e # es'"
      | ops1 x ops2 where "ops = ops1 @ OpEnqueue x # ops2" "filter (\<lambda>x. get_level x = k) (snd (tx_calls ops1 ?s)) = []"
        "front_dropped k e (fst (tx_calls ops1 ?s)) (fst (tx_calls (ops1 @ [OpEnqueue x]) ?s))"
      using Cons.prems(4) tx_apply_capacity [OF Cons.prems(1,2)] by auto
    then show ?thesis
    proof cases
      case 1
      then show ?thesis using b by simp
    next
      case (2 ops1 x ops2)
      then show ?thesis using b by (intro disjI2 exI [of _ "op # ops1"] exI [of _ x] exI [of _ ops2]) simp
    qed
  next
    case False
    then obtain x rest where "op = OpEnqueue x" "tx_queues ?s ! k = es @ rest"
      "ts_dropped (tx_stats ?s) ! k = ts_dropped (tx_stats s) ! k + 1" using b by blast
    then show ?thesis
      using Cons.prems(3) by (intro disjI2 exI [of _ "[]"] exI [of _ x] exI [of _ ops]) (auto simp: front_dropped_def)
  qed
qed simp

text \<open>
  C39. An event whose estimated size exceeds one second of its level's bandwidth is never sent, in any
  sequence of calls: every event that leaves fits the bucket of its level. Once such an event is at the
  front of its queue it blocks the level until an overflow removes it: as long as calls go on, either
  nothing of the level was sent and the event is still in front, or there was an \<open>enqueue\<close>, with nothing
  of the level sent before it, that dropped the event from the front and counted it as dropped.
\<close>

theorem oversized_event_blocks_level:
  assumes "tx_wf s" "k < 4" "tx_queues s ! k = e # es" "tb_capacity (tx_buckets s ! k) < as_f64 (estimate_event_size e)"
  defines "level \<equiv> filter (\<lambda>x. get_level x = k)"
  shows "(\<forall>x \<in> set (snd (tx_calls ops s)). as_f64 (estimate_event_size x) \<le> tb_capacity (tx_buckets s ! get_level x)) \<and>
    (level (snd (tx_calls ops s)) = [] \<and> (\<exists>es'. tx_queues (fst (tx_calls ops s)) ! k = e # es') \<or>
     (\<exists>ops1 x ops2. ops = ops1 @ OpEnqueue x # ops2 \<and> level (snd (tx_calls ops1 s)) = [] \<and>
        front_dropped k e (fst (tx_calls ops1 s)) (fst (tx_calls (ops1 @ [OpEnqueue x]) s))))"
  using calls_fit [OF assms(1)] calls_blocked [OF assms(1-4), of ops] unfolding level_def by blast


subsection \<open>Queue limits\<close>

definition level_event :: "int \<Rightarrow> peat_event" where
  "level_event p = \<lparr>pe_event_id = [], pe_timestamp = None, pe_source_node_id = [], pe_source_formation_id = [],
     pe_source_instance_id = None, pe_event_class = 0, pe_event_type = [],
     pe_routing = Some \<lparr>ap_propagation = 0, ap_priority = p, ap_ttl_seconds = 0, ap_aggregation_window_ms = 0\<rparr>,
     pe_payload_type_url = [], pe_payload_value = []\<rparr>"

definition enqueue_all :: "peat_event list \<Rightarrow> event_transmitter \<Rightarrow> event_transmitter" where
  "enqueue_all es s = fold (\<lambda>e s. fst (transmitter_enqueue e s)) es s"

lemma level_of_event: "get_level (level_event 0) = 0" "get_level (level_event 3) = 3"
  by (simp_all add: get_level_def level_event_def)

definition default_shape :: "event_transmitter \<Rightarrow> peat_event list \<Rightarrow> bool" where
  "default_shape s q \<longleftrightarrow> tx_queues s = [q, [], [], []] \<and> tx_max_queue_sizes s = [100, 1000, 1000, 1000]
     \<and> tx_overflow_policy s = RemoveLowestPriority"

lemma enqueue_critical:
  "default_shape s q \<Longrightarrow> length q < 100 \<Longrightarrow> default_shape (fst (transmitter_enqueue (level_event 0) s)) (q @ [level_event 0])"
  by (simp add: default_shape_def transmitter_enqueue_def level_of_event Let_def)

lemma enqueue_low_critical:
  "default_shape s q \<Longrightarrow> 100 \<le> length q \<Longrightarrow>
   default_shape (fst (transmitter_enqueue (level_event 0) (fst (transmitter_enqueue (level_event 3) s)))) (q @ [level_event 0])"
  by (simp add: default_shape_def transmitter_enqueue_def level_of_event drop_lowest_priority_def drop_front_def Let_def)

text \<open>
  The limit of the critical queue does not bound it: under the default settings, for every number there
  is a sequence of submissions after which more than so many critical events are queued, since a full
  queue makes room by dropping an event of another level and then grows.
\<close>

theorem critical_queue_unbounded:
  "\<exists>es. length (tx_queues (enqueue_all es (event_transmitter_new a clock)) ! 0) > n"
proof -
  have "\<exists>es q. default_shape (enqueue_all es (event_transmitter_new a clock)) q \<and> length q = m" for m
  proof (induction m)
    case 0
    then show ?case
      by (intro exI [of _ "[]"]) (simp add: enqueue_all_def default_shape_def event_transmitter_new_def Let_def)
  next
    case (Suc m)
    then obtain es q where q: "default_shape (enqueue_all es (event_transmitter_new a clock)) q" "length q = m" by blast
    let ?fs = "if m < 100 then [level_event 0] else [level_event 3, level_event 0]"
    have "default_shape (enqueue_all (es @ ?fs) (event_transmitter_new a clock)) (q @ [level_event 0])"
      using enqueue_critical [OF q(1)] enqueue_low_critical [OF q(1)] q(2) by (simp add: enqueue_all_def)
    then show ?case using q(2) by (intro exI [of _ "es @ ?fs"] exI [of _ "q @ [level_event 0]"]) simp
  qed
  then obtain es q where "default_shape (enqueue_all es (event_transmitter_new a clock)) q" "length q = Suc n" by blast
  then show ?thesis by (intro exI [of _ es]) (simp add: default_shape_def)
qed

subsection \<open>Nothing is lost unseen\<close>

definition tx_balance :: "nat \<Rightarrow> event_transmitter \<Rightarrow> u64" where
  "tx_balance k s = ts_transmitted (tx_stats s) ! k + ts_dropped (tx_stats s) ! k + of_nat (length (tx_queues s ! k))"

lemma balance_drop_front:
  assumes "tx_wf s" "k < 4" "tx_queues s ! j \<noteq> []"
  shows "tx_balance k (drop_front j s) = tx_balance k s"
proof -
  have "of_nat (length (tl q)) + 1 = (of_nat (length q) :: u64)" if "q \<noteq> []" for q :: "peat_event list"
    using that by (cases q) simp_all
  then show ?thesis
    using assms by (auto simp: tx_balance_def drop_front_def tx_wf_def nth_incr nth_list_update algebra_simps)
qed

lemma balance_push:
  assumes "tx_wf s" "k < 4"
  shows "tx_balance k (s\<lparr>tx_queues := (tx_queues s)[j := tx_queues s ! j @ [e]]\<rparr>) = tx_balance k s + (if j = k then 1 else 0)"
  using assms by (auto simp: tx_balance_def tx_wf_def nth_list_update)

lemma balance_rejected:
  assumes "tx_wf s" "k < 4"
  shows "tx_balance k (s\<lparr>tx_stats := (tx_stats s)\<lparr>ts_dropped := incr j 1 (ts_dropped (tx_stats s))\<rparr>\<rparr>)
    = tx_balance k s + (if j = k then 1 else 0)"
  using assms by (auto simp: tx_balance_def tx_wf_def nth_incr)

text \<open>
  An event that is queued although the limit of its empty queue is zero, while the oldest event is to make
  room: there is none, but the code counts one as dropped.
\<close>

fun phantom :: "nat \<Rightarrow> tx_op \<Rightarrow> event_transmitter \<Rightarrow> bool" where
  "phantom k (OpEnqueue e) s \<longleftrightarrow> get_level e = k \<and> tx_queues s ! k = [] \<and> tx_max_queue_sizes s ! k = 0 \<and> tx_overflow_policy s = RemoveOldest"
| "phantom k _ s \<longleftrightarrow> False"

fun phantom_drops :: "nat \<Rightarrow> tx_op list \<Rightarrow> event_transmitter \<Rightarrow> nat" where
  "phantom_drops k [] s = 0"
| "phantom_drops k (op # ops) s = (if phantom k op s then 1 else 0) + phantom_drops k ops (fst (tx_apply op s))"

lemma balance_drop_none:
  assumes "tx_wf s" "k < 4" "tx_queues s ! j = []"
  shows "tx_balance k (drop_front j s) = tx_balance k s + (if j = k then 1 else 0)"
  using assms by (auto simp: tx_balance_def drop_front_def tx_wf_def nth_incr nth_list_update)

lemma balance_enqueue:
  assumes "tx_wf s" "k < 4"
  shows "tx_balance k (fst (transmitter_enqueue e s))
    = tx_balance k s + (if get_level e = k then 1 else 0) + (if phantom k (OpEnqueue e) s then 1 else 0)"
proof -
  have "tx_wf (fst (drop_lowest_priority s)) \<and> tx_balance k (fst (drop_lowest_priority s)) = tx_balance k s"
    using assms by (simp add: drop_lowest_priority_def tx_wf_drop_front balance_drop_front)
  moreover have "tx_balance k (s\<lparr>tx_queues := (tx_queues s)[j := [e]]\<rparr>) = tx_balance k s + (if j = k then 1 else 0)"
    if "tx_queues s ! j = []" for j
    using balance_push [OF assms, of j e] that by simp
  ultimately show ?thesis
    using assms
    by (cases "tx_queues s ! get_level e = []")
      (auto simp: transmitter_enqueue_def Let_def case_prod_beta balance_rejected balance_push balance_drop_front balance_drop_none
        tx_wf_drop_front split: overflow_policy.split)
qed

lemma balance_sent:
  assumes "tx_wf s" "sent clock N s r" "k < 4"
  shows "tx_balance k (fst r) = tx_balance k s"
proof -
  let ?m = "snd (charge (N k) (clock k) (tx_buckets s ! k) (tx_queues s ! k))"
  have "?m \<le> length (tx_queues s ! k)"
    using charge_le [of "N k" "clock k" "tx_buckets s ! k" "tx_queues s ! k"] by simp
  then have "of_nat ?m + of_nat (length (tx_queues s ! k) - ?m) = (of_nat (length (tx_queues s ! k)) :: u64)"
    by (metis le_add_diff_inverse of_nat_add)
  moreover have "tx_queues (fst r) ! k = drop ?m (tx_queues s ! k)" "ts_dropped (tx_stats (fst r)) = ts_dropped (tx_stats s)"
    "ts_transmitted (tx_stats (fst r)) ! k = ts_transmitted (tx_stats s) ! k + of_nat ?m"
    using assms(2,3) by (simp_all add: sent_def Let_def)
  ultimately show ?thesis by (simp add: tx_balance_def algebra_simps)
qed

lemma balance_apply:
  assumes "tx_wf s" "k < 4"
  shows "tx_balance k (fst (tx_apply op s)) = tx_balance k s + of_nat (offered k [op] + (if phantom k op s then 1 else 0))"
  using assms(1)
proof (cases rule: tx_apply_cases [where op = op])
  case (enqueue e)
  then show ?thesis using balance_enqueue [OF assms, of e] by (simp add: offered_def)
next
  case (send clock N)
  then show ?thesis using balance_sent [OF assms(1) send(1) assms(2)] by (cases op) (simp_all add: offered_def)
next
  case calm
  then show ?thesis by (cases op) (simp_all add: offered_def calm_def tx_balance_def)
qed

lemma balance_calls:
  "tx_wf s \<Longrightarrow> k < 4 \<Longrightarrow>
   tx_balance k (fst (tx_calls ops s)) = tx_balance k s + of_nat (offered k ops + phantom_drops k ops s)"
proof (induction ops arbitrary: s)
  case (Cons op ops)
  have "offered k (op # ops) = offered k [op] + offered k ops" by (simp add: offered_def)
  then show ?case
    using Cons.IH [OF tx_apply_wf [OF Cons.prems(1)] Cons.prems(2)] balance_apply [OF Cons.prems, of op] by (simp add: add_ac)
qed (simp add: offered_def)

lemma sizes_enqueue: "tx_max_queue_sizes (fst (transmitter_enqueue e s)) = tx_max_queue_sizes s"
  by (simp add: transmitter_enqueue_def drop_lowest_priority_def drop_front_def Let_def split: overflow_policy.split)

lemma no_phantom:
  assumes "tx_wf s" "k < 4" "tx_max_queue_sizes s ! k \<noteq> 0" "\<forall>p. OpLimit p 0 \<notin> set ops"
  shows "phantom_drops k ops s = 0"
  using assms
proof (induction ops arbitrary: s)
  case (Cons op ops)
  have "tx_max_queue_sizes (fst (tx_apply op s)) ! k \<noteq> 0"
  proof (cases op)
    case (OpTransmit n clock)
    obtain N where "sent clock N s (transmit n clock s)" by (rule transmit_sent [OF Cons.prems(1)])
    then show ?thesis using Cons.prems(3) by (simp add: OpTransmit sent_def Let_def)
  next
    case (OpCritical clock)
    then show ?thesis using transmit_critical_sent [OF Cons.prems(1), of clock] Cons.prems(3) by (simp add: sent_def Let_def)
  next
    case (OpLimit p n)
    then show ?thesis using Cons.prems by (cases "priority_to_level p = k") (auto simp: set_max_queue_size_def tx_wf_def)
  qed (use Cons.prems(3) in \<open>simp_all add: sizes_enqueue available_bandwidth_def set_overflow_policy_def Let_def\<close>)
  moreover have "\<not> phantom k op s" using Cons.prems(3) by (cases op) simp_all
  ultimately show ?case using Cons.IH [OF tx_apply_wf [OF Cons.prems(1)] Cons.prems(2)] Cons.prems(4) by simp
qed simp

text \<open>
  C24. Accounting. From a new transmitter, whatever is submitted and sent in whatever order and however
  limits and policies change meanwhile, the events counted as transmitted, counted as dropped or still
  queued at a level add up, in the 64 bits of the counters, to the events offered at the level, plus one
  for each event that found its empty queue with a limit of zero under \<open>RemoveOldest\<close>, for which the code
  counts a drop and queues the event all the same. When no limit is set to zero there are none of these, and
  each offered event is counted once. Calls that reset the counters are not part of the sequence.
\<close>

theorem transmitter_accounting:
  fixes a :: bandwidth_allocation and clock :: "nat \<Rightarrow> instant"
  assumes "k < 4"
  defines "s0 \<equiv> event_transmitter_new a clock"
  shows "tx_balance k (fst (tx_calls ops s0)) = of_nat (offered k ops + phantom_drops k ops s0)
    \<and> ((\<forall>p. OpLimit p 0 \<notin> set ops) \<longrightarrow> phantom_drops k ops s0 = 0)"
proof -
  have "tx_balance k s0 = 0" "tx_max_queue_sizes s0 ! k \<noteq> 0"
    using assms(1) by (auto simp: s0_def event_transmitter_new_def tx_balance_def transmitter_stats_default_def Let_def less_4)
  then show ?thesis
    using balance_calls [OF tx_wf_new assms(1), of ops a clock] no_phantom [OF tx_wf_new assms(1), of a clock ops]
    by (simp add: s0_def)
qed

subsection \<open>A small transmitter\<close>

text \<open>One kilobyte a second for every level; an event of 1201 bytes is queued in front of a small one.\<close>

definition small_allocation :: bandwidth_allocation where
  "small_allocation = \<lparr>ba_critical_reserved_bps = 1000, ba_high_min_bps = 1000, ba_normal_min_bps = 1000,
     ba_low_min_bps = 1000, ba_total_available_bps = 4000\<rparr>"

definition small_tx :: event_transmitter where
  "small_tx = event_transmitter_new small_allocation (\<lambda>_. 0)"

definition big_event :: peat_event where
  "big_event = (level_event 3)\<lparr>pe_payload_value := replicate 1001 0\<rparr>"

lemma as_f64_1000: "as_f64 1000 = 1000"
  by (simp add: as_f64_exact)

lemma small_tx_wf: "tx_wf small_tx"
  unfolding small_tx_def by (rule tx_wf_new)

lemma refill_at_once:
  "tb_last_refill b = now \<Longrightarrow> fl 53 (tb_tokens b) = tb_tokens b \<Longrightarrow> tb_tokens b \<le> tb_capacity b \<Longrightarrow> bucket_refill now b = b"
  by (simp add: bucket_refill_def elapsed_def as_secs_f64_def as_f64_def f_add_def f_times_def f_divide_def fl_def [of _ 0])

lemma small_bucket: "k < 4 \<Longrightarrow> tx_buckets small_tx ! k = token_bucket_new 1000 1000 0"
  by (auto simp: small_tx_def event_transmitter_new_def small_allocation_def as_f64_1000 less_4 Let_def)

lemma fl_1000: "fl 53 1000 = 1000"
  using fl_as_f64 [of 1000] by (simp only: as_f64_1000)

definition small_queued :: event_transmitter where
  "small_queued = fst (transmitter_enqueue (level_event 0) small_tx)"

lemma small_queued_run: "tx_run 0 0 small_tx [] 0 small_queued"
  unfolding small_queued_def by (intro tx_run.intros)

lemma small_queue: "tx_queues small_queued ! 0 = [level_event 0]"
  by (simp add: small_queued_def small_tx_def event_transmitter_new_def transmitter_enqueue_def level_of_event Let_def)

lemma small_sent: "snd (transmit 1 (\<lambda>_ _. 0) small_queued) = [level_event 0]"
proof -
  have "tx_buckets small_queued ! 0 = token_bucket_new 1000 1000 0" by (simp add: small_queued_def small_bucket)
  moreover have "estimate_event_size (level_event 0) = 200" by (simp add: estimate_event_size_def level_event_def)
  moreover have "bucket_refill 0 (token_bucket_new 1000 1000 0) = token_bucket_new 1000 1000 0"
    by (rule refill_at_once) (simp_all add: token_bucket_new_def fl_1000)
  ultimately show ?thesis
    by (simp add: transmit_def small_queue try_consume_eq Let_def as_f64_exact token_bucket_new_def)
qed

lemma small_clock: "clock_ok 0 0 (\<lambda>_ _. 0) small_queued"
  by (simp add: clock_ok_def mono_def small_queued_def small_bucket token_bucket_new_def)

lemma small_run: "tx_run 0 0 small_tx [level_event 0] 1 (fst (transmit 1 (\<lambda>_ _. 0) small_queued))"
  using tx_run.run_transmit [OF small_queued_run small_clock, of 1] by (simp add: small_sent flip: One_nat_def)

theorem reachable_transmitter_wf_witness:
  "tx_wf (fst (transmit 1 (\<lambda>_ _. 0) small_queued)) \<and> tb_capacity (tx_buckets (fst (transmit 1 (\<lambda>_ _. 0) small_queued)) ! 3) = 1000"
  using reachable_transmitter_wf [OF small_run [unfolded small_tx_def]] by (simp add: level_bps_def small_allocation_def as_f64_1000)

theorem bandwidth_respected_witness:
  "sum_list (map (rat_of_nat \<circ> estimate_event_size) [level_event 0]) = 200 \<and> (200 :: rat) \<le> 1000 + 2 * (1000 / 2 ^ 52)"
proof -
  have size: "estimate_event_size (level_event 0) = 200" by (simp add: estimate_event_size_def level_event_def)
  show ?thesis
    using bandwidth_respected [OF tx_run.run_init small_run [unfolded small_tx_def], of 0]
    by (simp add: size level_of_event level_bps_def small_allocation_def as_f64_1000)
qed

theorem transmit_shares_witness:
  "sorted (map get_level [level_event 0]) \<and> tx_queues small_queued ! 0 = [level_event 0] @ tx_queues (fst (transmit 1 (\<lambda>_ _. 0) small_queued)) ! 0"
proof -
  have "tx_wf small_queued" using tx_run_wf [OF small_queued_run small_tx_wf] .
  from transmit_shares [OF this, of 1 "\<lambda>_ _. 0"] show ?thesis by (simp add: small_sent level_of_event del: One_nat_def)
qed

definition small_blocked :: event_transmitter where
  "small_blocked = enqueue_all [big_event, level_event 3] small_tx"

lemma small_blocked_wf: "tx_wf small_blocked"
  by (simp add: small_blocked_def enqueue_all_def tx_wf_enqueue small_tx_wf)

lemma big_event: "get_level big_event = 3" "estimate_event_size big_event = 1201"
  by (simp_all add: get_level_def big_event_def level_event_def estimate_event_size_def)

theorem oversized_event_blocks_level_witness:
  "\<exists>es. tx_queues (fst (tx_calls [OpTransmit 10 (\<lambda>_ _. 10 ^ 9), OpTransmit 10 (\<lambda>_ _. 2 * 10 ^ 9)] small_blocked)) ! 3 = big_event # es"
proof -
  let ?ops = "[OpTransmit 10 (\<lambda>_ _. 10 ^ 9), OpTransmit 10 (\<lambda>_ _. 2 * 10 ^ 9)]"
  have "tx_queues small_blocked ! 3 = [big_event, level_event 3]"
    by (simp add: big_event small_blocked_def enqueue_all_def small_tx_def event_transmitter_new_def transmitter_enqueue_def level_of_event Let_def)
  moreover have "tb_capacity (tx_buckets small_blocked ! 3) < as_f64 (estimate_event_size big_event)"
    by (simp add: big_event small_blocked_def enqueue_all_def small_bucket token_bucket_new_def as_f64_exact)
  moreover have "\<not> (\<exists>ops1 x ops2. ?ops = ops1 @ OpEnqueue x # ops2)"
    by (simp add: Cons_eq_append_conv)
  ultimately show ?thesis
    using oversized_event_blocks_level [OF small_blocked_wf, of 3 big_event "[level_event 3]" ?ops] by fastforce
qed

theorem transmitter_accounting_witness:
  "tx_balance 0 (fst (tx_calls [OpEnqueue (level_event 0), OpTransmit 1 (\<lambda>_ _. 0), OpEnqueue (level_event 0)] small_tx)) = 2"
  using transmitter_accounting [of 0 "[OpEnqueue (level_event 0), OpTransmit 1 (\<lambda>_ _. 0), OpEnqueue (level_event 0)]" small_allocation "\<lambda>_. 0"]
  unfolding small_tx_def [symmetric] by (simp add: offered_def level_of_event del: tx_apply.simps)

end
