(* ===== verification/Event_Aggregator.thy ===== *)
theory Event_Aggregator
  imports Peat_Error Authorization Event_Queue
begin

text \<open>
  The aggregator at a tier boundary, \<open>peat-protocol/src/event/aggregator.rs\<close>, with the default strategy of
  \<open>summary.rs\<close>. It sorts incoming events by propagation mode into the event queue of
  \<open>Event_Queue\<close>, into aggregation windows or into the local store, and turns windows into summary events.
  The JSON writer (\<open>to_vec\<close>) and the protobuf encoder (\<open>enc\<close>) belong to external crates and are arguments,
  as are the readings of the clocks; a flush reads them once per window, so there they are functions of
  the window's key. A \<open>HashSet\<close> of node ids is a list without repetitions.
\<close>


subsection \<open>Messages and strategies\<close>

datatype propagation_mode = PropagationFull | PropagationSummary | PropagationQuery | PropagationLocal

fun propagation_mode_of_int :: "int \<Rightarrow> propagation_mode option" where
  "propagation_mode_of_int n =
     (if n = 0 then Some PropagationFull else if n = 1 then Some PropagationSummary
      else if n = 2 then Some PropagationQuery else if n = 3 then Some PropagationLocal else None)"

datatype event_class = ClassUnspecified | ClassProduct | ClassAnomaly | ClassTelemetry | ClassCommand

fun event_class_of_int :: "int \<Rightarrow> event_class option" where
  "event_class_of_int n =
     (if n = 0 then Some ClassUnspecified else if n = 1 then Some ClassProduct
      else if n = 2 then Some ClassAnomaly else if n = 3 then Some ClassTelemetry
      else if n = 4 then Some ClassCommand else None)"

fun event_class_as_i32 :: "event_class \<Rightarrow> int" where
  "event_class_as_i32 ClassUnspecified = 0"
| "event_class_as_i32 ClassProduct = 1"
| "event_class_as_i32 ClassAnomaly = 2"
| "event_class_as_i32 ClassTelemetry = 3"
| "event_class_as_i32 ClassCommand = 4"

record event_summary =
  es_formation_id :: string
  es_window_start :: "timestamp option"
  es_window_end :: "timestamp option"
  es_event_class :: int
  es_event_type :: string
  es_event_count :: u32
  es_source_node_ids :: "string list"
  es_summary_type_url :: string
  es_summary_value :: "u8 list"

record summary_strategy =
  ss_event_type :: string
  ss_summarize :: "peat_event list \<Rightarrow> u8 list"

text \<open>\<open>to_vec\<close> renders the JSON object of an event type, an event count and the source nodes.\<close>

type_synonym json_writer = "string \<Rightarrow> nat \<Rightarrow> string list \<Rightarrow> u8 list"

definition default_summary_strategy :: "json_writer \<Rightarrow> string \<Rightarrow> summary_strategy" where
  "default_summary_strategy to_vec event_type =
     \<lparr>ss_event_type = event_type,
      ss_summarize = \<lambda>events. to_vec event_type (length events) (remdups (map pe_source_node_id events))\<rparr>"


subsection \<open>Aggregation windows\<close>

record aggregation_window =
  aw_event_class :: event_class
  aw_event_type :: string
  aw_window_duration :: nat
  aw_window_start :: instant
  aw_events :: "peat_event list"
  aw_source_nodes :: "string list"

definition window_new :: "event_class \<Rightarrow> string \<Rightarrow> nat \<Rightarrow> instant \<Rightarrow> aggregation_window" where
  "window_new event_class event_type window_duration now =
     \<lparr>aw_event_class = event_class, aw_event_type = event_type, aw_window_duration = window_duration,
      aw_window_start = now, aw_events = [], aw_source_nodes = []\<rparr>"

definition window_add :: "peat_event \<Rightarrow> aggregation_window \<Rightarrow> aggregation_window" where
  "window_add event self =
     self\<lparr>aw_source_nodes := List.insert (pe_source_node_id event) (aw_source_nodes self),
          aw_events := aw_events self @ [event]\<rparr>"

definition should_flush :: "instant \<Rightarrow> aggregation_window \<Rightarrow> bool" where
  "should_flush now self \<longleftrightarrow> aw_window_duration self \<le> elapsed now (aw_window_start self)"

definition window_reset :: "instant \<Rightarrow> aggregation_window \<Rightarrow> aggregation_window" where
  "window_reset now self = self\<lparr>aw_window_start := now, aw_events := [], aw_source_nodes := []\<rparr>"


subsection \<open>The aggregator\<close>

type_synonym window_key = "int \<times> string"

record hierarchy_aggregator =
  ha_tier_id :: string
  ha_tier :: hierarchy_level
  ha_windows :: "(window_key, aggregation_window) hash_map"
  ha_passthrough_queue :: priority_event_queue
  ha_queryable_store :: "(string, peat_event) hash_map"
  ha_summary_strategies :: "(string, summary_strategy) hash_map"
  ha_summary_queue :: "peat_event list"
  ha_summary_counter :: u64
  ha_default_window_duration :: nat

definition aggregator_new :: "json_writer \<Rightarrow> string \<Rightarrow> hierarchy_level \<Rightarrow> hierarchy_aggregator" where
  "aggregator_new to_vec tier_id tier =
     (let strategies = hm_insert ''detection'' (default_summary_strategy to_vec ''detection'') [];
          strategies = hm_insert ''telemetry'' (default_summary_strategy to_vec ''telemetry'') strategies
      in \<lparr>ha_tier_id = tier_id, ha_tier = tier, ha_windows = [], ha_passthrough_queue = event_queue_new,
          ha_queryable_store = [], ha_summary_strategies = strategies, ha_summary_queue = [],
          ha_summary_counter = 0, ha_default_window_duration = from_secs 1\<rparr>)"

definition with_default_window_duration :: "nat \<Rightarrow> hierarchy_aggregator \<Rightarrow> hierarchy_aggregator" where
  "with_default_window_duration duration self = self\<lparr>ha_default_window_duration := duration\<rparr>"

definition register_strategy :: "summary_strategy \<Rightarrow> hierarchy_aggregator \<Rightarrow> hierarchy_aggregator" where
  "register_strategy strategy self =
     self\<lparr>ha_summary_strategies := hm_insert (ss_event_type strategy) strategy (ha_summary_strategies self)\<rparr>"

definition propagation_of :: "peat_event \<Rightarrow> propagation_mode" where
  "propagation_of event =
     (case pe_routing event of
        Some r \<Rightarrow> (case propagation_mode_of_int (ap_propagation r) of Some p \<Rightarrow> p | None \<Rightarrow> PropagationFull)
      | None \<Rightarrow> PropagationFull)"

definition receive_event ::
    "instant \<Rightarrow> peat_event \<Rightarrow> hierarchy_aggregator \<Rightarrow> hierarchy_aggregator \<times> (peat_error + unit)" where
  "receive_event now event self =
     (case propagation_of event of
        PropagationFull \<Rightarrow>
          (self\<lparr>ha_passthrough_queue := event_push event (ha_passthrough_queue self)\<rparr>, Inr ())
      | PropagationSummary \<Rightarrow>
          (let key = (pe_event_class event, pe_event_type event);
               window_duration =
                 (case pe_routing event of
                    Some r \<Rightarrow> (if 0 < ap_aggregation_window_ms r
                               then from_millis (unat (ap_aggregation_window_ms r))
                               else ha_default_window_duration self)
                  | None \<Rightarrow> ha_default_window_duration self);
               event_class =
                 (case event_class_of_int (pe_event_class event) of Some c \<Rightarrow> c | None \<Rightarrow> ClassUnspecified);
               window =
                 (case hm_get (ha_windows self) key of
                    Some w \<Rightarrow> w
                  | None \<Rightarrow> window_new event_class (pe_event_type event) window_duration now)
           in (self\<lparr>ha_windows := hm_insert key (window_add event window) (ha_windows self)\<rparr>, Inr ()))
      | PropagationQuery \<Rightarrow>
          (self\<lparr>ha_queryable_store := hm_insert (pe_event_id event) event (ha_queryable_store self)\<rparr>, Inr ())
      | PropagationLocal \<Rightarrow> (self, Inr ()))"

definition generate_summary_id :: "hierarchy_aggregator \<Rightarrow> hierarchy_aggregator \<times> string" where
  "generate_summary_id self =
     (let counter = ha_summary_counter self + 1
      in (self\<lparr>ha_summary_counter := counter\<rparr>,
          ha_tier_id self @ ''-summary-'' @ display_nat (unat counter)))"

definition generate_summary ::
    "json_writer \<Rightarrow> (event_summary \<Rightarrow> u8 list) \<Rightarrow> timestamp \<Rightarrow> aggregation_window \<Rightarrow> hierarchy_aggregator
      \<Rightarrow> hierarchy_aggregator \<times> peat_event option" where
  "generate_summary to_vec enc now window self =
     (if aw_events window = [] then (self, None)
      else
        (let (self, summary_id) = generate_summary_id self;
             event_type_base = takeWhile (\<lambda>c. c \<noteq> CHR ''.'') (aw_event_type window);
             summary_payload =
               (case hm_get (ha_summary_strategies self) event_type_base of
                  Some strategy \<Rightarrow> ss_summarize strategy (aw_events window)
                | None \<Rightarrow>
                    ss_summarize (default_summary_strategy to_vec (aw_event_type window)) (aw_events window));
             event_summary =
               \<lparr>es_formation_id = ha_tier_id self,
                es_window_start = Some now,
                es_window_end = Some now,
                es_event_class = event_class_as_i32 (aw_event_class window),
                es_event_type = aw_event_type window,
                es_event_count = of_nat (length (aw_events window)),
                es_source_node_ids = aw_source_nodes window,
                es_summary_type_url = ''type.peat/summary.'' @ aw_event_type window,
                es_summary_value = summary_payload\<rparr>
         in (self, Some
              \<lparr>pe_event_id = summary_id,
               pe_timestamp = Some now,
               pe_source_node_id = ha_tier_id self,
               pe_source_formation_id = ha_tier_id self,
               pe_source_instance_id = None,
               pe_event_class = event_class_as_i32 (aw_event_class window),
               pe_event_type = aw_event_type window @ ''_summary'',
               pe_routing = Some \<lparr>ap_propagation = 0, ap_priority = 2, ap_ttl_seconds = 300,
                                  ap_aggregation_window_ms = 0\<rparr>,
               pe_payload_type_url = ''type.peat/event_summary.'' @ aw_event_type window,
               pe_payload_value = enc event_summary\<rparr>)))"

fun flush_keys ::
    "json_writer \<Rightarrow> (event_summary \<Rightarrow> u8 list) \<Rightarrow> (window_key \<Rightarrow> timestamp) \<Rightarrow> (window_key \<Rightarrow> instant)
      \<Rightarrow> window_key list \<Rightarrow> hierarchy_aggregator \<Rightarrow> nat \<Rightarrow> hierarchy_aggregator \<times> nat" where
  "flush_keys to_vec enc stamp reset_at [] self n = (self, n)"
| "flush_keys to_vec enc stamp reset_at (key # keys) self n =
     (case hm_get (ha_windows self) key of
        Some window \<Rightarrow>
          (let (self, n) =
                 (case generate_summary to_vec enc (stamp key) window self of
                    (self, Some summary_event) \<Rightarrow>
                      (self\<lparr>ha_summary_queue := ha_summary_queue self @ [summary_event]\<rparr>, n + 1)
                  | (self, None) \<Rightarrow> (self, n));
               self = self\<lparr>ha_windows := hm_insert key (window_reset (reset_at key) window) (ha_windows self)\<rparr>
           in flush_keys to_vec enc stamp reset_at keys self n)
      | None \<Rightarrow> flush_keys to_vec enc stamp reset_at keys self n)"

definition flush_expired_windows ::
    "json_writer \<Rightarrow> (event_summary \<Rightarrow> u8 list) \<Rightarrow> (window_key \<Rightarrow> instant) \<Rightarrow> (window_key \<Rightarrow> timestamp)
      \<Rightarrow> (window_key \<Rightarrow> instant) \<Rightarrow> hierarchy_aggregator \<Rightarrow> hierarchy_aggregator \<times> nat" where
  "flush_expired_windows to_vec enc now stamp reset_at self =
     (let expired_keys =
            map fst (filter (\<lambda>(k, w). should_flush (now k) w \<and> aw_events w \<noteq> []) (ha_windows self))
      in flush_keys to_vec enc stamp reset_at expired_keys self 0)"

definition flush_all_windows ::
    "json_writer \<Rightarrow> (event_summary \<Rightarrow> u8 list) \<Rightarrow> (window_key \<Rightarrow> timestamp) \<Rightarrow> (window_key \<Rightarrow> instant)
      \<Rightarrow> hierarchy_aggregator \<Rightarrow> hierarchy_aggregator \<times> nat" where
  "flush_all_windows to_vec enc stamp reset_at self =
     (let non_empty_keys = map fst (filter (\<lambda>(k, w). aw_events w \<noteq> []) (ha_windows self))
      in flush_keys to_vec enc stamp reset_at non_empty_keys self 0)"

definition pop_passthrough :: "hierarchy_aggregator \<Rightarrow> hierarchy_aggregator \<times> peat_event list" where
  "pop_passthrough self =
     (let (queue, critical) = pop_critical (ha_passthrough_queue self);
          (queue, weighted) = pop_weighted 100 queue
      in (self\<lparr>ha_passthrough_queue := queue\<rparr>, critical @ weighted))"

definition pop_summaries :: "hierarchy_aggregator \<Rightarrow> hierarchy_aggregator \<times> peat_event list" where
  "pop_summaries self = (self\<lparr>ha_summary_queue := []\<rparr>, ha_summary_queue self)"

definition pop_all :: "hierarchy_aggregator \<Rightarrow> hierarchy_aggregator \<times> peat_event list" where
  "pop_all self =
     (let (self, events) = pop_passthrough self; (self, summaries) = pop_summaries self
      in (self, events @ summaries))"

definition query_local :: "string option \<Rightarrow> hierarchy_aggregator \<Rightarrow> peat_event list" where
  "query_local event_type self =
     filter (\<lambda>e. event_type = None \<or> Some (pe_event_type e) = event_type) (map snd (ha_queryable_store self))"

definition get_local :: "string \<Rightarrow> hierarchy_aggregator \<Rightarrow> peat_event option" where
  "get_local event_id self = hm_get (ha_queryable_store self) event_id"

definition enforce_ttl :: "u64 \<Rightarrow> hierarchy_aggregator \<Rightarrow> hierarchy_aggregator" where
  "enforce_ttl now_secs self =
     self\<lparr>ha_queryable_store :=
       hm_retain (\<lambda>_ event.
         (case pe_routing event of
            Some routing \<Rightarrow>
              (if 0 < ap_ttl_seconds routing
               then (case pe_timestamp event of
                       Some ts \<Rightarrow> now_secs < seconds ts + ucast (ap_ttl_seconds routing)
                     | None \<Rightarrow> True)
               else True)
          | None \<Rightarrow> True)) (ha_queryable_store self)\<rparr>"

end
