(* ===== verification/Aggregator_Runs.thy ===== *)
theory Aggregator_Runs
  imports Event_Aggregator
begin

text \<open>
  Sequences of calls on the aggregator of \<open>Event_Aggregator\<close>: every event it takes in for forwarding or for
  summaries is accounted for, in order and once, and every summary carries its batch and its number.
\<close>


subsection \<open>Runs\<close>

datatype aggregator_op =
    Receive instant peat_event
  | FlushExpired "window_key \<Rightarrow> instant" "window_key \<Rightarrow> timestamp" "window_key \<Rightarrow> instant"
  | FlushAll "window_key \<Rightarrow> timestamp" "window_key \<Rightarrow> instant"
  | PopPassthrough
  | PopSummaries
  | EnforceTtl u64

text \<open>A step gives the new state, the events forwarded and the summaries handed out.\<close>

fun aggregator_step ::
    "json_writer \<Rightarrow> (event_summary \<Rightarrow> u8 list) \<Rightarrow> aggregator_op \<Rightarrow> hierarchy_aggregator
      \<Rightarrow> hierarchy_aggregator \<times> peat_event list \<times> peat_event list" where
  "aggregator_step to_vec enc (Receive now e) s = (fst (receive_event now e s), [], [])"
| "aggregator_step to_vec enc (FlushExpired now stamp reset_at) s =
     (fst (flush_expired_windows to_vec enc now stamp reset_at s), [], [])"
| "aggregator_step to_vec enc (FlushAll stamp reset_at) s =
     (fst (flush_all_windows to_vec enc stamp reset_at s), [], [])"
| "aggregator_step to_vec enc PopPassthrough s = (let (s, out) = pop_passthrough s in (s, out, []))"
| "aggregator_step to_vec enc PopSummaries s = (let (s, out) = pop_summaries s in (s, [], out))"
| "aggregator_step to_vec enc (EnforceTtl now) s = (enforce_ttl now s, [], [])"

fun aggregator_run ::
    "json_writer \<Rightarrow> (event_summary \<Rightarrow> u8 list) \<Rightarrow> aggregator_op list \<Rightarrow> hierarchy_aggregator
      \<Rightarrow> hierarchy_aggregator \<times> peat_event list \<times> peat_event list" where
  "aggregator_run to_vec enc [] s = (s, [], [])"
| "aggregator_run to_vec enc (op # ops) s =
     (let (s, full, summaries) = aggregator_step to_vec enc op s;
          (s, full', summaries') = aggregator_run to_vec enc ops s
      in (s, full @ full', summaries @ summaries'))"

fun received :: "aggregator_op \<Rightarrow> peat_event list" where
  "received (Receive now e) = [e]"
| "received _ = []"

definition window_key_of :: "peat_event \<Rightarrow> window_key" where
  "window_key_of e = (pe_event_class e, pe_event_type e)"

definition to_summarise :: "window_key \<Rightarrow> peat_event \<Rightarrow> bool" where
  "to_summarise k e \<longleftrightarrow> propagation_of e = PropagationSummary \<and> window_key_of e = k"

definition to_forward :: "nat \<Rightarrow> peat_event \<Rightarrow> bool" where
  "to_forward l e \<longleftrightarrow> propagation_of e = PropagationFull \<and> event_level e = l"

definition open_events :: "hierarchy_aggregator \<Rightarrow> window_key \<Rightarrow> peat_event list" where
  "open_events s k = (case hm_get (ha_windows s) k of Some w \<Rightarrow> aw_events w | None \<Rightarrow> [])"

abbreviation class_of_key :: "window_key \<Rightarrow> event_class" where
  "class_of_key k \<equiv> (case event_class_of_int (fst k) of Some c \<Rightarrow> c | None \<Rightarrow> ClassUnspecified)"


subsection \<open>What a summary says\<close>

definition strategy_payload ::
    "json_writer \<Rightarrow> (string, summary_strategy) hash_map \<Rightarrow> string \<Rightarrow> peat_event list \<Rightarrow> u8 list" where
  "strategy_payload to_vec strategies event_type events =
     ss_summarize
       (case hm_get strategies (takeWhile (\<lambda>c. c \<noteq> CHR ''.'') event_type) of
          Some strategy \<Rightarrow> strategy
        | None \<Rightarrow> default_summary_strategy to_vec event_type) events"

text \<open>The event \<open>e\<close> is summary number \<open>i\<close> of the tier, over the batch \<open>events\<close> of the window \<open>k\<close>.\<close>

definition summarises ::
    "json_writer \<Rightarrow> (event_summary \<Rightarrow> u8 list) \<Rightarrow> string \<Rightarrow> (string, summary_strategy) hash_map
      \<Rightarrow> nat \<times> window_key \<times> peat_event list \<Rightarrow> peat_event \<Rightarrow> bool" where
  "summarises to_vec enc tier_id strategies = (\<lambda>(i, k, events) e.
     events \<noteq> [] \<and>
     pe_event_id e = tier_id @ ''-summary-'' @ display_nat (unat (of_nat i :: u64)) \<and>
     pe_source_node_id e = tier_id \<and>
     pe_event_type e = snd k @ ''_summary'' \<and>
     propagation_of e = PropagationFull \<and> get_priority e = PriorityNormal \<and>
     (\<exists>now nodes.
        distinct nodes \<and> set nodes = pe_source_node_id ` set events \<and>
        pe_payload_value e = enc
          \<lparr>es_formation_id = tier_id, es_window_start = Some now, es_window_end = Some now,
           es_event_class = event_class_as_i32 (class_of_key k), es_event_type = snd k,
           es_event_count = of_nat (length events), es_source_node_ids = nodes,
           es_summary_type_url = ''type.peat/summary.'' @ snd k,
           es_summary_value = strategy_payload to_vec strategies (snd k) events\<rparr>))"

definition window_ok :: "window_key \<Rightarrow> aggregation_window \<Rightarrow> bool" where
  "window_ok k w \<longleftrightarrow>
     aw_event_class w = class_of_key k \<and> aw_event_type w = snd k \<and>
     distinct (aw_source_nodes w) \<and> set (aw_source_nodes w) = pe_source_node_id ` set (aw_events w)"

lemma window_ok_new: "window_ok k (window_new (class_of_key k) (snd k) d now)"
  by (simp add: window_ok_def window_new_def)

lemma window_new_empty: "aw_events (window_new c t d now) = []"
  by (simp add: window_new_def)

lemma window_ok_add: "window_ok k w \<Longrightarrow> window_ok k (window_add e w)"
  by (auto simp: window_ok_def window_add_def)

lemma window_ok_reset: "window_ok k w \<Longrightarrow> window_ok k (window_reset now w)"
  by (simp add: window_ok_def window_reset_def)

lemma generate_summary_summarises:
  assumes "window_ok k w" "aw_events w \<noteq> []" "ha_summary_counter s = of_nat n"
  obtains e where
    "generate_summary to_vec enc now w s = (s\<lparr>ha_summary_counter := of_nat (Suc n)\<rparr>, Some e)"
    "summarises to_vec enc (ha_tier_id s) (ha_summary_strategies s) (Suc n, k, aw_events w) e"
proof
  let ?r = "generate_summary to_vec enc now w s"
  show "?r = (s\<lparr>ha_summary_counter := of_nat (Suc n)\<rparr>, Some (the (snd ?r)))"
    using assms by (simp add: generate_summary_def generate_summary_id_def Let_def add.commute)
  show "summarises to_vec enc (ha_tier_id s) (ha_summary_strategies s) (Suc n, k, aw_events w) (the (snd ?r))"
    using assms
    by (auto simp: generate_summary_def generate_summary_id_def Let_def summarises_def window_ok_def
        propagation_of_def get_priority_def strategy_payload_def add.commute
        intro!: exI [of _ now] exI [of _ "aw_source_nodes w"] arg_cong [where f = enc] split: option.splits)
qed


subsection \<open>The account of the summaries\<close>

type_synonym batch_log = "(window_key \<times> peat_event list) list"

definition batches :: "window_key \<Rightarrow> batch_log \<Rightarrow> peat_event list" where
  "batches k log = concat (map snd (filter (\<lambda>b. fst b = k) log))"

definition summary_account ::
    "json_writer \<Rightarrow> (event_summary \<Rightarrow> u8 list) \<Rightarrow> peat_event list \<Rightarrow> peat_event list \<Rightarrow> batch_log
      \<Rightarrow> hierarchy_aggregator \<Rightarrow> bool" where
  "summary_account to_vec enc ins out log s \<longleftrightarrow>
     (\<forall>k w. hm_get (ha_windows s) k = Some w \<longrightarrow> window_ok k w) \<and>
     ha_summary_counter s = of_nat (length log) \<and>
     list_all2 (summarises to_vec enc (ha_tier_id s) (ha_summary_strategies s)) (enumerate 1 log)
       (out @ ha_summary_queue s) \<and>
     (\<forall>k. batches k log @ open_events s k = filter (to_summarise k) ins)"

lemma batches_snoc: "batches k (log @ [(k', es)]) = batches k log @ (if k' = k then es else [])"
  by (simp add: batches_def)

lemma enumerate_snoc: "enumerate n (xs @ [x]) = enumerate n xs @ [(n + length xs, x)]"
  by (simp add: enumerate_append_eq)

lemma open_events_reset:
  "ha_windows s' = hm_insert key (window_reset now w) (ha_windows s) \<Longrightarrow>
     open_events s' = (open_events s)(key := [])"
  by (auto simp: open_events_def window_reset_def fun_eq_iff)

lemma flush_key_account:
  assumes "summary_account to_vec enc ins out log s"
  shows "\<exists>log' n'. flush_keys to_vec enc stamp reset_at (key # keys) s n =
           flush_keys to_vec enc stamp reset_at keys (fst (flush_keys to_vec enc stamp reset_at [key] s n)) n' \<and>
         summary_account to_vec enc ins out log' (fst (flush_keys to_vec enc stamp reset_at [key] s n))"
proof (cases "hm_get (ha_windows s) key")
  case None
  then show ?thesis
    using assms by auto
next
  case (Some w)
  have ok: "window_ok key w"
    using assms Some unfolding summary_account_def by blast
  show ?thesis
  proof (cases "aw_events w = []")
    case True
    let ?s = "s\<lparr>ha_windows := hm_insert key (window_reset (reset_at key) w) (ha_windows s)\<rparr>"
    have "open_events ?s = open_events s"
      using Some True by (simp add: open_events_reset fun_upd_idem_iff) (simp add: open_events_def)
    then have "summary_account to_vec enc ins out log ?s"
      using assms window_ok_reset [OF ok] by (simp add: summary_account_def del: split_paired_All)
    then show ?thesis
      using Some True by (auto simp: generate_summary_def)
  next
    case False
    from assms have count: "ha_summary_counter s = of_nat (length log)"
      by (simp add: summary_account_def)
    from generate_summary_summarises [OF ok False count, of to_vec enc "stamp key"]
    obtain e where
      gen: "generate_summary to_vec enc (stamp key) w s =
              (s\<lparr>ha_summary_counter := of_nat (Suc (length log))\<rparr>, Some e)" and
      e: "summarises to_vec enc (ha_tier_id s) (ha_summary_strategies s) (Suc (length log), key, aw_events w) e" .
    let ?s = "s\<lparr>ha_summary_counter := of_nat (Suc (length log)), ha_summary_queue := ha_summary_queue s @ [e],
                ha_windows := hm_insert key (window_reset (reset_at key) w) (ha_windows s)\<rparr>"
    have "batches k (log @ [(key, aw_events w)]) @ open_events ?s k = batches k log @ open_events s k" for k
      using Some by (simp add: batches_snoc open_events_reset) (simp add: open_events_def)
    moreover have "list_all2 (summarises to_vec enc (ha_tier_id s) (ha_summary_strategies s))
        (enumerate 1 (log @ [(key, aw_events w)])) ((out @ ha_summary_queue s) @ [e])"
      using assms e
      by (simp only: enumerate_snoc summary_account_def) (rule list_all2_appendI, simp_all)
    ultimately have "summary_account to_vec enc ins out (log @ [(key, aw_events w)]) ?s"
      using assms window_ok_reset [OF ok] by (simp add: summary_account_def del: split_paired_All)
    then show ?thesis
      using Some by (auto simp: gen)
  qed
qed

lemma flush_keys_account:
  assumes "summary_account to_vec enc ins out log s"
  shows "\<exists>log'. summary_account to_vec enc ins out log' (fst (flush_keys to_vec enc stamp reset_at keys s n))"
  using assms
proof (induction keys arbitrary: s n log)
  case Nil
  then show ?case by auto
next
  case (Cons key keys)
  from flush_key_account [OF Cons.prems] obtain log' n' where
    "flush_keys to_vec enc stamp reset_at (key # keys) s n =
       flush_keys to_vec enc stamp reset_at keys (fst (flush_keys to_vec enc stamp reset_at [key] s n)) n'"
    "summary_account to_vec enc ins out log' (fst (flush_keys to_vec enc stamp reset_at [key] s n))"
    by blast
  with Cons.IH show ?case
    by (metis (no_types, lifting))
qed


lemma receive_summary_account:
  assumes "summary_account to_vec enc ins out log s"
  shows "summary_account to_vec enc (ins @ [e]) out log (fst (receive_event now e s))"
proof (cases "propagation_of e = PropagationSummary")
  case False
  then show ?thesis
    using assms
    by (cases "propagation_of e")
       (simp_all add: summary_account_def receive_event_def to_summarise_def open_events_def del: split_paired_All)
next
  case True
  let ?k = "window_key_of e" and ?s = "fst (receive_event now e s)"
  obtain w where w: "ha_windows ?s = hm_insert ?k (window_add e w) (ha_windows s)"
      "aw_events w = open_events s ?k" "window_ok ?k w"
  proof (cases "hm_get (ha_windows s) ?k")
    case None
    then obtain d where
      "ha_windows ?s = hm_insert ?k (window_add e (window_new (class_of_key ?k) (snd ?k) d now)) (ha_windows s)"
      using True by (simp add: receive_event_def Let_def window_key_of_def del: event_class_of_int.simps)
    with None show ?thesis
      by (intro that [OF _ _ window_ok_new]) (simp_all only: open_events_def window_new_empty option.case)
  next
    case (Some w)
    moreover from this assms have "window_ok ?k w"
      unfolding summary_account_def by blast
    ultimately show ?thesis
      using True by (intro that [of w]) (simp_all add: receive_event_def Let_def window_key_of_def open_events_def)
  qed
  have frame: "ha_summary_counter ?s = ha_summary_counter s" "ha_tier_id ?s = ha_tier_id s"
      "ha_summary_strategies ?s = ha_summary_strategies s" "ha_summary_queue ?s = ha_summary_queue s"
    using True by (simp_all add: receive_event_def Let_def)
  have "open_events ?s = (open_events s)(?k := open_events s ?k @ [e])"
    using w by (auto simp: open_events_def window_add_def fun_eq_iff)
  then have "batches k log @ open_events ?s k = filter (to_summarise k) (ins @ [e])" for k
    using assms True by (simp add: summary_account_def to_summarise_def flip: append_assoc del: split_paired_All)
  then show ?thesis
    using assms w(1) window_ok_add [OF w(3)] by (simp add: summary_account_def frame del: split_paired_All)
qed


subsection \<open>The account of the forwarded events\<close>

definition forward_account :: "peat_event list \<Rightarrow> peat_event list \<Rightarrow> hierarchy_aggregator \<Rightarrow> bool" where
  "forward_account ins out s \<longleftrightarrow>
     event_queue_wf (ha_passthrough_queue s) \<and>
     (\<forall>l < PRIORITY_LEVELS. filter (\<lambda>e. event_level e = l) out @ pq_queues (ha_passthrough_queue s) ! l =
        filter (to_forward l) ins)"

lemma receive_forward_account:
  assumes "forward_account ins out s"
  shows "forward_account (ins @ [e]) out (fst (receive_event now e s))"
proof (cases "propagation_of e = PropagationFull")
  case True
  let ?q = "ha_passthrough_queue s"
  have len: "length (pq_queues ?q) = PRIORITY_LEVELS" and wf: "event_queue_wf ?q"
    using assms by (simp_all add: forward_account_def event_queue_wf_def)
  have "pq_queues (event_push e ?q) ! l = pq_queues ?q ! l @ (if event_level e = l then [e] else [])"
    if "l < PRIORITY_LEVELS" for l
    using that len by (simp add: event_push_def Let_def push_level_nth event_level_def)
  then show ?thesis
    using assms True event_queue_wf_push [OF wf, of e]
    by (simp add: forward_account_def receive_event_def to_forward_def flip: append_assoc)
next
  case False
  then show ?thesis
    using assms
    by (cases "propagation_of e") (simp_all add: forward_account_def receive_event_def to_forward_def Let_def)
qed

text \<open>
  One call of \<open>pop_passthrough\<close>: all critical events, and of the other levels a prefix each, within one
  hundred events.
\<close>

lemma pop_passthrough_run:
  assumes "event_queue_wf (ha_passthrough_queue s)"
  defines "Q \<equiv> pq_queues (ha_passthrough_queue s)"
  defines "h \<equiv> min 50 (length (Q ! 1))"
  defines "m \<equiv> min (85 - h) (length (Q ! 2))"
  shows "snd (pop_passthrough s) = Q ! 0 @ take h (Q ! 1) @ take m (Q ! 2) @ take (100 - h - m) (Q ! 3)"
    and "pq_queues (ha_passthrough_queue (fst (pop_passthrough s))) =
           [[], drop h (Q ! 1), drop m (Q ! 2), drop (100 - h - m) (Q ! 3)]"
proof -
  have len: "length Q = 4"
    using assms(1) by (simp add: event_queue_wf_def PRIORITY_LEVELS_def Q_def)
  let ?q = "fst (pop_critical (ha_passthrough_queue s))"
  have q: "pq_queues ?q = Q[0 := []]"
    by (simp add: pop_critical_def Q_def)
  have share: "high_share 100 = 50" "normal_share 100 = 35"
    by (simp_all add: high_share_def normal_share_def)
  have run: "snd (pop_weighted 100 ?q) = take h (Q ! 1) @ take m (Q ! 2) @ take (100 - h - m) (Q ! 3)"
      "pq_queues (fst (pop_weighted 100 ?q)) =
         Q[0 := [], 1 := drop h (Q ! 1), 2 := drop m (Q ! 2), 3 := drop (100 - h - m) (Q ! 3)]"
    using pop_weighted_run [of ?q 100] len by (simp_all add: q share h_def m_def)
  show "snd (pop_passthrough s) = Q ! 0 @ take h (Q ! 1) @ take m (Q ! 2) @ take (100 - h - m) (Q ! 3)"
    using run(1) by (simp add: pop_passthrough_def pop_critical_def case_prod_beta Let_def Q_def)
  obtain a b c d where "Q = [a, b, c, d]"
    using len by (auto simp: length_Suc_conv numeral_eq_Suc)
  then show "pq_queues (ha_passthrough_queue (fst (pop_passthrough s))) =
      [[], drop h (Q ! 1), drop m (Q ! 2), drop (100 - h - m) (Q ! 3)]"
    using run(2) by (simp add: pop_passthrough_def pop_critical_def case_prod_beta Let_def Q_def)
qed


lemma filter_level:
  assumes "event_queue_wf q" "k < PRIORITY_LEVELS" "set xs \<subseteq> set (pq_queues q ! k)"
  shows "filter (\<lambda>e. event_level e = l) xs = (if k = l then xs else [])"
  using assms by (auto simp: event_queue_wf_def filter_id_conv filter_empty_conv subset_iff)

lemma pop_forward_account:
  assumes "forward_account ins out s"
  shows "forward_account ins (out @ snd (pop_passthrough s)) (fst (pop_passthrough s))"
proof -
  let ?q = "ha_passthrough_queue s" and ?q' = "ha_passthrough_queue (fst (pop_passthrough s))"
  have wf: "event_queue_wf ?q"
    using assms by (simp add: forward_account_def)
  obtain i j k where pop:
      "snd (pop_passthrough s) = pq_queues ?q ! 0 @ take i (pq_queues ?q ! 1) @ take j (pq_queues ?q ! 2)
         @ take k (pq_queues ?q ! 3)"
      "pq_queues ?q' = [[], drop i (pq_queues ?q ! 1), drop j (pq_queues ?q ! 2), drop k (pq_queues ?q ! 3)]"
    using pop_passthrough_run [OF wf] by blast
  have levels: "l < PRIORITY_LEVELS \<longleftrightarrow> l = 0 \<or> l = 1 \<or> l = 2 \<or> l = 3" for l
    by (auto simp: PRIORITY_LEVELS_def)
  have part: "filter (\<lambda>e. event_level e = l) (snd (pop_passthrough s)) @ pq_queues ?q' ! l = pq_queues ?q ! l"
    if "l < PRIORITY_LEVELS" for l
    using that unfolding levels pop
    by (auto simp: levels filter_level [OF wf _ subset_refl] filter_level [OF wf _ set_take_subset])
  have "set (pq_queues ?q' ! l) \<subseteq> set (pq_queues ?q ! l)" if "l < PRIORITY_LEVELS" for l
    using part [OF that] by (metis set_append Un_upper2)
  then have "event_queue_wf ?q'"
    using wf by (simp add: event_queue_wf_def pop(2) PRIORITY_LEVELS_def) blast
  moreover have "filter (\<lambda>e. event_level e = l) (out @ snd (pop_passthrough s)) @ pq_queues ?q' ! l =
      filter (to_forward l) ins" if "l < PRIORITY_LEVELS" for l
    using assms part [OF that] that by (simp add: forward_account_def)
  ultimately show ?thesis
    by (simp add: forward_account_def)
qed


subsection \<open>Runs keep both accounts\<close>

lemma flush_keys_frame:
  "ha_tier_id (fst (flush_keys to_vec enc stamp reset_at keys s n)) = ha_tier_id s"
  "ha_summary_strategies (fst (flush_keys to_vec enc stamp reset_at keys s n)) = ha_summary_strategies s"
  "ha_passthrough_queue (fst (flush_keys to_vec enc stamp reset_at keys s n)) = ha_passthrough_queue s"
  by (induction keys arbitrary: s n)
     (auto simp: generate_summary_def generate_summary_id_def Let_def split: option.splits)

lemmas flush_defs = flush_expired_windows_def flush_all_windows_def Let_def

lemma step_frame:
  "ha_tier_id (fst (aggregator_step to_vec enc op s)) = ha_tier_id s"
  "ha_summary_strategies (fst (aggregator_step to_vec enc op s)) = ha_summary_strategies s"
  by (cases op;
      simp add: flush_defs flush_keys_frame receive_event_def pop_passthrough_def pop_summaries_def
        enforce_ttl_def case_prod_beta split: propagation_mode.split)+

lemma step_summary_account:
  assumes "summary_account to_vec enc ins out log s"
  shows "\<exists>log'. summary_account to_vec enc (ins @ received op) (out @ snd (snd (aggregator_step to_vec enc op s)))
           log' (fst (aggregator_step to_vec enc op s))"
proof (cases op)
  case (Receive now e)
  then show ?thesis
    using receive_summary_account [OF assms, of e now] by auto
next
  case FlushExpired
  then show ?thesis
    using flush_keys_account [OF assms] by (simp add: flush_defs)
next
  case FlushAll
  then show ?thesis
    using flush_keys_account [OF assms] by (simp add: flush_defs)
next
  case PopPassthrough
  then show ?thesis
    using assms
    by (auto simp: summary_account_def pop_passthrough_def open_events_def case_prod_beta Let_def
        simp del: split_paired_All)
next
  case PopSummaries
  then show ?thesis
    using assms
    by (auto simp: summary_account_def pop_summaries_def open_events_def simp del: split_paired_All)
next
  case EnforceTtl
  then show ?thesis
    using assms
    by (auto simp: summary_account_def enforce_ttl_def open_events_def simp del: split_paired_All)
qed

lemma step_forward_account:
  assumes "forward_account ins out s"
  shows "forward_account (ins @ received op) (out @ fst (snd (aggregator_step to_vec enc op s)))
           (fst (aggregator_step to_vec enc op s))"
  using assms receive_forward_account [OF assms] pop_forward_account [OF assms]
  by (cases op)
     (simp_all add: case_prod_beta Let_def,
      simp_all add: forward_account_def flush_defs flush_keys_frame pop_summaries_def enforce_ttl_def)

lemma run_accounts:
  assumes "summary_account to_vec enc ins out log s" "forward_account ins out' s"
    "aggregator_run to_vec enc ops s = (s', full, summaries)"
  shows "(\<exists>log'. summary_account to_vec enc (ins @ concat (map received ops)) (out @ summaries) log' s') \<and>
         forward_account (ins @ concat (map received ops)) (out' @ full) s' \<and>
         ha_tier_id s' = ha_tier_id s \<and> ha_summary_strategies s' = ha_summary_strategies s"
  using assms
proof (induction ops arbitrary: s ins out out' log full summaries)
  case Nil
  then show ?case by auto
next
  case (Cons op ops)
  obtain t f1 s1 where step: "aggregator_step to_vec enc op s = (t, f1, s1)"
    by (metis prod_cases3)
  obtain f2 s2 where run: "aggregator_run to_vec enc ops t = (s', f2, s2)"
      and out: "full = f1 @ f2" "summaries = s1 @ s2"
    using Cons.prems(3) by (auto simp: step case_prod_beta Let_def prod_eq_iff)
  obtain log' where summary: "summary_account to_vec enc (ins @ received op) (out @ s1) log' t"
    using step_summary_account [OF Cons.prems(1), of op] by (auto simp: step)
  have forward: "forward_account (ins @ received op) (out' @ f1) t"
    using step_forward_account [OF Cons.prems(2), of op to_vec enc] by (simp add: step)
  show ?case
    using Cons.IH [OF summary forward run] step_frame [of to_vec enc op s] by (simp add: out step)
qed

text \<open>The states in which the aggregator starts to serve.\<close>

definition configured :: "json_writer \<Rightarrow> string \<Rightarrow> hierarchy_level \<Rightarrow> nat \<Rightarrow> summary_strategy list
    \<Rightarrow> hierarchy_aggregator" where
  "configured to_vec tier_id tier d strategies =
     fold register_strategy strategies (with_default_window_duration d (aggregator_new to_vec tier_id tier))"

lemma configured_fields:
  "ha_windows (configured to_vec tier_id tier d sts) = []"
  "ha_tier_id (configured to_vec tier_id tier d sts) = tier_id"
  "ha_passthrough_queue (configured to_vec tier_id tier d sts) = event_queue_new"
  "ha_summary_queue (configured to_vec tier_id tier d sts) = []"
  "ha_summary_counter (configured to_vec tier_id tier d sts) = 0"
proof -
  have "ha_windows (fold register_strategy sts s) = ha_windows s \<and>
        ha_tier_id (fold register_strategy sts s) = ha_tier_id s \<and>
        ha_passthrough_queue (fold register_strategy sts s) = ha_passthrough_queue s \<and>
        ha_summary_queue (fold register_strategy sts s) = ha_summary_queue s \<and>
        ha_summary_counter (fold register_strategy sts s) = ha_summary_counter s" for s
    by (induction sts arbitrary: s) (simp_all add: register_strategy_def)
  then show "ha_windows (configured to_vec tier_id tier d sts) = []"
    "ha_tier_id (configured to_vec tier_id tier d sts) = tier_id"
    "ha_passthrough_queue (configured to_vec tier_id tier d sts) = event_queue_new"
    "ha_summary_queue (configured to_vec tier_id tier d sts) = []"
    "ha_summary_counter (configured to_vec tier_id tier d sts) = 0"
    by (simp_all add: configured_def with_default_window_duration_def aggregator_new_def Let_def)
qed

lemma configured_accounts:
  "summary_account to_vec enc [] [] [] (configured to_vec tier_id tier d sts)"
  "forward_account [] [] (configured to_vec tier_id tier d sts)"
proof -
  have "pq_queues event_queue_new ! l = []" if "l < PRIORITY_LEVELS" for l
    using that by (simp add: event_queue_new_def)
  then show "forward_account [] [] (configured to_vec tier_id tier d sts)"
    by (simp add: forward_account_def configured_fields event_queue_wf_new)
  show "summary_account to_vec enc [] [] [] (configured to_vec tier_id tier d sts)"
    by (simp add: summary_account_def configured_fields open_events_def batches_def hm_get_def)
qed

lemma flush_keys_open:
  "open_events (fst (flush_keys to_vec enc stamp reset_at keys s n)) k =
     (if k \<in> set keys then [] else open_events s k)"
proof (induction keys arbitrary: s n)
  case Nil
  then show ?case by simp
next
  case (Cons key keys)
  show ?case
  proof (cases "hm_get (ha_windows s) key")
    case None
    then show ?thesis
      by (simp add: Cons.IH) (simp add: open_events_def)
  next
    case (Some w)
    obtain t r where gen: "generate_summary to_vec enc (stamp key) w s = (t, r)"
      by fastforce
    have "ha_windows t = ha_windows s"
      using gen by (auto simp: generate_summary_def generate_summary_id_def Let_def split: if_splits)
    then show ?thesis
      using Some gen
      by (cases r) (simp_all add: Cons.IH open_events_reset [of _ key "reset_at key" w s])
  qed
qed

lemma flush_all_open: "open_events (fst (flush_all_windows to_vec enc stamp reset_at s)) k = []"
proof (cases "open_events s k = []")
  case True
  then show ?thesis
    by (simp add: flush_all_windows_def Let_def flush_keys_open)
next
  case False
  then obtain w where "hm_get (ha_windows s) k = Some w" "aw_events w \<noteq> []"
    by (auto simp: open_events_def split: option.splits)
  then have "(k, w) \<in> set (filter (\<lambda>(k, w). aw_events w \<noteq> []) (ha_windows s))"
    by (simp add: hm_get_SomeD)
  then have "k \<in> set (map fst (filter (\<lambda>(k, w). aw_events w \<noteq> []) (ha_windows s)))"
    by (force simp del: set_filter)
  then show ?thesis
    by (simp only: flush_all_windows_def Let_def flush_keys_open if_True)
qed

text \<open>
  C23. The aggregator loses and repeats nothing. However it is configured and whatever calls are made, the
  events received for summaries under one class and type are, in order, the batches of the summaries made
  for that window followed by the events still open in it, and flushing all windows leaves none open; the
  summaries handed out and still queued are those of the batches, each numbered, counted, with exactly the
  contributing nodes and the payload of the strategy for its type. The events received for forwarding at a
  priority level are, in order, those handed out at that level followed by those still queued.
\<close>

theorem aggregator_accounting:
  "case aggregator_run to_vec enc ops (configured to_vec tier_id tier d strategies) of (s, full, summaries) \<Rightarrow>
     (\<exists>log.
        list_all2
          (summarises to_vec enc tier_id (ha_summary_strategies (configured to_vec tier_id tier d strategies)))
          (enumerate 1 log) (summaries @ ha_summary_queue s) \<and>
        (\<forall>k. batches k log @ open_events s k = filter (to_summarise k) (concat (map received ops)))) \<and>
     (\<forall>k. open_events (fst (flush_all_windows to_vec enc stamp reset_at s)) k = []) \<and>
     map (\<lambda>l. filter (\<lambda>e. event_level e = l) full @ pq_queues (ha_passthrough_queue s) ! l) [0..<PRIORITY_LEVELS] =
       map (\<lambda>l. filter (to_forward l) (concat (map received ops))) [0..<PRIORITY_LEVELS]"
proof -
  let ?c = "configured to_vec tier_id tier d strategies"
  obtain s full summaries where run: "aggregator_run to_vec enc ops ?c = (s, full, summaries)"
    by (metis prod_cases3)
  from run_accounts [OF configured_accounts run] obtain log where
    "summary_account to_vec enc (concat (map received ops)) summaries log s"
    "forward_account (concat (map received ops)) full s"
    "ha_tier_id s = tier_id" "ha_summary_strategies s = ha_summary_strategies ?c"
    by (auto simp: configured_fields)
  then show ?thesis
    by (auto simp: run summary_account_def forward_account_def flush_all_open simp del: split_paired_All)
qed

end
