(* ===== verification/Flow_Control.thy ===== *)
theory Flow_Control
  imports Cell_Messaging Qos_Classification Token_Bucket
begin

text \<open>
  Flow control for hierarchical routing, \<open>peat-protocol/src/hierarchy/flow_control.rs\<close>: token buckets for
  messages and bytes at two levels, permits, and backpressure. A refill reads the clock twice, once for
  the elapsed time and once for the new mark; a reading is the pair. Waiting for tokens may go on for
  ever, so the loop is a partial function and a call that never returns is \<open>None\<close>.
\<close>


subsection \<open>Limits and levels\<close>

record bandwidth_limit =
  bl_messages_per_sec :: nat
  bl_bytes_per_sec :: nat

definition cell_default :: bandwidth_limit where
  "cell_default = \<lparr>bl_messages_per_sec = 100, bl_bytes_per_sec = 100000\<rparr>"

definition zone_default :: bandwidth_limit where
  "zone_default = \<lparr>bl_messages_per_sec = 50, bl_bytes_per_sec = 50000\<rparr>"

datatype routing_level = LevelCell | LevelZone

datatype message_drop_policy = DropLowPriority | DropOldest | NeverDrop


subsection \<open>Backpressure\<close>

record backpressure_state =
  bp_active :: bool
  bp_started_at :: "instant option"
  bp_dropped_count :: u64

definition backpressure_new :: backpressure_state where
  "backpressure_new = \<lparr>bp_active = False, bp_started_at = None, bp_dropped_count = 0\<rparr>"

definition bp_activate :: "instant \<Rightarrow> backpressure_state \<Rightarrow> backpressure_state" where
  "bp_activate now self = (if \<not> bp_active self then self\<lparr>bp_active := True, bp_started_at := Some now\<rparr> else self)"

definition bp_deactivate :: "backpressure_state \<Rightarrow> backpressure_state" where
  "bp_deactivate self = (if bp_active self then self\<lparr>bp_active := False, bp_started_at := None\<rparr> else self)"


subsection \<open>The token bucket\<close>

type_synonym reading = "instant \<times> instant"

record flow_bucket =
  fb_tokens :: rat
  fb_capacity :: rat
  fb_refill_rate :: rat
  fb_last_refill :: instant

definition flow_bucket_new :: "rat \<Rightarrow> rat \<Rightarrow> instant \<Rightarrow> flow_bucket" where
  "flow_bucket_new capacity refill_rate now =
     \<lparr>fb_tokens = capacity, fb_capacity = capacity, fb_refill_rate = refill_rate, fb_last_refill = now\<rparr>"

definition flow_refill :: "reading \<Rightarrow> flow_bucket \<Rightarrow> flow_bucket" where
  "flow_refill r self =
     (let elapsed = as_secs_f64 (elapsed (fst r) (fb_last_refill self))
      in if elapsed > 0
         then (let new_tokens = f_times elapsed (fb_refill_rate self)
               in self\<lparr>fb_tokens := min (f_add (fb_tokens self) new_tokens) (fb_capacity self), fb_last_refill := snd r\<rparr>)
         else self)"

definition flow_try_consume :: "reading \<Rightarrow> rat \<Rightarrow> flow_bucket \<Rightarrow> flow_bucket \<times> bool" where
  "flow_try_consume r amount self =
     (let self = flow_refill r self
      in if fb_tokens self \<ge> amount then (self\<lparr>fb_tokens := f_sub (fb_tokens self) amount\<rparr>, True) else (self, False))"

partial_function (option) flow_consume :: "(nat \<Rightarrow> reading) \<Rightarrow> rat \<Rightarrow> flow_bucket \<Rightarrow> flow_bucket option" where
  "flow_consume clock amount self =
     (let (self, ok) = flow_try_consume (clock 0) amount self
      in if ok then Some self else flow_consume (\<lambda>i. clock (Suc i)) amount self)"

definition flow_available_tokens :: "reading \<Rightarrow> flow_bucket \<Rightarrow> flow_bucket \<times> rat" where
  "flow_available_tokens r self = (let self = flow_refill r self in (self, fb_tokens self))"


subsection \<open>The controller\<close>

record flow_metrics =
  fm_cell_messages_sent :: u64
  fm_cell_bytes_sent :: u64
  fm_zone_messages_sent :: u64
  fm_zone_bytes_sent :: u64
  fm_messages_dropped :: u64
  fm_backpressure_events :: u64

record flow_controller =
  fc_cell_message_limiter :: flow_bucket
  fc_cell_byte_limiter :: flow_bucket
  fc_zone_message_limiter :: flow_bucket
  fc_zone_byte_limiter :: flow_bucket
  fc_backpressure :: backpressure_state
  fc_drop_policy :: message_drop_policy
  fc_metrics :: flow_metrics

definition flow_controller_new ::
    "bandwidth_limit \<Rightarrow> bandwidth_limit \<Rightarrow> message_drop_policy \<Rightarrow> (nat \<Rightarrow> instant) \<Rightarrow> flow_controller" where
  "flow_controller_new cell_limit zone_limit drop_policy clock =
     \<lparr>fc_cell_message_limiter = flow_bucket_new (as_f64 (bl_messages_per_sec cell_limit)) (as_f64 (bl_messages_per_sec cell_limit)) (clock 0),
      fc_cell_byte_limiter = flow_bucket_new (as_f64 (bl_bytes_per_sec cell_limit)) (as_f64 (bl_bytes_per_sec cell_limit)) (clock 1),
      fc_zone_message_limiter = flow_bucket_new (as_f64 (bl_messages_per_sec zone_limit)) (as_f64 (bl_messages_per_sec zone_limit)) (clock 2),
      fc_zone_byte_limiter = flow_bucket_new (as_f64 (bl_bytes_per_sec zone_limit)) (as_f64 (bl_bytes_per_sec zone_limit)) (clock 3),
      fc_backpressure = backpressure_new,
      fc_drop_policy = drop_policy,
      fc_metrics = \<lparr>fm_cell_messages_sent = 0, fm_cell_bytes_sent = 0, fm_zone_messages_sent = 0,
                    fm_zone_bytes_sent = 0, fm_messages_dropped = 0, fm_backpressure_events = 0\<rparr>\<rparr>"

fun priority_multiplier :: "message_priority \<Rightarrow> rat" where
  "priority_multiplier PrioCritical = 1 / 2"
| "priority_multiplier PrioHigh = 3 / 4"
| "priority_multiplier PrioNormal = 1"
| "priority_multiplier PrioLow = 3 / 2"

definition apply_backpressure_internal :: "instant \<Rightarrow> flow_controller \<Rightarrow> flow_controller" where
  "apply_backpressure_internal now self =
     self\<lparr>fc_backpressure := bp_activate now (fc_backpressure self),
          fc_metrics := (fc_metrics self)\<lparr>fm_backpressure_events := fm_backpressure_events (fc_metrics self) + 1\<rparr>\<rparr>"

text \<open>The limiters of a level, taken from the controller and put back.\<close>

definition limiters :: "routing_level \<Rightarrow> flow_controller \<Rightarrow> flow_bucket \<times> flow_bucket" where
  "limiters level self =
     (case level of
        LevelCell \<Rightarrow> (fc_cell_message_limiter self, fc_cell_byte_limiter self)
      | LevelZone \<Rightarrow> (fc_zone_message_limiter self, fc_zone_byte_limiter self))"

definition set_limiters :: "routing_level \<Rightarrow> flow_bucket \<Rightarrow> flow_bucket \<Rightarrow> flow_controller \<Rightarrow> flow_controller" where
  "set_limiters level msg byte self =
     (case level of
        LevelCell \<Rightarrow> self\<lparr>fc_cell_message_limiter := msg, fc_cell_byte_limiter := byte\<rparr>
      | LevelZone \<Rightarrow> self\<lparr>fc_zone_message_limiter := msg, fc_zone_byte_limiter := byte\<rparr>)"

definition count_sent :: "routing_level \<Rightarrow> nat \<Rightarrow> flow_controller \<Rightarrow> flow_controller" where
  "count_sent level message_size self =
     (let m = fc_metrics self
      in self\<lparr>fc_metrics :=
           (case level of
              LevelCell \<Rightarrow> m\<lparr>fm_cell_messages_sent := fm_cell_messages_sent m + 1,
                             fm_cell_bytes_sent := fm_cell_bytes_sent m + of_nat message_size\<rparr>
            | LevelZone \<Rightarrow> m\<lparr>fm_zone_messages_sent := fm_zone_messages_sent m + 1,
                             fm_zone_bytes_sent := fm_zone_bytes_sent m + of_nat message_size\<rparr>)\<rparr>)"

text \<open>The readings of the two limiters, the first of each for the attempt that does not wait.\<close>

definition acquire_permit ::
    "(nat \<Rightarrow> reading) \<Rightarrow> (nat \<Rightarrow> reading) \<Rightarrow> instant \<Rightarrow> routing_level \<Rightarrow> nat \<Rightarrow> message_priority \<Rightarrow> flow_controller \<Rightarrow> flow_controller option" where
  "acquire_permit msg_clock byte_clock now level message_size priority self =
     (let (msg, byte) = limiters level self;
          message_tokens = f_times 1 (priority_multiplier priority);
          byte_tokens = f_times (as_f64 message_size) (priority_multiplier priority);
          (msg, msg_ok) = flow_try_consume (msg_clock 0) message_tokens msg;
          (byte, acquired) = (if msg_ok then flow_try_consume (byte_clock 0) byte_tokens byte else (byte, False))
      in if acquired then Some (count_sent level message_size (set_limiters level msg byte self))
         else (let self = apply_backpressure_internal now self
               in case flow_consume (\<lambda>i. msg_clock (Suc i)) message_tokens msg of
                    None \<Rightarrow> None
                  | Some msg \<Rightarrow>
                      (case flow_consume (\<lambda>i. byte_clock (Suc i)) byte_tokens byte of
                         None \<Rightarrow> None
                       | Some byte \<Rightarrow> Some (count_sent level message_size (set_limiters level msg byte self)))))"

definition acquire_permit_qos ::
    "(nat \<Rightarrow> reading) \<Rightarrow> (nat \<Rightarrow> reading) \<Rightarrow> instant \<Rightarrow> routing_level \<Rightarrow> nat \<Rightarrow> qos_class \<Rightarrow> flow_controller \<Rightarrow> flow_controller option" where
  "acquire_permit_qos msg_clock byte_clock now level message_size qos_class self =
     acquire_permit msg_clock byte_clock now level message_size (message_priority_from_qos qos_class) self"

definition release_backpressure :: "flow_controller \<Rightarrow> flow_controller" where
  "release_backpressure self = self\<lparr>fc_backpressure := bp_deactivate (fc_backpressure self)\<rparr>"

definition should_drop :: "message_priority \<Rightarrow> flow_controller \<Rightarrow> bool" where
  "should_drop priority self =
     (case fc_drop_policy self of
        DropLowPriority \<Rightarrow> priority = PrioLow \<or> priority = PrioNormal
      | DropOldest \<Rightarrow> False
      | NeverDrop \<Rightarrow> False)"

definition should_drop_qos :: "qos_class \<Rightarrow> flow_controller \<Rightarrow> bool" where
  "should_drop_qos qos_class self = should_drop (message_priority_from_qos qos_class) self"

definition record_drop :: "flow_controller \<Rightarrow> flow_controller" where
  "record_drop self =
     self\<lparr>fc_metrics := (fc_metrics self)\<lparr>fm_messages_dropped := fm_messages_dropped (fc_metrics self) + 1\<rparr>\<rparr>"

definition available_capacity ::
    "reading \<Rightarrow> reading \<Rightarrow> routing_level \<Rightarrow> flow_controller \<Rightarrow> flow_controller \<times> nat \<times> nat" where
  "available_capacity msg_reading byte_reading level self =
     (let (msg, byte) = limiters level self;
          (msg, available_messages) = flow_available_tokens msg_reading msg;
          (byte, available_bytes) = flow_available_tokens byte_reading byte
      in (set_limiters level msg byte self, nat \<lfloor>available_messages\<rfloor>, nat \<lfloor>available_bytes\<rfloor>))"

subsection \<open>One bucket\<close>

definition flow_wf :: "flow_bucket \<Rightarrow> bool" where
  "flow_wf b \<longleftrightarrow> 0 \<le> fb_tokens b \<and> fb_tokens b \<le> fb_capacity b \<and> 0 \<le> fb_refill_rate b \<and> fl 53 (fb_capacity b) = fb_capacity b"

definition flow_op :: "instant \<Rightarrow> flow_bucket \<Rightarrow> rat \<Rightarrow> flow_bucket \<Rightarrow> bool" where
  "flow_op start b c b' \<longleftrightarrow>
     (\<exists>r amount. start \<le> fst r \<and> fb_last_refill b \<le> fst r \<and> fst r \<le> snd r \<and> 0 \<le> amount \<and>
        (b' = fst (flow_try_consume r amount b) \<and> c = (if snd (flow_try_consume r amount b) then amount else 0)
         \<or> b' = flow_refill r b \<and> c = 0))"

lemma flow_refill_eq:
  assumes "fb_last_refill b \<le> fst r" "fst r \<le> snd r" "flow_wf b"
  obtains n where "flow_refill r b = b\<lparr>fb_tokens := fb_tokens (flow_refill r b), fb_last_refill := fb_last_refill b + n\<rparr>"
    "fst r \<le> fb_last_refill b + n"
    "0 \<le> fb_tokens (flow_refill r b)" "fb_tokens (flow_refill r b) \<le> fb_capacity b"
    "fb_tokens (flow_refill r b) \<le> fb_tokens b + fb_refill_rate b * (of_nat n / 10 ^ 9) * (1 + 1 / 2 ^ 50) + fb_capacity b / 2 ^ 53"
proof (cases "fb_last_refill b = fst r")
  case True
  then have "flow_refill r b = b" by (simp add: flow_refill_def elapsed_def)
  then show thesis using that [of 0] assms(3) True by (simp add: flow_wf_def)
next
  case False
  let ?ns = "fst r - fb_last_refill b" and ?n = "snd r - fb_last_refill b"
  have "0 < ?ns" using False assms by simp
  then have eq: "flow_refill r b = b\<lparr>fb_tokens := refilled (fb_capacity b) (fb_refill_rate b) ?ns (fb_tokens b), fb_last_refill := snd r\<rparr>"
    using as_secs_f64_pos [of ?ns] by (simp add: flow_refill_def refilled_def elapsed_def Let_def)
  have wf: "0 \<le> fb_tokens b" "0 \<le> fb_refill_rate b" "0 \<le> fb_capacity b" using assms(3) by (simp_all add: flow_wf_def)
  have "fb_refill_rate b * (of_nat ?ns / 10 ^ 9) * (1 + 1 / 2 ^ 50) \<le> fb_refill_rate b * (of_nat ?n / 10 ^ 9) * (1 + 1 / 2 ^ 50)"
    using assms wf by (intro mult_right_mono mult_left_mono divide_right_mono) simp_all
  then show thesis
    using refilled_bounds [OF wf, of ?ns] assms(1,2) by (intro that [of ?n]) (simp_all add: eq)
qed

lemma flow_try_eq:
  "flow_try_consume r amount b =
     (let b = flow_refill r b
      in (if amount \<le> fb_tokens b then b\<lparr>fb_tokens := f_sub (fb_tokens b) amount\<rparr> else b, amount \<le> fb_tokens b))"
  by (simp add: flow_try_consume_def Let_def)

lemma flow_config [simp]:
  "fb_capacity (flow_refill r b) = fb_capacity b" "fb_refill_rate (flow_refill r b) = fb_refill_rate b"
  "fb_capacity (fst (flow_try_consume r amount b)) = fb_capacity b" "fb_refill_rate (fst (flow_try_consume r amount b)) = fb_refill_rate b"
  by (simp_all add: flow_refill_def flow_try_eq Let_def)

lemma flow_op_elim:
  assumes "flow_op start b c b'" "flow_wf b"
  obtains n t where "start \<le> fb_last_refill b'" "fb_last_refill b' = fb_last_refill b + n" "flow_wf b'"
    "t \<le> fb_capacity b" "t \<le> fb_tokens b + fb_refill_rate b * (of_nat n / 10 ^ 9) * (1 + 1 / 2 ^ 50) + fb_capacity b / 2 ^ 53"
    "fb_tokens b' + c \<le> t + fb_capacity b / 2 ^ 53"
proof -
  obtain r amount where r: "start \<le> fst r" "fb_last_refill b \<le> fst r" "fst r \<le> snd r" "0 \<le> amount"
    and b': "b' = fst (flow_try_consume r amount b) \<and> c = (if snd (flow_try_consume r amount b) then amount else 0)
         \<or> b' = flow_refill r b \<and> c = 0"
    using assms(1) unfolding flow_op_def by blast
  define m where "m = flow_refill r b"
  obtain n where n: "m = b\<lparr>fb_tokens := fb_tokens m, fb_last_refill := fb_last_refill b + n\<rparr>" "fst r \<le> fb_last_refill b + n"
    "0 \<le> fb_tokens m" "fb_tokens m \<le> fb_capacity b"
    "fb_tokens m \<le> fb_tokens b + fb_refill_rate b * (of_nat n / 10 ^ 9) * (1 + 1 / 2 ^ 50) + fb_capacity b / 2 ^ 53"
    unfolding m_def by (rule flow_refill_eq [OF r(2,3) assms(2)])
  have m: "fb_capacity m = fb_capacity b" "fb_refill_rate m = fb_refill_rate b" "fb_last_refill m = fb_last_refill b + n"
    by (subst n(1); simp)+
  have wf: "fl 53 (fb_capacity b) = fb_capacity b" "0 \<le> fb_refill_rate b" "0 \<le> fb_capacity b / 2 ^ 53"
    using assms(2) by (simp_all add: flow_wf_def)
  have "(b' = m\<lparr>fb_tokens := f_sub (fb_tokens m) amount\<rparr> \<and> c = amount \<and> amount \<le> fb_tokens m) \<or> (b' = m \<and> c = 0)"
    using b' by (auto simp: flow_try_eq Let_def m_def split: if_splits)
  then show thesis
  proof (elim disjE conjE)
    assume b': "b' = m\<lparr>fb_tokens := f_sub (fb_tokens m) amount\<rparr>" "c = amount" "amount \<le> fb_tokens m"
    with charged_bounds [OF r(4) b'(3) n(4) wf(1)] show thesis
      using r(1) n(2) wf by (intro that [OF _ _ _ n(4,5)]) (simp_all add: m flow_wf_def)
  next
    assume "b' = m" "c = 0"
    then show thesis using r(1) n wf by (intro that [OF _ _ _ n(4,5)]) (simp_all add: m flow_wf_def)
  qed
qed

lemma flow_op_config: "flow_op start b c b' \<Longrightarrow> fb_capacity b' = fb_capacity b \<and> fb_refill_rate b' = fb_refill_rate b"
  unfolding flow_op_def by auto

lemma flow_op_time: "flow_op start b c b' \<Longrightarrow> fb_last_refill b \<le> fb_last_refill b' \<and> start \<le> fb_last_refill b'"
proof -
  have last: "fb_last_refill b \<le> fb_last_refill (flow_refill r b) \<and> start \<le> fb_last_refill (flow_refill r b)"
    if "start \<le> fst r" "fb_last_refill b \<le> fst r" "fst r \<le> snd r" for r
    using that as_secs_f64_pos [of "fst r - fb_last_refill b"]
    by (cases "fb_last_refill b = fst r") (auto simp: flow_refill_def elapsed_def Let_def)
  then show "flow_op start b c b' \<Longrightarrow> fb_last_refill b \<le> fb_last_refill b' \<and> start \<le> fb_last_refill b'"
    unfolding flow_op_def by (fastforce simp: flow_try_eq Let_def)
qed

interpretation flow_limit: token_bucket_laws flow_wf fb_tokens fb_capacity fb_refill_rate fb_last_refill start "flow_op start" for start
proof
  fix b c b'
  assume wf: "flow_wf b" and op: "flow_op start b c b'"
  have half: "fb_capacity b / 2 ^ 52 = fb_capacity b / 2 ^ 53 + fb_capacity b / 2 ^ 53" by simp
  have cap: "0 \<le> fb_capacity b / 2 ^ 53" using wf by (simp add: flow_wf_def)
  from op wf show "flow_wf b'" by (rule flow_op_elim)
  from op wf obtain t where "t \<le> fb_capacity b" "fb_tokens b' + c \<le> t + fb_capacity b / 2 ^ 53" by (rule flow_op_elim)
  then show "fb_tokens b' + c \<le> fb_capacity b + fb_capacity b / 2 ^ 52" using half cap by linarith
  from op wf obtain n t where n: "fb_last_refill b' = fb_last_refill b + n" 
    "t \<le> fb_tokens b + fb_refill_rate b * (of_nat n / 10 ^ 9) * (1 + 1 / 2 ^ 50) + fb_capacity b / 2 ^ 53"
    "fb_tokens b' + c \<le> t + fb_capacity b / 2 ^ 53" by (rule flow_op_elim)
  have "fb_last_refill b' - fb_last_refill b = n" using n(1) by simp
  then show "fb_tokens b' + c \<le> fb_tokens b + fb_refill_rate b * (of_nat (fb_last_refill b' - fb_last_refill b) / 10 ^ 9) * (1 + 1 / 2 ^ 50)
      + fb_capacity b / 2 ^ 52"
    using n(2,3) half by simp
qed (auto simp: flow_wf_def dest: flow_op_config flow_op_time)


subsection \<open>Waiting\<close>

text \<open>
  The readings of the attempts inside \<open>consume\<close>: they never go back, and the loop sleeps ten milliseconds
  between two attempts.
\<close>

definition paced :: "(nat \<Rightarrow> reading) \<Rightarrow> bool" where
  "paced clock \<longleftrightarrow> (\<forall>i. fst (clock i) \<le> snd (clock i) \<and> snd (clock i) + 10 ^ 7 \<le> fst (clock (Suc i)))"

lemma paced_Suc: "paced clock \<Longrightarrow> paced (\<lambda>i. clock (Suc i))"
  by (simp add: paced_def)

lemma consume_fits:
  assumes "flow_consume clock amount b = Some b'"
  shows "fb_tokens b \<le> fb_capacity b \<longrightarrow> amount \<le> fb_capacity b"
proof (rule flow_consume.raw_induct [OF _ assms])
  fix consume clock amount b b'
  assume IH: "\<And>clock amount b b'. consume clock amount b = Some b' \<Longrightarrow> fb_tokens b \<le> fb_capacity b \<longrightarrow> amount \<le> fb_capacity b"
    and step: "(let (b, ok) = flow_try_consume (clock 0) amount b in if ok then Some b else consume (\<lambda>i. clock (Suc i)) amount b) = Some b'"
  have "fb_tokens b \<le> fb_capacity b \<longrightarrow> fb_tokens (flow_refill (clock 0) b) \<le> fb_capacity b"
    by (simp add: flow_refill_def Let_def)
  then show "fb_tokens b \<le> fb_capacity b \<longrightarrow> amount \<le> fb_capacity b"
    using step IH [of "\<lambda>i. clock (Suc i)" amount "flow_refill (clock 0) b" b'] by (auto simp: flow_try_eq Let_def split: if_splits)
qed

lemma flow_op_try:
  "start \<le> fst r \<Longrightarrow> fb_last_refill b \<le> fst r \<Longrightarrow> fst r \<le> snd r \<Longrightarrow> 0 \<le> amount \<Longrightarrow>
   flow_op start b (if snd (flow_try_consume r amount b) then amount else 0) (fst (flow_try_consume r amount b))"
  unfolding flow_op_def by blast

lemma try_last: "fb_last_refill b \<le> fst r \<Longrightarrow> fst r \<le> snd r \<Longrightarrow> fb_last_refill (fst (flow_try_consume r amount b)) \<le> snd r"
  by (auto simp: flow_try_eq flow_refill_def Let_def)

text \<open>A bucket that holds one second of its rate, as the controller builds them.\<close>

definition second_bucket :: "flow_bucket \<Rightarrow> bool" where
  "second_bucket b \<longleftrightarrow> flow_wf b \<and> fb_refill_rate b = fb_capacity b"

lemma try_wf:
  assumes "second_bucket b" "fb_last_refill b \<le> fst r" "fst r \<le> snd r" "0 \<le> amount"
  shows "second_bucket (fst (flow_try_consume r amount b))"
proof -
  have "flow_op 0 b (if snd (flow_try_consume r amount b) then amount else 0) (fst (flow_try_consume r amount b))"
    using assms by (intro flow_op_try) simp_all
  then show ?thesis using assms(1) flow_limit.op_wf unfolding second_bucket_def by fastforce
qed

text \<open>Waiting as operations on the bucket: it ends after a bounded number of attempts and is charged once.\<close>

definition pays :: "instant \<Rightarrow> nat \<Rightarrow> rat \<Rightarrow> flow_bucket \<Rightarrow> flow_bucket \<Rightarrow> bool" where
  "pays start n amount b b' \<longleftrightarrow> second_bucket b' \<and> fb_capacity b' = fb_capacity b \<and>
     (\<exists>cs. op_run (flow_op start) b cs b' \<and> sum_list cs = amount \<and> length cs \<le> n)"

lemma pays_trans: "pays start n a b m \<Longrightarrow> pays start k c m b' \<Longrightarrow> pays start (n + k) (a + c) b b'"
proof -
  assume 1: "pays start n a b m" and 2: "pays start k c m b'"
  then obtain cs ds where "op_run (flow_op start) b cs m" "sum_list cs = a" "length cs \<le> n"
    "op_run (flow_op start) m ds b'" "sum_list ds = c" "length ds \<le> k" unfolding pays_def by blast
  then show ?thesis using 1 2 op_run_append unfolding pays_def by (intro conjI exI [of _ "cs @ ds"]) auto
qed

lemma pays_try:
  assumes "second_bucket b" "start \<le> fst r" "fb_last_refill b \<le> fst r" "fst r \<le> snd r" "0 \<le> amount"
  shows "pays start 1 (if snd (flow_try_consume r amount b) then amount else 0) b (fst (flow_try_consume r amount b))"
  using flow_op_try [OF assms(2-5)] try_wf [OF assms(1,3,4,5)]
  unfolding pays_def by (intro conjI exI [of _ "[if snd (flow_try_consume r amount b) then amount else 0]"]) simp_all

lemma pays_mono: "pays start n a b b' \<Longrightarrow> n \<le> m \<Longrightarrow> pays start m a b b'"
  unfolding pays_def by (metis le_trans)

lemma consume_step:
  "flow_consume clock amount b =
     (if snd (flow_try_consume (clock 0) amount b) then Some (fst (flow_try_consume (clock 0) amount b))
      else flow_consume (\<lambda>i. clock (Suc i)) amount (fst (flow_try_consume (clock 0) amount b)))"
  by (subst flow_consume.simps) (simp add: case_prod_beta)

lemma consume_soon:
  assumes "paced clock" "start \<le> fst (clock 0)" "fb_last_refill b + 10 ^ 7 \<le> fst (clock 0)" "second_bucket b"
    "0 \<le> amount" "amount \<le> fb_capacity b" "fb_capacity b - of_nat d * (fb_capacity b / 200) \<le> fb_tokens b"
  shows "\<exists>b'. flow_consume clock amount b = Some b' \<and> pays start (Suc d) amount b b'"
  using assms
proof (induction d arbitrary: clock b)
  case (0 clock b)
  have "fb_tokens b = fb_capacity b" using "0.prems" by (simp add: flow_wf_def second_bucket_def)
  then have "fb_capacity b \<le> fb_tokens (flow_refill (clock 0) b)"
    using "0.prems" refilled_lower [of "fb_tokens b" "fb_capacity b" "fst (clock 0) - fb_last_refill b"]
    by (simp add: flow_refill_def refilled_def elapsed_def Let_def flow_wf_def second_bucket_def min_def split: if_splits)
  then have "snd (flow_try_consume (clock 0) amount b)" using "0.prems"(6) by (simp add: flow_try_eq Let_def)
  then show ?case
    using pays_try [of b start "clock 0" amount] "0.prems" by (subst consume_step) (simp add: paced_def)
next
  case (Suc d clock b)
  let ?m = "fst (flow_try_consume (clock 0) amount b)"
  have clock: "fst (clock 0) \<le> snd (clock 0)" "snd (clock 0) + 10 ^ 7 \<le> fst (clock (Suc 0))" using Suc.prems(1) by (simp_all add: paced_def)
  have pay: "pays start 1 (if snd (flow_try_consume (clock 0) amount b) then amount else 0) b ?m"
    using Suc.prems clock by (intro pays_try) simp_all
  show ?case
  proof (cases "snd (flow_try_consume (clock 0) amount b)")
    case True
    then show ?thesis using pay by (subst consume_step) (auto intro: pays_mono)
  next
    case False
    have ns: "10 ^ 7 \<le> fst (clock 0) - fb_last_refill b" using Suc.prems(3) by simp
    then have "0 < as_secs_f64 (fst (clock 0) - fb_last_refill b)" by (intro as_secs_f64_pos) simp
    then have tok: "fb_tokens ?m = refilled (fb_capacity b) (fb_capacity b) (fst (clock 0) - fb_last_refill b) (fb_tokens b)" "fb_tokens ?m < amount"
      using False Suc.prems(4) by (auto simp: flow_try_eq flow_refill_def refilled_def elapsed_def Let_def second_bucket_def)
    have "min (fb_capacity b) (fb_tokens b + fb_capacity b / 200) \<le> fb_tokens ?m"
      unfolding tok using Suc.prems(4) ns by (intro refilled_lower) (simp_all add: second_bucket_def flow_wf_def)
    then have "fb_tokens b + fb_capacity b / 200 \<le> fb_tokens ?m" using tok(2) Suc.prems(6) by linarith
    moreover have "of_nat (Suc d) * (fb_capacity b / 200) = of_nat d * (fb_capacity b / 200) + fb_capacity b / 200"
      by (simp add: distrib_right)
    ultimately have "fb_capacity b - of_nat d * (fb_capacity b / 200) \<le> fb_tokens ?m" using Suc.prems(7) by linarith
    moreover have "fb_last_refill ?m + 10 ^ 7 \<le> fst (clock (Suc 0))"
      using try_last [of b "clock 0" amount] clock Suc.prems(3) by simp
    ultimately obtain b' where "flow_consume (\<lambda>i. clock (Suc i)) amount ?m = Some b'" "pays start (Suc d) amount ?m b'"
      using Suc.IH [of "\<lambda>i. clock (Suc i)" ?m] paced_Suc [OF Suc.prems(1)] pay Suc.prems clock by (auto simp: pays_def)
    then show ?thesis using False pays_trans [OF pay] by (subst consume_step) fastforce
  qed
qed

lemma consume_returns:
  assumes "paced clock" "start \<le> fst (clock 0)" "fb_last_refill b \<le> fst (clock 0)" "second_bucket b" "0 \<le> amount"
  shows "(amount \<le> fb_capacity b \<longrightarrow> (\<exists>b'. flow_consume clock amount b = Some b' \<and> pays start 202 amount b b'))
    \<and> (\<not> amount \<le> fb_capacity b \<longrightarrow> flow_consume clock amount b = None)"
proof -
  let ?m = "fst (flow_try_consume (clock 0) amount b)"
  have clock: "fst (clock 0) \<le> snd (clock 0)" "snd (clock 0) + 10 ^ 7 \<le> fst (clock (Suc 0))" using assms(1) by (simp_all add: paced_def)
  have pay: "pays start 1 (if snd (flow_try_consume (clock 0) amount b) then amount else 0) b ?m"
    using assms clock by (intro pays_try) simp_all
  have "\<exists>b'. flow_consume clock amount b = Some b' \<and> pays start 202 amount b b'" if fits: "amount \<le> fb_capacity b"
  proof (cases "snd (flow_try_consume (clock 0) amount b)")
    case True
    then show ?thesis using pay by (subst consume_step) (auto intro: pays_mono)
  next
    case False
    have "fb_last_refill ?m + 10 ^ 7 \<le> fst (clock (Suc 0))"
      using try_last [of b "clock 0" amount] clock assms(3) by simp
    moreover have "second_bucket ?m" "fb_capacity ?m = fb_capacity b" using pay by (simp_all add: pays_def)
    ultimately obtain b' where "flow_consume (\<lambda>i. clock (Suc i)) amount ?m = Some b'" "pays start 201 amount ?m b'"
      using consume_soon [of "\<lambda>i. clock (Suc i)" start ?m amount 200] paced_Suc [OF assms(1)] assms fits clock
      by (auto simp: second_bucket_def flow_wf_def)
    then show ?thesis using False pays_trans [OF pay] by (subst consume_step) fastforce
  qed
  moreover have "flow_consume clock amount b = None" if "\<not> amount \<le> fb_capacity b"
    using consume_fits [of clock amount b] that assms(4) by (cases "flow_consume clock amount b") (auto simp: second_bucket_def flow_wf_def)
  ultimately show ?thesis by blast
qed

end
