(* ===== verification/Flow_Permits.thy ===== *)
theory Flow_Permits
  imports Flow_Control
begin

text \<open>
  One call of the flow controller, with no other caller meanwhile: when it ends, and what a permit costs.
\<close>


subsection \<open>Controllers\<close>

definition fc_wf :: "flow_controller \<Rightarrow> bool" where
  "fc_wf s \<longleftrightarrow> (\<forall>l. second_bucket (fst (limiters l s)) \<and> second_bucket (snd (limiters l s)))"

definition message_tokens :: "message_priority \<Rightarrow> rat" where
  "message_tokens p = f_times 1 (priority_multiplier p)"

definition byte_tokens :: "nat \<Rightarrow> message_priority \<Rightarrow> rat" where
  "byte_tokens n p = f_times (as_f64 n) (priority_multiplier p)"

lemma multiplier_pos: "0 < priority_multiplier p"
  by (cases p) simp_all

lemma message_tokens_eq: "message_tokens p = priority_multiplier p"
proof -
  have "\<exists>m. priority_multiplier p = of_int m * pow2 (- 2) \<and> \<bar>of_int m\<bar> < (2 :: rat) ^ 53"
    by (cases p; intro exI [of _ "case p of PrioCritical \<Rightarrow> 2 | PrioHigh \<Rightarrow> 3 | PrioNormal \<Rightarrow> 4 | PrioLow \<Rightarrow> 6"])
      (simp_all add: pow2_def)
  then show ?thesis unfolding message_tokens_def f_times_def by (metis fl_exact mult_1)
qed

lemma tokens_nonneg: "0 \<le> message_tokens p" "0 \<le> byte_tokens n p"
  using multiplier_pos [of p] by (simp_all add: message_tokens_def byte_tokens_def f_times_def fl_nonneg)

lemma limiters_set [simp]:
  "limiters l (set_limiters k m b s) = (if l = k then (m, b) else limiters l s)"
  by (cases l; cases k) (simp_all add: limiters_def set_limiters_def)

lemma limiters_frame [simp]:
  "limiters l (count_sent k n s) = limiters l s" "limiters l (apply_backpressure_internal now s) = limiters l s"
  "limiters l (release_backpressure s) = limiters l s" "limiters l (record_drop s) = limiters l s"
  by (cases l; simp add: limiters_def count_sent_def apply_backpressure_internal_def release_backpressure_def record_drop_def Let_def)+

definition level_limit_of :: "routing_level \<Rightarrow> bandwidth_limit \<Rightarrow> bandwidth_limit \<Rightarrow> bandwidth_limit" where
  "level_limit_of l cell zone = (case l of LevelCell \<Rightarrow> cell | LevelZone \<Rightarrow> zone)"

lemma fc_new:
  "fc_wf (flow_controller_new cell zone dp clock)"
  "fb_capacity (fst (limiters l (flow_controller_new cell zone dp clock))) = as_f64 (bl_messages_per_sec (level_limit_of l cell zone))"
  "fb_capacity (snd (limiters l (flow_controller_new cell zone dp clock))) = as_f64 (bl_bytes_per_sec (level_limit_of l cell zone))"
  by (auto simp: fc_wf_def limiters_def flow_controller_new_def flow_bucket_new_def second_bucket_def flow_wf_def level_limit_of_def
      split: routing_level.split)

text \<open>
  The readings of one call on one limiter: that of the attempt that does not wait, then those of \<open>consume\<close>,
  which the call enters at once. Only the attempts inside \<open>consume\<close> are ten milliseconds apart. They come
  after \<open>start\<close> and the last use of the limiters.
\<close>

definition call_clock :: "(nat \<Rightarrow> reading) \<Rightarrow> bool" where
  "call_clock clock \<longleftrightarrow> fst (clock 0) \<le> snd (clock 0) \<and> snd (clock 0) \<le> fst (clock 1) \<and> paced (\<lambda>i. clock (Suc i))"

definition ready :: "instant \<Rightarrow> (nat \<Rightarrow> reading) \<Rightarrow> (nat \<Rightarrow> reading) \<Rightarrow> routing_level \<Rightarrow> flow_controller \<Rightarrow> bool" where
  "ready start msg_clock byte_clock l s \<longleftrightarrow> call_clock msg_clock \<and> call_clock byte_clock \<and>
     start \<le> fst (msg_clock 0) \<and> fb_last_refill (fst (limiters l s)) \<le> fst (msg_clock 0) \<and>
     start \<le> fst (byte_clock 0) \<and> fb_last_refill (snd (limiters l s)) \<le> fst (byte_clock 0)"

lemma call_clock_0: "call_clock clock \<Longrightarrow> fst (clock 0) \<le> snd (clock 0) \<and> snd (clock 0) \<le> fst (clock 1)"
  by (simp add: call_clock_def)

lemma call_clock_Suc: "call_clock clock \<Longrightarrow> paced (\<lambda>i. clock (Suc i))"
  by (simp add: call_clock_def)

text \<open>An attempt followed by waiting.\<close>

lemma try_then_consume:
  assumes "call_clock clock" "start \<le> fst (clock 0)" "fb_last_refill b \<le> fst (clock 0)" "second_bucket b" "0 \<le> amount"
    "m = fst (flow_try_consume (clock 0) amount b)" "amount \<le> fb_capacity b"
  shows "\<exists>b'. flow_consume (\<lambda>i. clock (Suc i)) amount m = Some b'
    \<and> pays start 203 ((if snd (flow_try_consume (clock 0) amount b) then amount else 0) + amount) b b'"
proof -
  note clock = call_clock_0 [OF assms(1)]
  have pay: "pays start 1 (if snd (flow_try_consume (clock 0) amount b) then amount else 0) b m"
    unfolding assms(6) using assms clock by (intro pays_try) simp_all
  moreover have "fb_last_refill m \<le> snd (clock 0)" unfolding assms(6) using assms(3) clock by (intro try_last) simp_all
  ultimately obtain b' where "flow_consume (\<lambda>i. clock (Suc i)) amount m = Some b'" "pays start 202 amount m b'"
    using consume_returns [of "\<lambda>i. clock (Suc i)" start m amount] call_clock_Suc [OF assms(1)] assms clock by (auto simp: pays_def)
  then show ?thesis using pays_trans [OF pay] by fastforce
qed

lemma consume_later:
  assumes "call_clock clock" "start \<le> fst (clock 0)" "fb_last_refill b \<le> fst (clock 0)" "second_bucket b" "0 \<le> amount" "amount \<le> fb_capacity b"
  shows "\<exists>b'. flow_consume (\<lambda>i. clock (Suc i)) amount b = Some b' \<and> pays start 203 amount b b'"
proof -
  obtain b' where b': "flow_consume (\<lambda>i. clock (Suc i)) amount b = Some b'" "pays start 202 amount b b'"
    using consume_returns [of "\<lambda>i. clock (Suc i)" start b amount] call_clock_Suc [OF assms(1)] assms call_clock_0 [OF assms(1)] by auto
  moreover have "pays start 203 amount b b'" by (rule pays_mono [OF b'(2)]) simp
  ultimately show ?thesis by blast
qed

lemma consume_none: "second_bucket b \<Longrightarrow> \<not> amount \<le> fb_capacity b \<Longrightarrow> flow_consume clock amount b = None"
  using consume_fits [of clock amount b] by (cases "flow_consume clock amount b") (auto simp: second_bucket_def flow_wf_def)

lemma try_fits: "second_bucket b \<Longrightarrow> snd (flow_try_consume r amount b) \<Longrightarrow> amount \<le> fb_capacity b"
  by (auto simp: flow_try_eq flow_refill_def Let_def second_bucket_def flow_wf_def split: if_splits)

lemma acquire_cases:
  "acquire_permit msg_clock byte_clock now l n p s =
     (let msg = flow_try_consume (msg_clock 0) (message_tokens p) (fst (limiters l s));
          byte = flow_try_consume (byte_clock 0) (byte_tokens n p) (snd (limiters l s))
      in if snd msg \<and> snd byte then Some (count_sent l n (set_limiters l (fst msg) (fst byte) s))
         else Option.bind (flow_consume (\<lambda>i. msg_clock (Suc i)) (message_tokens p) (fst msg))
           (\<lambda>m. Option.bind (flow_consume (\<lambda>i. byte_clock (Suc i)) (byte_tokens n p) (if snd msg then fst byte else snd (limiters l s)))
             (\<lambda>b. Some (count_sent l n (set_limiters l m b (apply_backpressure_internal now s))))))"
  unfolding acquire_permit_def message_tokens_def [symmetric] byte_tokens_def [symmetric]
  by (simp add: case_prod_beta Let_def Option.bind_eq_None_conv split: option.split)

lemma fc_wf_set: "fc_wf s \<Longrightarrow> second_bucket m \<Longrightarrow> second_bucket b \<Longrightarrow> fc_wf (count_sent l n (set_limiters l m b s))"
  by (simp add: fc_wf_def)

lemma fc_wf_backpressure [simp]: "fc_wf (apply_backpressure_internal now s) = fc_wf s"
  by (simp add: fc_wf_def)

text \<open>The outcome of a call.\<close>

lemma acquire_outcome:
  fixes msg_clock byte_clock :: "nat \<Rightarrow> reading" and p :: message_priority and n :: nat
  assumes wf: "fc_wf s" and ready: "ready start msg_clock byte_clock l s"
  defines "msg \<equiv> fst (limiters l s)" and "byte \<equiv> snd (limiters l s)"
  defines "msg_ok \<equiv> snd (flow_try_consume (msg_clock 0) (message_tokens p) msg)"
    and "byte_ok \<equiv> snd (flow_try_consume (byte_clock 0) (byte_tokens n p) byte)"
  shows "if message_tokens p \<le> fb_capacity msg \<and> byte_tokens n p \<le> fb_capacity byte
    then \<exists>s'. acquire_permit msg_clock byte_clock now l n p s = Some s' \<and> fc_wf s' \<and> (\<forall>k. k \<noteq> l \<longrightarrow> limiters k s' = limiters k s)
      \<and> pays start 203 (message_tokens p + (if msg_ok \<and> \<not> byte_ok then message_tokens p else 0)) msg (fst (limiters l s'))
      \<and> pays start 203 (byte_tokens n p) byte (snd (limiters l s'))
    else acquire_permit msg_clock byte_clock now l n p s = None"
proof -
  have clocks: "call_clock msg_clock" "start \<le> fst (msg_clock 0)" "fb_last_refill msg \<le> fst (msg_clock 0)"
    "call_clock byte_clock" "start \<le> fst (byte_clock 0)" "fb_last_refill byte \<le> fst (byte_clock 0)"
    using ready by (simp_all add: ready_def msg_def byte_def)
  have b: "second_bucket msg" "second_bucket byte" using wf by (simp_all add: fc_wf_def msg_def byte_def)
  let ?m = "fst (flow_try_consume (msg_clock 0) (message_tokens p) msg)" and ?b = "fst (flow_try_consume (byte_clock 0) (byte_tokens n p) byte)"
  have wfs: "second_bucket ?m" "second_bucket ?b"
    using b clocks call_clock_0 tokens_nonneg by (auto intro!: try_wf)
  show ?thesis
  proof (cases "msg_ok \<and> byte_ok")
    case True
    have "pays start 203 (message_tokens p) msg ?m" "pays start 203 (byte_tokens n p) byte ?b"
      using pays_try [OF b(1) clocks(2,3), of "message_tokens p"] pays_try [OF b(2) clocks(5,6), of "byte_tokens n p"]
        call_clock_0 clocks(1,4) tokens_nonneg True by (auto simp: msg_ok_def byte_ok_def intro: pays_mono)
    moreover have "message_tokens p \<le> fb_capacity msg" "byte_tokens n p \<le> fb_capacity byte"
      using True try_fits [OF b(1), of "msg_clock 0"] try_fits [OF b(2), of "byte_clock 0"] by (simp_all add: msg_ok_def byte_ok_def)
    ultimately show ?thesis
      using True wf wfs
      by (auto simp: acquire_cases Let_def fc_wf_set msg_ok_def byte_ok_def simp flip: msg_def byte_def)
  next
    case False
    let ?b' = "if msg_ok then ?b else byte"
    have b': "second_bucket ?b'" "fb_capacity ?b' = fb_capacity byte" using wfs b by simp_all
    show ?thesis
    proof (cases "message_tokens p \<le> fb_capacity msg \<and> byte_tokens n p \<le> fb_capacity byte")
      case fits: True
      obtain m where m: "flow_consume (\<lambda>i. msg_clock (Suc i)) (message_tokens p) ?m = Some m"
        "pays start 203 ((if msg_ok then message_tokens p else 0) + message_tokens p) msg m"
        using try_then_consume [OF clocks(1-3) b(1) tokens_nonneg(1) refl] fits unfolding msg_ok_def by blast
      obtain d where d: "flow_consume (\<lambda>i. byte_clock (Suc i)) (byte_tokens n p) ?b' = Some d" "pays start 203 (byte_tokens n p) byte d"
      proof (cases msg_ok)
        case True
        then have "\<not> byte_ok" using False by simp
        then show ?thesis
          using that True try_then_consume [OF clocks(4-6) b(2) tokens_nonneg(2) [of n p] refl] fits by (auto simp: byte_ok_def)
      next
        case False
        then show ?thesis using that consume_later [OF clocks(4-6) b(2) tokens_nonneg(2) [of n p]] fits by auto
      qed
      have "fc_wf (count_sent l n (set_limiters l m d (apply_backpressure_internal now s)))"
        using wf m(2) d(2) by (intro fc_wf_set) (simp_all add: pays_def)
      then show ?thesis
        using fits False m d
        by (auto simp: acquire_cases Let_def simp flip: msg_def byte_def msg_ok_def byte_ok_def)
    next
      case fits: False
      then have "flow_consume (\<lambda>i. msg_clock (Suc i)) (message_tokens p) ?m = None
          \<or> flow_consume (\<lambda>i. byte_clock (Suc i)) (byte_tokens n p) ?b' = None"
        using consume_none [OF wfs(1)] consume_none [OF b'(1)] b'(2) by auto
      then show ?thesis
        using False fits by (auto simp: acquire_cases Let_def Option.bind_eq_None_conv simp flip: msg_def byte_def msg_ok_def byte_ok_def)
    qed
  qed
qed

subsection \<open>Properties\<close>


subsection \<open>A small controller\<close>

definition demo_controller :: flow_controller where
  "demo_controller = flow_controller_new cell_default zone_default DropLowPriority (\<lambda>_. 0)"

definition demo_clock :: "nat \<Rightarrow> reading" where
  "demo_clock i = ((i - 1) * 10 ^ 7, (i - 1) * 10 ^ 7)"

lemma demo_ready: "ready 0 demo_clock demo_clock LevelCell demo_controller"
  by (simp add: ready_def call_clock_def paced_def demo_clock_def demo_controller_def limiters_def flow_controller_new_def flow_bucket_new_def)

lemma times_normal: "n < 2 ^ 53 \<Longrightarrow> f_times (as_f64 n) (priority_multiplier PrioNormal) = of_nat n"
  unfolding f_times_def priority_multiplier.simps mult_1_right fl_as_f64 by (rule as_f64_exact)

lemma times_demo: "f_times 100 1 = 100" "f_times 100001 1 = 100001"
  using times_normal [of 100] times_normal [of 100001] by (simp_all add: as_f64_exact)

definition short_controller :: flow_controller where
  "short_controller = demo_controller\<lparr>fc_cell_byte_limiter := (fc_cell_byte_limiter demo_controller)\<lparr>fb_tokens := 0\<rparr>\<rparr>"


end
