(* ===== verification/Flow_Tasks.thy ===== *)
theory Flow_Tasks
  imports Flow_Permits
begin

text \<open>
  Concurrent callers of the flow controller. A call of \<open>acquire_permit\<close> is a task that holds a lock only for
  single steps: to refill a bucket, or to take tokens from it. Between any two of its steps other tasks may
  run. \<open>task_step\<close> is the next step of a task; run without interruption it is \<open>acquire_permit\<close>.
\<close>


subsection \<open>Tasks\<close>

text \<open>
  What a task does next. It refills the message bucket and takes from it, then the same with the byte bucket.
  When one of these takes fails it is blocked: it reports backpressure and waits, refilling and taking from
  the message bucket until that succeeds and then from the byte bucket. At last it counts its message.
\<close>

datatype stage =
  TryMessage | TakeMessage | TryBytes | TakeBytes | Blocked |
  WaitMessage | RetakeMessage | WaitBytes | RetakeBytes | Counting | Granted

record permit_task =
  pt_level :: routing_level
  pt_size :: nat
  pt_priority :: message_priority
  pt_stage :: stage

definition call_permit :: "routing_level \<Rightarrow> nat \<Rightarrow> message_priority \<Rightarrow> permit_task" where
  "call_permit level message_size priority =
     \<lparr>pt_level = level, pt_size = message_size, pt_priority = priority, pt_stage = TryMessage\<rparr>"

definition flow_take :: "rat \<Rightarrow> flow_bucket \<Rightarrow> flow_bucket \<times> bool" where
  "flow_take amount self =
     (if fb_tokens self \<ge> amount then (self\<lparr>fb_tokens := f_sub (fb_tokens self) amount\<rparr>, True) else (self, False))"

definition task_step :: "reading \<Rightarrow> permit_task \<Rightarrow> flow_controller \<Rightarrow> permit_task \<times> flow_controller" where
  "task_step r t self =
     (let (msg, byte) = limiters (pt_level t) self;
          message_tokens = f_times 1 (priority_multiplier (pt_priority t));
          byte_tokens = f_times (as_f64 (pt_size t)) (priority_multiplier (pt_priority t));
          goto = (\<lambda>stage. t\<lparr>pt_stage := stage\<rparr>);
          refill_msg = (\<lambda>next. (goto next, set_limiters (pt_level t) (flow_refill r msg) byte self));
          refill_byte = (\<lambda>next. (goto next, set_limiters (pt_level t) msg (flow_refill r byte) self));
          take_msg = (\<lambda>yes no. let (msg, ok) = flow_take message_tokens msg
                               in (goto (if ok then yes else no), set_limiters (pt_level t) msg byte self));
          take_byte = (\<lambda>yes no. let (byte, ok) = flow_take byte_tokens byte
                                in (goto (if ok then yes else no), set_limiters (pt_level t) msg byte self))
      in case pt_stage t of
           TryMessage \<Rightarrow> refill_msg TakeMessage
         | TakeMessage \<Rightarrow> take_msg TryBytes Blocked
         | TryBytes \<Rightarrow> refill_byte TakeBytes
         | TakeBytes \<Rightarrow> take_byte Counting Blocked
         | Blocked \<Rightarrow> (goto WaitMessage, apply_backpressure_internal (snd r) self)
         | WaitMessage \<Rightarrow> refill_msg RetakeMessage
         | RetakeMessage \<Rightarrow> take_msg WaitBytes WaitMessage
         | WaitBytes \<Rightarrow> refill_byte RetakeBytes
         | RetakeBytes \<Rightarrow> take_byte Counting WaitBytes
         | Counting \<Rightarrow> (goto Granted, count_sent (pt_level t) (pt_size t) self)
         | Granted \<Rightarrow> (t, self))"


subsection \<open>A task that is not interrupted\<close>

lemma try_consume_take: "flow_try_consume r amount b = flow_take amount (flow_refill r b)"
  by (simp add: flow_try_consume_def flow_take_def Let_def)

definition task_run :: "reading list \<Rightarrow> permit_task \<Rightarrow> flow_controller \<Rightarrow> permit_task \<times> flow_controller" where
  "task_run rs t s = fold (\<lambda>r (t, s). task_step r t s) rs (t, s)"

lemma task_run_Nil [simp]: "task_run [] t s = (t, s)"
  by (simp add: task_run_def)

lemma task_run_Cons [simp]: "task_run (r # rs) t s = (let (t, s) = task_step r t s in task_run rs t s)"
  by (simp add: task_run_def case_prod_beta)

lemma task_run_append: "task_run (rs @ us) t s = (let (t, s) = task_run rs t s in task_run us t s)"
  by (simp add: task_run_def case_prod_beta)

lemma limiters_eta: "set_limiters l (fst (limiters l s)) (snd (limiters l s)) s = s"
  by (cases l) (simp_all add: limiters_def set_limiters_def)

lemma set_limiters_twice [simp]: "set_limiters l m b (set_limiters l m' b' s) = set_limiters l m b s"
  by (cases l) (simp_all add: set_limiters_def)

lemmas task_step_simps = task_step_def message_tokens_def [symmetric] byte_tokens_def [symmetric] Let_def case_prod_beta

lemma flow_consume_induct [consumes 1, case_names now later]:
  assumes "flow_consume clock amount b = Some b'"
    and "\<And>clock b. snd (flow_try_consume (clock 0) amount b) \<Longrightarrow> P clock b (fst (flow_try_consume (clock 0) amount b))"
    and "\<And>clock b b'. \<not> snd (flow_try_consume (clock 0) amount b) \<Longrightarrow>
      P (\<lambda>i. clock (Suc i)) (fst (flow_try_consume (clock 0) amount b)) b' \<Longrightarrow> P clock b b'"
  shows "P clock b b'"
proof -
  have "a = amount \<longrightarrow> P clock b b'" if "flow_consume clock a b = Some b'" for a clock b b'
  proof (rule flow_consume.raw_induct [OF _ that])
    fix consume clock a b b'
    assume IH: "\<And>clock a b b'. consume clock a b = Some b' \<Longrightarrow> a = amount \<longrightarrow> P clock b b'"
      and step: "(let (b, ok) = flow_try_consume (clock 0) a b in if ok then Some b else consume (\<lambda>i. clock (Suc i)) a b) = Some b'"
    show "a = amount \<longrightarrow> P clock b b'"
      using step IH assms(2,3) by (auto simp: case_prod_beta Let_def split: if_splits)
  qed
  then show ?thesis using assms(1) by simp
qed

text \<open>The two waiting loops, each as a run of the task.\<close>

lemma wait_message_runs:
  assumes "flow_consume clock (message_tokens (pt_priority t)) msg = Some msg'" "pt_stage t = WaitMessage"
    "limiters (pt_level t) s = (msg, byte)"
  shows "\<exists>rs. task_run rs t s = (t\<lparr>pt_stage := WaitBytes\<rparr>, set_limiters (pt_level t) msg' byte s)"
  using assms
proof (induction arbitrary: s rule: flow_consume_induct)
  case (now clock b)
  then show ?case by (intro exI [of _ "[clock 0, clock 0]"]) (simp add: task_step_simps try_consume_take)
next
  case (later clock b b')
  let ?s = "set_limiters (pt_level t) (fst (flow_try_consume (clock 0) (message_tokens (pt_priority t)) b)) byte s"
  have "t\<lparr>pt_stage := WaitMessage\<rparr> = t" using later.prems(1) by (cases t) simp
  then have "task_run [clock 0, clock 0] t s = (t, ?s)"
    using later.prems later.hyps by (simp add: task_step_simps try_consume_take)
  moreover obtain rs where "task_run rs t ?s = (t\<lparr>pt_stage := WaitBytes\<rparr>, set_limiters (pt_level t) b' byte ?s)"
    using later.IH [of ?s] later.prems by auto
  ultimately show ?case by (intro exI [of _ "[clock 0, clock 0] @ rs"]) (simp only: task_run_append, simp)
qed

lemma wait_bytes_runs:
  assumes "flow_consume clock (byte_tokens (pt_size t) (pt_priority t)) byte = Some byte'" "pt_stage t = WaitBytes"
    "limiters (pt_level t) s = (msg, byte)"
  shows "\<exists>rs. task_run rs t s = (t\<lparr>pt_stage := Counting\<rparr>, set_limiters (pt_level t) msg byte' s)"
  using assms
proof (induction arbitrary: s rule: flow_consume_induct)
  case (now clock b)
  then show ?case by (intro exI [of _ "[clock 0, clock 0]"]) (simp add: task_step_simps try_consume_take)
next
  case (later clock b b')
  let ?s = "set_limiters (pt_level t) msg (fst (flow_try_consume (clock 0) (byte_tokens (pt_size t) (pt_priority t)) b)) s"
  have "t\<lparr>pt_stage := WaitBytes\<rparr> = t" using later.prems(1) by (cases t) simp
  then have "task_run [clock 0, clock 0] t s = (t, ?s)"
    using later.prems later.hyps by (simp add: task_step_simps try_consume_take)
  moreover obtain rs where "task_run rs t ?s = (t\<lparr>pt_stage := Counting\<rparr>, set_limiters (pt_level t) msg b' ?s)"
    using later.IH [of ?s] later.prems by auto
  ultimately show ?case by (intro exI [of _ "[clock 0, clock 0] @ rs"]) (simp only: task_run_append, simp)
qed

lemma backpressure_set_limiters:
  "apply_backpressure_internal now (set_limiters l m b s) = set_limiters l m b (apply_backpressure_internal now s)"
  by (cases l) (simp_all add: apply_backpressure_internal_def set_limiters_def)

text \<open>
  Alone on the controller, a task does what \<open>acquire_permit\<close> does: whenever the call returns, the steps of
  the task end with the permit and the same controller.
\<close>

theorem uninterrupted_task:
  assumes "acquire_permit msg_clock byte_clock now l n p s = Some s'"
  shows "\<exists>rs. task_run rs (call_permit l n p) s = ((call_permit l n p)\<lparr>pt_stage := Granted\<rparr>, s')"
proof -
  obtain msg byte where lim: "limiters l s = (msg, byte)" by (cases "limiters l s")
  let ?t = "\<lambda>stage. \<lparr>pt_level = l, pt_size = n, pt_priority = p, pt_stage = stage\<rparr>"
  let ?m = "flow_try_consume (msg_clock 0) (message_tokens p) msg" and ?b = "flow_try_consume (byte_clock 0) (byte_tokens n p) byte"
  have call: "call_permit l n p = ?t TryMessage" by (simp add: call_permit_def)
  have m: "task_run [msg_clock 0, msg_clock 0] (?t TryMessage) s = (?t (if snd ?m then TryBytes else Blocked), set_limiters l (fst ?m) byte s)"
    using lim by (simp add: task_step_simps try_consume_take)
  have b: "task_run [byte_clock 0, byte_clock 0] (?t TryBytes) (set_limiters l (fst ?m) byte s)
      = (?t (if snd ?b then Counting else Blocked), set_limiters l (fst ?m) (fst ?b) s)"
    by (simp add: task_step_simps try_consume_take)
  have c: "task_run [(now, now)] (?t Counting) x = (?t Granted, count_sent l n x)" for x
    by (simp add: task_step_simps)
  show ?thesis
  proof (cases "snd ?m \<and> snd ?b")
    case True
    then have "s' = count_sent l n (set_limiters l (fst ?m) (fst ?b) s)"
      using assms lim by (simp add: acquire_cases Let_def)
    then show ?thesis
      unfolding call using m b c True
      by (intro exI [of _ "[msg_clock 0, msg_clock 0] @ [byte_clock 0, byte_clock 0] @ [(now, now)]"])
        (simp only: task_run_append, simp)
  next
    case False
    let ?d = "if snd ?m then fst ?b else byte" and ?s = "apply_backpressure_internal now s"
    obtain msg' byte' where w: "flow_consume (\<lambda>i. msg_clock (Suc i)) (message_tokens p) (fst ?m) = Some msg'"
      "flow_consume (\<lambda>i. byte_clock (Suc i)) (byte_tokens n p) ?d = Some byte'"
      and s': "s' = count_sent l n (set_limiters l msg' byte' ?s)"
      using assms False unfolding acquire_cases Let_def lim fst_conv snd_conv by (auto simp: bind_eq_Some_conv split: if_splits)
    obtain us where "task_run us (?t TryMessage) s = (?t Blocked, set_limiters l (fst ?m) ?d s)"
    proof (cases "snd ?m")
      case True
      then show thesis
        using m b False by (intro that [of "[msg_clock 0, msg_clock 0] @ [byte_clock 0, byte_clock 0]"]) (simp only: task_run_append, simp)
    qed (use m that [of "[msg_clock 0, msg_clock 0]"] in simp)
    then have us: "task_run (us @ [(now, now)]) (?t TryMessage) s = (?t WaitMessage, set_limiters l (fst ?m) ?d ?s)"
      by (simp add: task_run_append task_step_simps backpressure_set_limiters)
    obtain vs where vs: "task_run vs (?t WaitMessage) (set_limiters l (fst ?m) ?d ?s) = (?t WaitBytes, set_limiters l msg' ?d ?s)"
      using wait_message_runs [of _ "?t WaitMessage" "fst ?m" msg' "set_limiters l (fst ?m) ?d ?s" ?d] w(1) by auto
    obtain ws where "task_run ws (?t WaitBytes) (set_limiters l msg' ?d ?s) = (?t Counting, set_limiters l msg' byte' ?s)"
      using wait_bytes_runs [of _ "?t WaitBytes" ?d byte' "set_limiters l msg' ?d ?s" msg'] w(2) by auto
    then have "task_run ((us @ [(now, now)]) @ vs @ ws @ [(now, now)]) (?t TryMessage) s = (?t Granted, s')"
      unfolding s' by (simp only: task_run_append [of "us @ [(now, now)]"] us prod.case Let_def) (simp only: task_run_append vs prod.case Let_def c)
    then show ?thesis unfolding call by (intro exI) simp
  qed
qed


subsection \<open>One bucket\<close>

text \<open>The steps that locks make atomic, and what each takes out.\<close>

definition atomic_op :: "flow_bucket \<Rightarrow> rat \<Rightarrow> flow_bucket \<Rightarrow> bool" where
  "atomic_op b c b' \<longleftrightarrow>
     (\<exists>r. fb_last_refill b \<le> fst r \<and> fst r \<le> snd r \<and> b' = flow_refill r b \<and> c = 0) \<or>
     (\<exists>amount \<ge> 0. b' = fst (flow_take amount b) \<and> c = (if snd (flow_take amount b) then amount else 0))"

lemma take_bounds:
  assumes "flow_wf b" "0 \<le> amount"
  shows "flow_wf (fst (flow_take amount b))"
    and "fb_tokens (fst (flow_take amount b)) + (if snd (flow_take amount b) then amount else 0) \<le> fb_tokens b + fb_capacity b / 2 ^ 53"
  using assms charged_bounds [of amount "fb_tokens b" "fb_capacity b"] by (auto simp: flow_take_def flow_wf_def)

lemma take_config [simp]:
  "fb_capacity (fst (flow_take amount b)) = fb_capacity b" "fb_refill_rate (fst (flow_take amount b)) = fb_refill_rate b"
  "fb_last_refill (fst (flow_take amount b)) = fb_last_refill b"
  by (simp_all add: flow_take_def)

lemma atomic_op_elim:
  assumes "atomic_op b c b'" "flow_wf b"
  obtains n t where "fb_last_refill b' = fb_last_refill b + n" "flow_wf b'"
    "t \<le> fb_capacity b" "t \<le> fb_tokens b + fb_refill_rate b * (of_nat n / 10 ^ 9) * (1 + 1 / 2 ^ 50) + fb_capacity b / 2 ^ 53"
    "fb_tokens b' + c \<le> t + fb_capacity b / 2 ^ 53"
  using assms(1) unfolding atomic_op_def
proof (elim disjE exE conjE)
  fix r assume r: "fb_last_refill b \<le> fst r" "fst r \<le> snd r" "b' = flow_refill r b" "c = 0"
  have "flow_op 0 b 0 b'" using r unfolding flow_op_def by (intro exI [of _ r] exI [of _ 0]) simp
  then have "flow_wf b'" using assms(2) by (rule flow_op_elim)
  have cap: "0 \<le> fb_capacity b / 2 ^ 53" using assms(2) by (simp add: flow_wf_def)
  obtain n where n: "flow_refill r b = b\<lparr>fb_tokens := fb_tokens (flow_refill r b), fb_last_refill := fb_last_refill b + n\<rparr>"
    "fb_tokens (flow_refill r b) \<le> fb_capacity b"
    "fb_tokens (flow_refill r b) \<le> fb_tokens b + fb_refill_rate b * (of_nat n / 10 ^ 9) * (1 + 1 / 2 ^ 50) + fb_capacity b / 2 ^ 53"
    by (rule flow_refill_eq [OF r(1,2) assms(2)])
  have "fb_last_refill b' = fb_last_refill b + n" unfolding r(3) by (subst n(1)) simp
  then show thesis using \<open>flow_wf b'\<close> r(3,4) cap by (intro that [OF _ _ n(2,3)]) simp_all
next
  fix amount :: rat
  assume "0 \<le> amount" and b: "b' = fst (flow_take amount b)" "c = (if snd (flow_take amount b) then amount else 0)"
  note take = take_bounds [OF assms(2) this(1)]
  show thesis
    using take assms(2) b by (intro that [of 0 "fb_tokens b"]) (simp_all add: flow_wf_def)
qed

definition flow_since :: "instant \<Rightarrow> flow_bucket \<Rightarrow> bool" where
  "flow_since start b \<longleftrightarrow> flow_wf b \<and> start \<le> fb_last_refill b"

lemma atomic_op_config: "atomic_op b c b' \<Longrightarrow> fb_capacity b' = fb_capacity b \<and> fb_refill_rate b' = fb_refill_rate b"
  unfolding atomic_op_def by auto

lemma atomic_op_time: "atomic_op b c b' \<Longrightarrow> fb_last_refill b \<le> fb_last_refill b'"
  unfolding atomic_op_def by (auto simp: flow_refill_def Let_def)

interpretation flow_locks: token_bucket_laws "flow_since start" fb_tokens fb_capacity fb_refill_rate fb_last_refill start
  "\<lambda>b c b'. start \<le> fb_last_refill b \<and> atomic_op b c b'" for start
proof
  fix b c b'
  assume "flow_since start b" and op: "start \<le> fb_last_refill b \<and> atomic_op b c b'"
  then have wf: "flow_wf b" and op: "atomic_op b c b'" by (simp_all add: flow_since_def)
  have half: "fb_capacity b / 2 ^ 52 = fb_capacity b / 2 ^ 53 + fb_capacity b / 2 ^ 53" by simp
  have cap: "0 \<le> fb_capacity b / 2 ^ 53" using wf by (simp add: flow_wf_def)
  from op wf obtain n t where n: "fb_last_refill b' = fb_last_refill b + n" "flow_wf b'" "t \<le> fb_capacity b"
    "t \<le> fb_tokens b + fb_refill_rate b * (of_nat n / 10 ^ 9) * (1 + 1 / 2 ^ 50) + fb_capacity b / 2 ^ 53"
    "fb_tokens b' + c \<le> t + fb_capacity b / 2 ^ 53" by (rule atomic_op_elim)
  show "flow_since start b'" using n(1,2) \<open>flow_since start b\<close> by (simp add: flow_since_def)
  show "fb_tokens b' + c \<le> fb_capacity b + fb_capacity b / 2 ^ 52" using n(3,5) half cap by linarith
  have "fb_last_refill b' - fb_last_refill b = n" using n(1) by simp
  then show "fb_tokens b' + c \<le> fb_tokens b + fb_refill_rate b * (of_nat (fb_last_refill b' - fb_last_refill b) / 10 ^ 9) * (1 + 1 / 2 ^ 50)
      + fb_capacity b / 2 ^ 52"
    using n(4,5) half by simp
qed (auto simp: flow_since_def flow_wf_def dest: atomic_op_config atomic_op_time)

text \<open>
  The bucket in a window. Once a call made in the window has refilled it, \<open>used\<close> is at most what was taken
  since then; before, nothing was used and no such call is about to take.
\<close>

definition metered :: "instant \<Rightarrow> nat \<Rightarrow> rat \<Rightarrow> flow_bucket \<Rightarrow> bool" where
  "metered start n used b \<longleftrightarrow>
     (\<exists>m cs. flow_since start m \<and> fb_capacity m = fb_capacity b \<and> fb_refill_rate m = fb_refill_rate b \<and>
        op_run (\<lambda>b c b'. start \<le> fb_last_refill b \<and> atomic_op b c b') m cs b \<and> used \<le> sum_list cs \<and> length cs \<le> n)"

definition meter :: "instant \<Rightarrow> nat \<Rightarrow> rat \<Rightarrow> bool \<Rightarrow> flow_bucket \<Rightarrow> bool" where
  "meter start n used taking b \<longleftrightarrow> second_bucket b \<and> (metered start n used b \<or> used = 0 \<and> \<not> taking)"

lemma metered_step:
  assumes "metered start n used b" "atomic_op b c b'" "used' \<le> used + c"
  shows "metered start (Suc n) used' b'"
proof -
  obtain m cs where m: "flow_since start m" "fb_capacity m = fb_capacity b" "fb_refill_rate m = fb_refill_rate b"
    "op_run (\<lambda>b c b'. start \<le> fb_last_refill b \<and> atomic_op b c b') m cs b" "used \<le> sum_list cs" "length cs \<le> n"
    using assms(1) unfolding metered_def by blast
  have "flow_since start b" by (rule flow_locks.run_wf [OF m(1,4)])
  then have "op_run (\<lambda>b c b'. start \<le> fb_last_refill b \<and> atomic_op b c b') m (cs @ [c]) b'"
    using op_run_append [OF m(4)] assms(2) by (simp add: flow_since_def)
  then show ?thesis
    unfolding metered_def using m assms(3) atomic_op_config [OF assms(2)] by (intro exI [of _ m] exI [of _ "cs @ [c]"]) simp
qed

lemma second_bucket_atomic: "second_bucket b \<Longrightarrow> atomic_op b c b' \<Longrightarrow> second_bucket b'"
  using atomic_op_config [of b c b'] by (auto simp: second_bucket_def elim: atomic_op_elim)

lemma meter_mono:
  "meter start n used taking b \<Longrightarrow> n \<le> n' \<Longrightarrow> 0 \<le> used' \<Longrightarrow> used' \<le> used \<Longrightarrow> (taking' \<Longrightarrow> taking) \<Longrightarrow> meter start n' used' taking' b"
  unfolding meter_def metered_def by (auto intro: order_trans)

lemma meter_refill:
  assumes "meter start n used taking b" "fb_last_refill b \<le> fst r" "fst r \<le> snd r"
  shows "meter start (Suc n) used taking (flow_refill r b)"
    and "start \<le> fst r \<Longrightarrow> meter start (Suc n) used True (flow_refill r b)"
proof -
  have op: "atomic_op b 0 (flow_refill r b)" using assms(2,3) unfolding atomic_op_def by blast
  have wf: "second_bucket (flow_refill r b)" using second_bucket_atomic [OF _ op] assms(1) by (simp add: meter_def)
  then show "meter start (Suc n) used taking (flow_refill r b)"
    using assms(1) metered_step [OF _ op, of start n used used] by (auto simp: meter_def)
  assume start: "start \<le> fst r"
  have "fst r \<le> fb_last_refill (flow_refill r b)"
    using assms(2,3) as_secs_f64_pos [of "fst r - fb_last_refill b"]
    by (cases "fb_last_refill b = fst r") (auto simp: flow_refill_def elapsed_def Let_def)
  then have "flow_since start (flow_refill r b)" using wf start by (simp add: flow_since_def second_bucket_def)
  then have "metered start (Suc n) 0 (flow_refill r b)"
    unfolding metered_def by (intro exI [of _ "flow_refill r b"] exI [of _ "[]"]) simp
  then show "meter start (Suc n) used True (flow_refill r b)"
    using assms(1) wf metered_step [OF _ op, of start n used used] by (auto simp: meter_def)
qed

lemma meter_take:
  assumes "meter start n used taking b" "0 \<le> amount"
  defines "c \<equiv> if snd (flow_take amount b) then amount else 0"
  shows "meter start (Suc n) used taking (fst (flow_take amount b))"
    and "taking \<Longrightarrow> meter start (Suc n) (used + c) taking' (fst (flow_take amount b))"
proof -
  have op: "atomic_op b c (fst (flow_take amount b))" using assms(2) unfolding atomic_op_def c_def by blast
  have c: "0 \<le> c" using assms(2) by (simp add: c_def)
  have wf: "second_bucket (fst (flow_take amount b))" using second_bucket_atomic [OF _ op] assms(1) by (simp add: meter_def)
  then show "meter start (Suc n) used taking (fst (flow_take amount b))"
    using assms(1) metered_step [OF _ op, of start n used used] c by (auto simp: meter_def)
  show "taking \<Longrightarrow> meter start (Suc n) (used + c) taking' (fst (flow_take amount b))"
    using assms(1) wf metered_step [OF _ op, of start n used "used + c"] by (auto simp: meter_def)
qed


subsection \<open>What a step does to the buckets\<close>

text \<open>What a task has paid for the permit it is to get, and whether it is about to take.\<close>

definition message_paid :: "permit_task \<Rightarrow> rat" where
  "message_paid t = (if pt_stage t \<in> {TryBytes, TakeBytes, WaitBytes, RetakeBytes, Counting, Granted}
     then message_tokens (pt_priority t) else 0)"

definition bytes_paid :: "permit_task \<Rightarrow> rat" where
  "bytes_paid t = (if pt_stage t \<in> {Counting, Granted} then byte_tokens (pt_size t) (pt_priority t) else 0)"

definition takes_message :: "permit_task \<Rightarrow> bool" where
  "takes_message t \<longleftrightarrow> pt_stage t \<in> {TakeMessage, RetakeMessage}"

definition takes_bytes :: "permit_task \<Rightarrow> bool" where
  "takes_bytes t \<longleftrightarrow> pt_stage t \<in> {TakeBytes, RetakeBytes}"

text \<open>A refill reads the clock twice, not before the last refill of its bucket.\<close>

definition reads :: "reading \<Rightarrow> permit_task \<Rightarrow> flow_controller \<Rightarrow> bool" where
  "reads r t s \<longleftrightarrow> fst r \<le> snd r \<and>
     (pt_stage t \<in> {TryMessage, WaitMessage} \<longrightarrow> fb_last_refill (fst (limiters (pt_level t) s)) \<le> fst r) \<and>
     (pt_stage t \<in> {TryBytes, WaitBytes} \<longrightarrow> fb_last_refill (snd (limiters (pt_level t) s)) \<le> fst r)"

definition bucket_step :: "reading \<Rightarrow> flow_bucket \<Rightarrow> flow_bucket \<Rightarrow> rat \<Rightarrow> rat \<Rightarrow> bool \<Rightarrow> bool \<Rightarrow> bool" where
  "bucket_step r b b' paid paid' takes takes' \<longleftrightarrow>
     b' = b \<and> paid' \<le> paid \<and> \<not> takes' \<or>
     fb_last_refill b \<le> fst r \<and> fst r \<le> snd r \<and> b' = flow_refill r b \<and> paid' = paid \<or>
     takes \<and> \<not> takes' \<and> (\<exists>amount \<ge> 0. b' = fst (flow_take amount b) \<and> paid' = paid + (if snd (flow_take amount b) then amount else 0))"

lemma task_step_stage:
  fixes t :: permit_task and s :: flow_controller
  defines "m \<equiv> fst (limiters (pt_level t) s)" and "b \<equiv> snd (limiters (pt_level t) s)"
  defines "mt \<equiv> message_tokens (pt_priority t)" and "bt \<equiv> byte_tokens (pt_size t) (pt_priority t)"
  defines "put \<equiv> \<lambda>m b. set_limiters (pt_level t) m b s" and "goto \<equiv> \<lambda>stage. t\<lparr>pt_stage := stage\<rparr>"
  shows "pt_stage t = TryMessage \<Longrightarrow> task_step r t s = (goto TakeMessage, put (flow_refill r m) b)"
    "pt_stage t = WaitMessage \<Longrightarrow> task_step r t s = (goto RetakeMessage, put (flow_refill r m) b)"
    "pt_stage t = TryBytes \<Longrightarrow> task_step r t s = (goto TakeBytes, put m (flow_refill r b))"
    "pt_stage t = WaitBytes \<Longrightarrow> task_step r t s = (goto RetakeBytes, put m (flow_refill r b))"
    "pt_stage t = TakeMessage \<Longrightarrow> task_step r t s = (goto (if snd (flow_take mt m) then TryBytes else Blocked), put (fst (flow_take mt m)) b)"
    "pt_stage t = RetakeMessage \<Longrightarrow> task_step r t s = (goto (if snd (flow_take mt m) then WaitBytes else WaitMessage), put (fst (flow_take mt m)) b)"
    "pt_stage t = TakeBytes \<Longrightarrow> task_step r t s = (goto (if snd (flow_take bt b) then Counting else Blocked), put m (fst (flow_take bt b)))"
    "pt_stage t = RetakeBytes \<Longrightarrow> task_step r t s = (goto (if snd (flow_take bt b) then Counting else WaitBytes), put m (fst (flow_take bt b)))"
    "pt_stage t = Blocked \<Longrightarrow> task_step r t s = (goto WaitMessage, apply_backpressure_internal (snd r) s)"
    "pt_stage t = Counting \<Longrightarrow> task_step r t s = (goto Granted, count_sent (pt_level t) (pt_size t) s)"
    "pt_stage t = Granted \<Longrightarrow> task_step r t s = (t, s)"
  unfolding assms by (simp_all add: task_step_simps)

lemma task_step_buckets:
  assumes "reads r t s" "task_step r t s = (t', s')"
  defines "l \<equiv> pt_level t"
  shows "bucket_step r (fst (limiters l s)) (fst (limiters l s')) (message_paid t) (message_paid t') (takes_message t) (takes_message t')"
    and "bucket_step r (snd (limiters l s)) (snd (limiters l s')) (bytes_paid t) (bytes_paid t') (takes_bytes t) (takes_bytes t')"
    and "k \<noteq> l \<Longrightarrow> limiters k s' = limiters k s"
    and "pt_level t' = l"
proof -
  note defs = reads_def message_paid_def bytes_paid_def takes_message_def takes_bytes_def l_def
  have take: "snd (flow_take amount b) \<Longrightarrow> bucket_step r b (fst (flow_take amount b)) 0 amount True False"
    "\<not> snd (flow_take amount b) \<Longrightarrow> bucket_step r b (fst (flow_take amount b)) 0 0 True False" if "0 \<le> amount" for amount b
    using that unfolding bucket_step_def by auto
  have same: "bucket_step r b b paid paid' takes False" if "paid' \<le> paid" for b paid paid' takes
    using that by (simp add: bucket_step_def)
  have refill: "bucket_step r b (flow_refill r b) paid paid takes takes'" if "fb_last_refill b \<le> fst r" "fst r \<le> snd r" for b paid takes takes'
    using that by (simp add: bucket_step_def)
  show "bucket_step r (fst (limiters l s)) (fst (limiters l s')) (message_paid t) (message_paid t') (takes_message t) (takes_message t')"
    using assms(1,2)
    by (cases "pt_stage t") (auto simp: defs task_step_stage same refill take tokens_nonneg split: if_splits)
  show "bucket_step r (snd (limiters l s)) (snd (limiters l s')) (bytes_paid t) (bytes_paid t') (takes_bytes t) (takes_bytes t')"
    using assms(1,2)
    by (cases "pt_stage t") (auto simp: defs task_step_stage same refill take tokens_nonneg split: if_splits)
  show "k \<noteq> l \<Longrightarrow> limiters k s' = limiters k s" "pt_level t' = l"
    using assms(2) by (cases "pt_stage t"; auto simp: l_def task_step_stage)+
qed

lemma paid_nonneg: "0 \<le> message_paid t" "0 \<le> bytes_paid t"
  using tokens_nonneg by (simp_all add: message_paid_def bytes_paid_def)

definition level_total :: "routing_level \<Rightarrow> (permit_task \<Rightarrow> rat) \<Rightarrow> permit_task list \<Rightarrow> rat" where
  "level_total l paid ts = (\<Sum>t \<leftarrow> ts. if pt_level t = l then paid t else 0)"

definition some_takes :: "routing_level \<Rightarrow> (permit_task \<Rightarrow> bool) \<Rightarrow> permit_task list \<Rightarrow> bool" where
  "some_takes l takes ts \<longleftrightarrow> (\<exists>t \<in> set ts. pt_level t = l \<and> takes t)"

lemma level_total_nonneg: "(\<And>t. 0 \<le> paid t) \<Longrightarrow> 0 \<le> level_total l paid ts"
  unfolding level_total_def by (intro sum_list_nonneg) auto

lemma sum_list_map_update:
  "i < length xs \<Longrightarrow> sum_list (map f (xs[i := x])) = sum_list (map f xs) + (f x - f (xs ! i) :: rat)"
proof (induction xs arbitrary: i)
  case (Cons y ys)
  then show ?case by (cases i) auto
qed simp

lemma total_update:
  assumes "i < length ts" "pt_level t' = pt_level (ts ! i)"
  shows "level_total l paid (ts[i := t']) = level_total l paid ts + (if pt_level (ts ! i) = l then paid t' - paid (ts ! i) else 0)"
  unfolding level_total_def sum_list_map_update [OF assms(1)] using assms(2) by simp

lemma some_takes_update:
  assumes "some_takes l takes (ts[i := t'])" "\<not> (pt_level t' = l \<and> takes t')"
  shows "some_takes l takes ts"
  using assms set_update_subset_insert [of ts i t'] unfolding some_takes_def by blast

lemma meter_made:
  assumes "meter start n (level_total l paid ts) (some_takes l takes ts) b" "\<And>t. 0 \<le> paid t"
    and "i < length ts" "pt_level (ts ! i) = l" "pt_level t' = l" "start \<le> fst r"
    and "bucket_step r b b' (paid (ts ! i)) (paid t') (takes (ts ! i)) (takes t')"
  shows "meter start (Suc n) (level_total l paid (ts[i := t'])) (some_takes l takes (ts[i := t'])) b'"
proof -
  have sum: "level_total l paid (ts[i := t']) = level_total l paid ts + (paid t' - paid (ts ! i))" "0 \<le> level_total l paid (ts[i := t'])"
    using assms(3-5) by (simp add: total_update) (rule level_total_nonneg [OF assms(2)])
  from assms(7) consider "b' = b" "paid t' \<le> paid (ts ! i)" "\<not> takes t'"
    | "fb_last_refill b \<le> fst r" "fst r \<le> snd r" "b' = flow_refill r b" "paid t' = paid (ts ! i)"
    | amount where "takes (ts ! i)" "0 \<le> amount" "b' = fst (flow_take amount b)"
      "paid t' = paid (ts ! i) + (if snd (flow_take amount b) then amount else 0)"
    unfolding bucket_step_def by blast
  then show ?thesis
  proof cases
    case 1
    show ?thesis unfolding 1(1)
      by (rule meter_mono [OF assms(1)]) (use sum 1 in \<open>auto intro: some_takes_update\<close>)
  next
    case 2
    show ?thesis unfolding 2(3)
      by (rule meter_mono [OF meter_refill(2) [OF assms(1) 2(1,2) assms(6)]]) (use sum 2(4) in simp_all)
  next
    case (3 amount)
    have "some_takes l takes ts" using 3(1) assms(3,4) by (auto simp: some_takes_def)
    from meter_take(2) [OF assms(1) 3(2) this] show ?thesis using sum(1) 3(3,4) by simp
  qed
qed

lemma meter_other:
  assumes "meter start n used taking b" "bucket_step r b b' paid paid' takes takes'"
  shows "meter start (Suc n) used taking b'"
proof -
  have "meter start (Suc n) used taking b" using assms(1) unfolding meter_def metered_def by (auto intro: le_SucI)
  then show ?thesis
    using assms(2) meter_refill(1) [OF assms(1)] meter_take(1) [OF assms(1)] unfolding bucket_step_def by blast
qed


subsection \<open>Runs\<close>

text \<open>
  A window that begins with the calls \<open>ts0\<close> under way: new calls are made, and the tasks take their steps in
  any order, with the other operations of the controller in between. The calls made in the window read the
  clock not before \<open>start\<close>. The number counts the steps.
\<close>

inductive permit_run :: "instant \<Rightarrow> permit_task list \<Rightarrow> flow_controller \<Rightarrow> nat \<Rightarrow> permit_task list \<Rightarrow> flow_controller \<Rightarrow> bool"
  for start ts0 s0 where
  run_start: "permit_run start ts0 s0 0 ts0 s0"
| run_call: "permit_run start ts0 s0 n ts s \<Longrightarrow> permit_run start ts0 s0 n (ts @ [call_permit l k p]) s"
| run_step: "permit_run start ts0 s0 n ts s \<Longrightarrow> i < length ts \<Longrightarrow> reads r (ts ! i) s \<Longrightarrow> (length ts0 \<le> i \<Longrightarrow> start \<le> fst r) \<Longrightarrow>
    task_step r (ts ! i) s = (t, s') \<Longrightarrow> permit_run start ts0 s0 (Suc n) (ts[i := t]) s'"
| run_look_messages: "permit_run start ts0 s0 n ts s \<Longrightarrow> limiters l s = (msg, byte) \<Longrightarrow> fb_last_refill msg \<le> fst r \<Longrightarrow> fst r \<le> snd r \<Longrightarrow>
    permit_run start ts0 s0 (Suc n) ts (set_limiters l (fst (flow_available_tokens r msg)) byte s)"
| run_look_bytes: "permit_run start ts0 s0 n ts s \<Longrightarrow> limiters l s = (msg, byte) \<Longrightarrow> fb_last_refill byte \<le> fst r \<Longrightarrow> fst r \<le> snd r \<Longrightarrow>
    permit_run start ts0 s0 (Suc n) ts (set_limiters l msg (fst (flow_available_tokens r byte)) s)"
| run_release: "permit_run start ts0 s0 n ts s \<Longrightarrow> permit_run start ts0 s0 n ts (release_backpressure s)"
| run_drop: "permit_run start ts0 s0 n ts s \<Longrightarrow> permit_run start ts0 s0 n ts (record_drop s)"

text \<open>The calls made in the window and, for both buckets of a level, what they used.\<close>

definition window_ok :: "instant \<Rightarrow> nat \<Rightarrow> permit_task list \<Rightarrow> flow_bucket \<times> flow_bucket \<Rightarrow> routing_level \<Rightarrow> bool" where
  "window_ok start n ts bs l \<longleftrightarrow>
     meter start n (level_total l message_paid ts) (some_takes l takes_message ts) (fst bs) \<and>
     meter start n (level_total l bytes_paid ts) (some_takes l takes_bytes ts) (snd bs)"

lemma window_ok_step:
  assumes "window_ok start n ts (limiters l s) l" "i < length ts" "reads r (ts ! i) s" "start \<le> fst r"
    and "task_step r (ts ! i) s = (t, s')"
  shows "window_ok start (Suc n) (ts[i := t]) (limiters l s') l"
proof (cases "pt_level (ts ! i) = l")
  case True
  note step = task_step_buckets [OF assms(3,5)]
  from assms(1) show ?thesis
    unfolding window_ok_def using True step(1,2,4) paid_nonneg assms(2,4) by (auto intro!: meter_made)
next
  case False
  note step = task_step_buckets [OF assms(3,5)]
  have "level_total l paid (ts[i := t]) = level_total l paid ts" "some_takes l takes (ts[i := t]) \<Longrightarrow> some_takes l takes ts" for paid takes
    using False step(4) assms(2) some_takes_update [of l takes ts i t] by (auto simp: total_update)
  then show ?thesis
    using assms(1) step(3) [of l] False unfolding window_ok_def
    by (auto intro!: meter_mono [where n = n and n' = "Suc n"] intro: level_total_nonneg paid_nonneg)
qed

lemma window_ok_other:
  assumes "window_ok start n ts (limiters l s) l" "reads r t s" "task_step r t s = (t', s')"
  shows "window_ok start (Suc n) ts (limiters l s') l"
proof (cases "pt_level t = l")
  case True
  then show ?thesis
    using assms(1) task_step_buckets(1,2) [OF assms(2,3)] unfolding window_ok_def by (auto intro: meter_other)
next
  case False
  then have "limiters l s' = limiters l s" using task_step_buckets(3) [OF assms(2,3)] by auto
  then show ?thesis
    using assms(1) unfolding window_ok_def
    by (auto intro!: meter_mono [where n = n and n' = "Suc n"] intro: level_total_nonneg paid_nonneg)
qed

lemma bucket_step_capacity: "bucket_step r b b' paid paid' takes takes' \<Longrightarrow> fb_capacity b' = fb_capacity b"
  unfolding bucket_step_def by auto

lemma window_ok_call: "window_ok start n ts bs l \<Longrightarrow> window_ok start n (ts @ [call_permit k m p]) bs l"
  by (simp add: window_ok_def level_total_def some_takes_def call_permit_def message_paid_def bytes_paid_def takes_message_def takes_bytes_def)

lemma window_ok_idle: "window_ok start n ts bs l \<Longrightarrow> window_ok start (Suc n) ts bs l"
  unfolding window_ok_def by (auto intro!: meter_mono [where n = n and n' = "Suc n"] intro: level_total_nonneg paid_nonneg)

lemma window_ok_look:
  assumes "window_ok start n ts (limiters l s) l" "limiters k s = (msg, byte)" "fst r \<le> snd r"
  shows "fb_last_refill msg \<le> fst r \<Longrightarrow> window_ok start (Suc n) ts (limiters l (set_limiters k (flow_refill r msg) byte s)) l"
    and "fb_last_refill byte \<le> fst r \<Longrightarrow> window_ok start (Suc n) ts (limiters l (set_limiters k msg (flow_refill r byte) s)) l"
proof -
  note idle = window_ok_idle [OF assms(1)]
  show "fb_last_refill msg \<le> fst r \<Longrightarrow> window_ok start (Suc n) ts (limiters l (set_limiters k (flow_refill r msg) byte s)) l"
    using assms idle meter_refill(1) [OF _ _ assms(3)] by (auto simp: window_ok_def)
  show "fb_last_refill byte \<le> fst r \<Longrightarrow> window_ok start (Suc n) ts (limiters l (set_limiters k msg (flow_refill r byte) s)) l"
    using assms idle meter_refill(1) [OF _ _ assms(3)] by (auto simp: window_ok_def)
qed

lemma permit_run_ok:
  assumes "permit_run start ts0 s0 n ts s" "fc_wf s0"
  shows "length ts0 \<le> length ts \<and> window_ok start n (drop (length ts0) ts) (limiters l s) l"
  using assms(1)
proof (induction rule: permit_run.induct)
  case run_start
  then show ?case using assms(2) by (simp add: window_ok_def meter_def level_total_def some_takes_def fc_wf_def)
next
  case (run_call n ts s k m p)
  then show ?case by (simp add: window_ok_call)
next
  case (run_step n ts s i r t s')
  let ?k = "length ts0"
  show ?case
  proof (cases "i < ?k")
    case True
    then show ?thesis using run_step window_ok_other [OF _ run_step.hyps(3,5)] by (simp add: drop_update_cancel)
  next
    case False
    have "drop ?k (ts[i := t]) = (drop ?k ts)[i - ?k := t]" using False by (simp add: drop_update_swap)
    moreover have "drop ?k ts ! (i - ?k) = ts ! i" using False run_step by simp
    ultimately show ?thesis
      using False run_step window_ok_step [of start n "drop ?k ts" l s "i - ?k" r t s'] by auto
  qed
next
  case (run_look_messages n ts s k msg byte r)
  then show ?case using window_ok_look(1) by (simp add: flow_available_tokens_def Let_def)
next
  case (run_look_bytes n ts s k msg byte r)
  then show ?case using window_ok_look(2) by (simp add: flow_available_tokens_def Let_def)
qed simp_all

lemma permit_run_capacity:
  "permit_run start ts0 s0 n ts s \<Longrightarrow>
   fb_capacity (fst (limiters l s)) = fb_capacity (fst (limiters l s0)) \<and> fb_capacity (snd (limiters l s)) = fb_capacity (snd (limiters l s0))"
proof (induction rule: permit_run.induct)
  case (run_step n ts s i r t s')
  note step = task_step_buckets [OF run_step.hyps(3,5)]
  show ?case
    using run_step.IH bucket_step_capacity [OF step(1)] bucket_step_capacity [OF step(2)] step(3) [of l]
    by (cases "pt_level (ts ! i) = l") auto
next
  case (run_look_messages n ts s k msg byte r)
  then show ?case by (auto simp: flow_available_tokens_def Let_def)
next
  case (run_look_bytes n ts s k msg byte r)
  then show ?case by (auto simp: flow_available_tokens_def Let_def)
qed simp_all

lemma permit_run_wf: "permit_run start ts0 s0 n ts s \<Longrightarrow> fc_wf s0 \<Longrightarrow> fc_wf s"
  using permit_run_ok [of start ts0 s0 n ts s] by (auto simp: fc_wf_def window_ok_def meter_def)

lemma permit_run_new:
  assumes "permit_run start [] (flow_controller_new cell zone dp clock) n ts s"
  shows "fc_wf s" "fb_capacity (fst (limiters l s)) = as_f64 (bl_messages_per_sec (level_limit_of l cell zone))"
    "fb_capacity (snd (limiters l s)) = as_f64 (bl_bytes_per_sec (level_limit_of l cell zone))"
  using permit_run_wf [OF assms fc_new(1)] permit_run_capacity [OF assms, of l] fc_new(2,3) [of l cell zone dp clock] by simp_all

lemma meter_rate:
  assumes "meter start n used taking b" "fb_last_refill b \<le> stop"
  shows "used \<le> fb_capacity b + fb_capacity b * (of_nat (stop - start) / 10 ^ 9) * (1 + 1 / 2 ^ 50) + of_nat n * (fb_capacity b / 2 ^ 52)"
proof -
  have b: "second_bucket b" using assms(1) by (simp add: meter_def)
  then have cap: "0 \<le> fb_capacity b" "fb_refill_rate b = fb_capacity b" by (auto simp: second_bucket_def flow_wf_def)
  show ?thesis
  proof (cases "metered start n used b")
    case True
    then obtain m cs where m: "flow_since start m" "fb_capacity m = fb_capacity b" "fb_refill_rate m = fb_refill_rate b"
      "op_run (\<lambda>b c b'. start \<le> fb_last_refill b \<and> atomic_op b c b') m cs b" "used \<le> sum_list cs" "length cs \<le> n"
      unfolding metered_def by blast
    have "of_nat (length cs) * (fb_capacity b / 2 ^ 52) \<le> of_nat n * (fb_capacity b / 2 ^ 52)"
      using cap m(6) by (intro mult_right_mono) simp_all
    then show ?thesis using flow_locks.rate_limit [OF m(1,4), of stop] assms(2) m(2,3,5) cap(2) by simp
  next
    case False
    then have "used = 0" using assms(1) by (simp add: meter_def)
    then show ?thesis using cap(1) by (simp add: add_nonneg_nonneg)
  qed
qed

text \<open>What the permits of a level cost in messages and in bytes.\<close>

definition message_cost :: "routing_level \<Rightarrow> (routing_level \<times> nat \<times> message_priority) list \<Rightarrow> rat" where
  "message_cost l ps = (\<Sum>(_, _, p) \<leftarrow> filter (\<lambda>(k, _). k = l) ps. priority_multiplier p)"

definition byte_cost :: "routing_level \<Rightarrow> (routing_level \<times> nat \<times> message_priority) list \<Rightarrow> rat" where
  "byte_cost l ps = (\<Sum>(_, n, p) \<leftarrow> filter (\<lambda>(k, _). k = l) ps. f_times (as_f64 n) (priority_multiplier p))"

text \<open>The permits that the tasks of a list have been granted.\<close>

definition granted :: "permit_task list \<Rightarrow> (routing_level \<times> nat \<times> message_priority) list" where
  "granted ts = map (\<lambda>t. (pt_level t, pt_size t, pt_priority t)) (filter (\<lambda>t. pt_stage t = Granted) ts)"

lemma granted_cost: "message_cost l (granted ts) \<le> level_total l message_paid ts" "byte_cost l (granted ts) \<le> level_total l bytes_paid ts"
proof (induction ts)
  case (Cons t ts)
  case 1
  then show ?case using Cons(1) paid_nonneg(1) [of t]
    by (auto simp: granted_def message_cost_def level_total_def message_paid_def message_tokens_eq)
  case 2
  then show ?case using Cons(2) paid_nonneg(2) [of t]
    by (auto simp: granted_def byte_cost_def level_total_def bytes_paid_def byte_tokens_def)
qed (simp_all add: granted_def message_cost_def byte_cost_def level_total_def)

text \<open>
  C4. Rate, with any number of callers at the same time. Take any state that concurrent calls of
  \<open>acquire_permit\<close> and the other operations have brought about, their steps interleaved in any way, and
  any window of time that begins there. The permits granted within the window at a level, to calls made
  within it, cost at most one second of the level's limit plus the limit times the length of the
  window, in messages and in bytes, each weighted by priority; rounding adds at most a part in \<open>2^50\<close> and a
  part in \<open>2^52\<close> of the limit for every step. The clock does not go back: a refill reads it not before the
  last refill of the same bucket, and the calls made in the window not before its start.
\<close>

theorem permits_within_rate:
  assumes "permit_run start0 [] (flow_controller_new cell zone dp clock) n0 ts0 s0" "permit_run start ts0 s0 n ts s"
    and "fb_last_refill (fst (limiters l s)) \<le> stop" "fb_last_refill (snd (limiters l s)) \<le> stop"
  defines "rate \<equiv> \<lambda>x. as_f64 x + as_f64 x * (of_nat (stop - start) / 10 ^ 9) * (1 + 1 / 2 ^ 50) + of_nat n * (as_f64 x / 2 ^ 52)"
    and "ps \<equiv> granted (drop (length ts0) ts)"
  shows "message_cost l ps \<le> rate (bl_messages_per_sec (level_limit_of l cell zone)) \<and>
    byte_cost l ps \<le> rate (bl_bytes_per_sec (level_limit_of l cell zone))"
proof -
  have wf: "fc_wf s0" by (rule permit_run_new(1) [OF assms(1)])
  have cap: "fb_capacity (fst (limiters l s)) = as_f64 (bl_messages_per_sec (level_limit_of l cell zone))"
    "fb_capacity (snd (limiters l s)) = as_f64 (bl_bytes_per_sec (level_limit_of l cell zone))"
    using permit_run_new(2,3) [OF assms(1)] permit_run_capacity [OF assms(2)] by simp_all
  have "window_ok start n (drop (length ts0) ts) (limiters l s) l" using permit_run_ok [OF assms(2) wf] by simp
  then have "level_total l message_paid (drop (length ts0) ts) \<le> rate (bl_messages_per_sec (level_limit_of l cell zone))"
    "level_total l bytes_paid (drop (length ts0) ts) \<le> rate (bl_bytes_per_sec (level_limit_of l cell zone))"
    using meter_rate [OF _ assms(3)] meter_rate [OF _ assms(4)] unfolding rate_def window_ok_def cap by blast+
  then show ?thesis
    unfolding ps_def using granted_cost [of l "drop (length ts0) ts"] by linarith
qed


text \<open>
  C9. When waiting ends. Take any state that concurrent calls and the other operations have brought about, and
  a call of \<open>acquire_permit\<close> that runs from there with no other caller meanwhile. Its readings of the clock do
  not go back, and those of successive attempts inside a waiting loop are at least the ten milliseconds
  apart that the loop sleeps. The call returns if and only if the message costs no more than one second of
  both limits: the loop that waits for tokens ends if it does, and runs for ever if it does not. A
  low-priority message of more than two thirds of the bytes per second is never granted a permit and
  never refused one.
\<close>

theorem permit_returns_iff:
  assumes "permit_run start0 [] (flow_controller_new cell zone dp clock) n0 ts s" "ready start msg_clock byte_clock l s"
  shows "(\<exists>s'. acquire_permit msg_clock byte_clock now l n p s = Some s') \<longleftrightarrow>
    priority_multiplier p \<le> as_f64 (bl_messages_per_sec (level_limit_of l cell zone)) \<and>
    f_times (as_f64 n) (priority_multiplier p) \<le> as_f64 (bl_bytes_per_sec (level_limit_of l cell zone))"
  using acquire_outcome [OF permit_run_new(1) [OF assms(1)] assms(2), where n = n and p = p and now = now]
    permit_run_new(2,3) [OF assms(1), of l]
  by (auto simp: message_tokens_eq byte_tokens_def split: if_splits)

theorem permit_returns_iff_witness:
  "(\<exists>s'. acquire_permit demo_clock demo_clock 0 LevelCell 100 PrioNormal demo_controller = Some s') \<and>
   \<not> (\<exists>s'. acquire_permit demo_clock demo_clock 0 LevelCell 100001 PrioNormal demo_controller = Some s')"
proof -
  note iff = permit_returns_iff [OF run_start demo_ready [unfolded demo_controller_def]]
  show ?thesis unfolding demo_controller_def iff
    by (simp add: level_limit_of_def cell_default_def as_f64_exact times_demo)
qed


subsection \<open>Two callers\<close>

text \<open>Two calls whose steps alternate, all at the time at which the controller was made.\<close>

fun schedule :: "(nat \<times> reading) list \<Rightarrow> permit_task list \<times> flow_controller \<Rightarrow> (permit_task list \<times> flow_controller) option" where
  "schedule [] (ts, s) = Some (ts, s)"
| "schedule ((i, r) # us) (ts, s) =
     (if i < length ts \<and> reads r (ts ! i) s then (let (t, s) = task_step r (ts ! i) s in schedule us (ts[i := t], s)) else None)"

lemma schedule_run:
  assumes "permit_run 0 ts0 s0 n ts s" "schedule us (ts, s) = Some (ts', s')"
  shows "permit_run 0 ts0 s0 (n + length us) ts' s'"
  using assms
proof (induction us arbitrary: n ts s)
  case (Cons u us)
  obtain i r t s'' where u: "u = (i, r)" "task_step r (ts ! i) s = (t, s'')" by (metis surj_pair)
  then have "permit_run 0 ts0 s0 (Suc n) (ts[i := t]) s''" "schedule us (ts[i := t], s'') = Some (ts', s')"
    using Cons.prems by (auto intro: run_step split: if_splits)
  from Cons.IH [OF this] show ?case by simp
qed simp

lemma demo_limiters:
  "limiters LevelCell demo_controller = (flow_bucket_new 100 100 0, flow_bucket_new 100000 100000 0)"
  by (simp add: demo_controller_def flow_controller_new_def cell_default_def as_f64_exact limiters_def)

lemma demo_tokens: "f_times 1 1 = 1" "f_times (as_f64 100) 1 = 100"
  using times_normal [of 1] times_normal [of 100] by (simp_all add: as_f64_exact)

lemma demo_fl: "fl 53 99 = 99" "fl 53 98 = 98" "fl 53 99900 = 99900" "fl 53 99800 = 99800"
  using fl_as_f64 [of 99] fl_as_f64 [of 98] fl_as_f64 [of 99900] fl_as_f64 [of 99800] by (simp_all add: as_f64_exact)

definition demo_state :: "rat \<Rightarrow> rat \<Rightarrow> flow_controller" where
  "demo_state m b = set_limiters LevelCell ((flow_bucket_new 100 100 0)\<lparr>fb_tokens := m\<rparr>) ((flow_bucket_new 100000 100000 0)\<lparr>fb_tokens := b\<rparr>)
     demo_controller"

definition demo_task :: "stage \<Rightarrow> permit_task" where
  "demo_task stage = (call_permit LevelCell 100 PrioNormal)\<lparr>pt_stage := stage\<rparr>"

lemma demo_step:
  "task_step (0, 0) (demo_task TryMessage) (demo_state m b) = (demo_task TakeMessage, demo_state m b)"
  "1 \<le> m \<Longrightarrow> task_step (0, 0) (demo_task TakeMessage) (demo_state m b) = (demo_task TryBytes, demo_state (fl 53 (m - 1)) b)"
  "task_step (0, 0) (demo_task TryBytes) (demo_state m b) = (demo_task TakeBytes, demo_state m b)"
  "100 \<le> b \<Longrightarrow> task_step (0, 0) (demo_task TakeBytes) (demo_state m b) = (demo_task Counting, demo_state m (fl 53 (b - 100)))"
  "task_step r (demo_task Counting) x = (demo_task Granted, count_sent LevelCell 100 x)"
  by (simp_all add: task_step_simps demo_task_def demo_state_def call_permit_def demo_tokens flow_take_def f_sub_def
      flow_refill_def elapsed_def flow_bucket_new_def)

lemma demo_reads: "reads (0, 0) (demo_task stage) (demo_state m b)" "reads (0, 0) (demo_task Counting) x"
  by (simp_all add: reads_def demo_task_def demo_state_def call_permit_def flow_bucket_new_def)

lemma demo_start: "demo_controller = demo_state 100 100000" "call_permit LevelCell 100 PrioNormal = demo_task TryMessage"
proof -
  have "set_limiters LevelCell (fst (limiters LevelCell demo_controller)) (snd (limiters LevelCell demo_controller)) demo_controller
      = demo_state 100 100000"
    by (simp add: demo_state_def demo_limiters flow_bucket_new_def)
  then show "demo_controller = demo_state 100 100000" by (simp only: limiters_eta)
qed (simp add: demo_task_def call_permit_def)

lemma demo_schedule:
  "schedule [(0, 0, 0), (1, 0, 0), (0, 0, 0), (1, 0, 0), (0, 0, 0), (1, 0, 0), (0, 0, 0), (1, 0, 0), (0, 0, 0), (1, 0, 0)]
     ([demo_task TryMessage, demo_task TryMessage], demo_state 100 100000)
   = Some ([demo_task Granted, demo_task Granted], count_sent LevelCell 100 (count_sent LevelCell 100 (demo_state 98 99800)))"
  by (simp add: demo_step demo_reads demo_fl)

theorem permits_within_rate_witness:
  "message_cost LevelCell (granted [demo_task Granted, demo_task Granted]) = 2 \<and> (2 :: rat) \<le> 100 + 10 * (100 / 2 ^ 52)"
proof -
  let ?s = "count_sent LevelCell 100 (count_sent LevelCell 100 (demo_state 98 99800))"
  have start: "permit_run 0 [] demo_controller 0 [] demo_controller" by (rule run_start)
  from run_call [OF run_call [OF start]]
  have "permit_run 0 [] demo_controller 0 [demo_task TryMessage, demo_task TryMessage] (demo_state 100 100000)"
    by (simp flip: demo_start)
  from schedule_run [OF this demo_schedule]
  have run: "permit_run 0 [] demo_controller 10 [demo_task Granted, demo_task Granted] ?s" by (simp add: numeral_eq_Suc)
  have "fb_last_refill (fst (limiters LevelCell ?s)) \<le> 0" "fb_last_refill (snd (limiters LevelCell ?s)) \<le> 0"
    by (simp_all add: demo_state_def flow_bucket_new_def)
  from permits_within_rate [OF start [unfolded demo_controller_def] run [unfolded demo_controller_def] this]
  show ?thesis
    by (simp add: level_limit_of_def cell_default_def as_f64_exact message_cost_def granted_def demo_task_def call_permit_def)
qed

end
