(* ===== verification/Hierarchical_Router.thy ===== *)
theory Hierarchical_Router
  imports Routing_Table Flow_Tasks
begin

text \<open>
  The hierarchical router, \<open>peat-protocol/src/hierarchy/router.rs\<close>: who may message whom, by the routing
  table, and permits from the flow controller for what is allowed. It composes \<open>Routing_Table\<close> and
  \<open>Flow_Control\<close>. A call that waits for ever is \<open>None\<close>.
\<close>

record hierarchical_router =
  hr_node_id :: string
  hr_routing_table :: routing_table
  hr_flow_controller :: "flow_controller option"

definition is_upward_route_valid :: "routing_table \<Rightarrow> string \<Rightarrow> string \<Rightarrow> string \<Rightarrow> bool" where
  "is_upward_route_valid table from from_cell to = (if \<not> is_cell_leader table from from_cell then False else True)"

definition is_route_valid :: "string \<Rightarrow> string \<Rightarrow> hierarchical_router \<Rightarrow> bool" where
  "is_route_valid from to self =
     (let table = hr_routing_table self
      in case get_node_cell table from of
           None \<Rightarrow> False
         | Some from_cell \<Rightarrow>
             (case get_node_cell table to of
                None \<Rightarrow> is_upward_route_valid table from from_cell to
              | Some to_cell \<Rightarrow> if from_cell = to_cell then True else False))"

definition valid_targets :: "hierarchical_router \<Rightarrow> string list" where
  "valid_targets self =
     (let table = hr_routing_table self
      in case get_node_cell table (hr_node_id self) of
           None \<Rightarrow> []
         | Some my_cell \<Rightarrow>
             (let targets = filter (\<lambda>node. node \<noteq> hr_node_id self) (get_cell_nodes table my_cell)
              in if is_cell_leader table (hr_node_id self) my_cell
                 then (case get_cell_zone table my_cell of
                         Some zone_id \<Rightarrow> targets @ [''zone:'' @ zone_id]
                       | None \<Rightarrow> targets)
                 else targets))"

definition update_routing_table :: "routing_table \<Rightarrow> hierarchical_router \<Rightarrow> hierarchical_router" where
  "update_routing_table new_table self =
     self\<lparr>hr_routing_table := merge_routing_table (hr_routing_table self) new_table\<rparr>"

record router_stats =
  rs_node_id :: string
  rs_cell_id :: "string option"
  rs_zone_id :: "string option"
  rs_is_cell_leader :: bool
  rs_cell_peer_count :: nat

definition router_stats_of :: "hierarchical_router \<Rightarrow> router_stats" where
  "router_stats_of self =
     (let table = hr_routing_table self;
          my_cell = get_node_cell table (hr_node_id self);
          my_zone = get_node_zone table (hr_node_id self)
      in \<lparr>rs_node_id = hr_node_id self, rs_cell_id = my_cell, rs_zone_id = my_zone,
          rs_is_cell_leader = (case my_cell of Some cell \<Rightarrow> is_cell_leader table (hr_node_id self) cell | None \<Rightarrow> False),
          rs_cell_peer_count = (case my_cell of Some cell \<Rightarrow> length (get_cell_nodes table cell) - 1 | None \<Rightarrow> 0)\<rparr>)"

definition router_is_leader :: "hierarchical_router \<Rightarrow> bool" where
  "router_is_leader self =
     (case get_node_cell (hr_routing_table self) (hr_node_id self) of
        Some cell \<Rightarrow> is_cell_leader (hr_routing_table self) (hr_node_id self) cell
      | None \<Rightarrow> False)"

definition route_message ::
    "(nat \<Rightarrow> reading) \<Rightarrow> (nat \<Rightarrow> reading) \<Rightarrow> instant \<Rightarrow> string \<Rightarrow> string \<Rightarrow> nat \<Rightarrow> message_priority \<Rightarrow> hierarchical_router
     \<Rightarrow> (hierarchical_router \<times> unit option) option" where
  "route_message msg_clock byte_clock now from to message_size priority self =
     (if \<not> is_route_valid from to self then Some (self, None)
      else case hr_flow_controller self of
             Some fc \<Rightarrow>
               (let from_cell = get_node_cell (hr_routing_table self) from;
                    to_cell = get_node_cell (hr_routing_table self) to;
                    level = (if from_cell = to_cell \<and> from_cell \<noteq> None then LevelCell else LevelZone)
                in case acquire_permit msg_clock byte_clock now level message_size priority fc of
                     None \<Rightarrow> None
                   | Some fc \<Rightarrow> Some (self\<lparr>hr_flow_controller := Some fc\<rparr>, Some ()))
           | None \<Rightarrow> Some (self, None))"

text \<open>The directions in which the mesh asks for sync targets, and the answer among its connected peers.\<close>

datatype sync_direction = SyncBroadcast | SyncLateral | SyncUpward | SyncDownward

definition get_targets :: "sync_direction \<Rightarrow> 'e list \<Rightarrow> hierarchical_router \<Rightarrow> 'e list" where
  "get_targets direction peers self =
     (case direction of
        SyncBroadcast \<Rightarrow> peers
      | SyncLateral \<Rightarrow> peers
      | SyncUpward \<Rightarrow>
          if router_is_leader self
          then (let valid = valid_targets self; has_zone_targets = list_ex (\<lambda>t. take 5 t = ''zone:'') valid
                in if has_zone_targets then [] else peers)
          else peers
      | SyncDownward \<Rightarrow> if router_is_leader self then peers else [])"

subsection \<open>Who may message whom\<close>

lemma route_valid_iff:
  "is_route_valid from to self \<longleftrightarrow>
     (\<exists>c. get_node_cell (hr_routing_table self) from = Some c \<and>
       (get_node_cell (hr_routing_table self) to = Some c
        \<or> get_node_cell (hr_routing_table self) to = None \<and> is_cell_leader (hr_routing_table self) from c))"
  by (auto simp: is_route_valid_def is_upward_route_valid_def Let_def split: option.split)

definition route_level :: "string \<Rightarrow> string \<Rightarrow> hierarchical_router \<Rightarrow> routing_level" where
  "route_level from to self =
     (if get_node_cell (hr_routing_table self) from = get_node_cell (hr_routing_table self) to
         \<and> get_node_cell (hr_routing_table self) from \<noteq> None then LevelCell else LevelZone)"


lemma zone_target: "take 5 (''zone:'' @ z) = ''zone:''"
  by simp

text \<open>
  C30. The list of targets. In a table that holds each node once, the targets of a node are exactly the other
  nodes of some cell to which the routing rule lets it send and, if and only if it leads its cell and the
  cell belongs to a zone, that zone, written with the prefix \<open>zone:\<close>. The zone is itself a valid route
  unless some node bears that very text as its id.
\<close>

theorem valid_targets_exact:
  fixes self :: hierarchical_router
  assumes "rt_wf (hr_routing_table self)"
  defines "me \<equiv> hr_node_id self" and "table \<equiv> hr_routing_table self"
  shows "set (valid_targets self) =
      {t. t \<noteq> me \<and> get_node_cell table t \<noteq> None \<and> is_route_valid me t self} \<union>
      {''zone:'' @ z |z. router_is_leader self \<and> get_node_zone table me = Some z} \<and>
    (\<forall>z. router_is_leader self \<longrightarrow> get_node_zone table me = Some z \<longrightarrow> get_node_cell table (''zone:'' @ z) = None \<longrightarrow>
       is_route_valid me (''zone:'' @ z) self)"
proof (cases "get_node_cell table me")
  case None
  then show ?thesis
    by (simp add: valid_targets_def route_valid_iff router_is_leader_def me_def table_def)
next
  case (Some c)
  have "set (valid_targets self) = {t. get_node_cell table t = Some c \<and> t \<noteq> me}
      \<union> (if is_cell_leader table me c then {''zone:'' @ z |z. get_cell_zone table c = Some z} else {})"
    using Some set_get_cell_nodes [OF assms(1), of c]
    by (auto simp: valid_targets_def Let_def me_def table_def split: option.split)
  moreover have "router_is_leader self = is_cell_leader table me c" "get_node_zone table me = get_cell_zone table c"
    using Some by (simp_all add: router_is_leader_def get_node_zone_def me_def table_def)
  ultimately show ?thesis
    using Some by (auto simp: route_valid_iff me_def table_def)
qed

text \<open>
  Upward sync goes the wrong way round. A node that does not lead its cell is told to sync upward with
  every connected peer, while the leader of a cell that belongs to a zone is told to sync upward with
  nobody.
\<close>

theorem upward_sync_inverted:
  "(\<not> router_is_leader self \<longrightarrow> get_targets SyncUpward peers self = peers) \<and>
   (router_is_leader self \<and> get_node_zone (hr_routing_table self) (hr_node_id self) \<noteq> None \<longrightarrow> get_targets SyncUpward peers self = [])"
proof -
  have "list_ex (\<lambda>t. take 5 t = ''zone:'') (valid_targets self)"
    if "router_is_leader self" "get_node_zone (hr_routing_table self) (hr_node_id self) \<noteq> None"
    using that by (auto simp: router_is_leader_def get_node_zone_def valid_targets_def Let_def zone_target split: option.splits)
  then show ?thesis by (simp add: get_targets_def Let_def)
qed

subsection \<open>A small hierarchy\<close>

definition demo_table :: routing_table where
  "demo_table = \<lparr>node_to_cell = [(''a'', ''c'', 1), (''b'', ''c'', 1), (''x'', ''d'', 1)],
     cell_to_zone = [(''c'', ''z'', 1)], cell_leaders = [(''c'', ''a'', 1)]\<rparr>"

definition demo_router :: hierarchical_router where
  "demo_router = \<lparr>hr_node_id = ''a'', hr_routing_table = demo_table, hr_flow_controller = Some demo_controller\<rparr>"

lemma demo_cells:
  "get_node_cell demo_table n = (if n = ''a'' \<or> n = ''b'' then Some ''c'' else if n = ''x'' then Some ''d'' else None)"
  by (simp add: get_node_cell_def demo_table_def hm_get_def)

lemma demo_leader: "is_cell_leader demo_table n ''c'' \<longleftrightarrow> n = ''a''"
  by (auto simp: is_cell_leader_def demo_table_def hm_get_def)

lemma demo_route_ready: "ready 0 demo_clock demo_clock (route_level ''a'' t demo_router) demo_controller"
  by (simp add: ready_def call_clock_def paced_def demo_clock_def demo_controller_def limiters_def flow_controller_new_def flow_bucket_new_def
      split: routing_level.split)


theorem valid_targets_exact_witness:
  "set (valid_targets demo_router) = {''b'', ''zone:z''} \<and> is_route_valid ''a'' ''zone:z'' demo_router"
proof -
  have wf: "rt_wf (hr_routing_table demo_router)" by (simp add: demo_router_def demo_table_def rt_wf_def hm_wf_def)
  have facts: "router_is_leader demo_router" "get_node_zone (hr_routing_table demo_router) (hr_node_id demo_router) = Some ''z''"
    "get_node_cell (hr_routing_table demo_router) (''zone:'' @ ''z'') = None"
    by (simp_all add: router_is_leader_def demo_router_def demo_cells demo_leader get_node_zone_def)
      (simp add: get_cell_zone_def demo_table_def hm_get_def)
  have "{t. t \<noteq> ''a'' \<and> get_node_cell demo_table t \<noteq> None \<and> is_route_valid ''a'' t demo_router} = {''b''}"
    by (auto simp: route_valid_iff demo_router_def demo_cells split: if_splits)
  then show ?thesis
    using valid_targets_exact [OF wf] facts by (simp add: demo_router_def)
qed

theorem upward_sync_inverted_witness:
  "get_targets SyncUpward [1 :: nat, 2] demo_router = [] \<and> get_targets SyncUpward [1 :: nat, 2] (demo_router\<lparr>hr_node_id := ''b''\<rparr>) = [1, 2]"
proof -
  have "router_is_leader demo_router" "\<not> router_is_leader (demo_router\<lparr>hr_node_id := ''b''\<rparr>)"
    "get_node_zone (hr_routing_table demo_router) (hr_node_id demo_router) \<noteq> None"
    by (simp_all add: router_is_leader_def demo_router_def demo_cells demo_leader get_node_zone_def) (simp add: get_cell_zone_def demo_table_def hm_get_def)
  then show ?thesis
    using upward_sync_inverted [of demo_router "[1 :: nat, 2]"] upward_sync_inverted [of "demo_router\<lparr>hr_node_id := ''b''\<rparr>" "[1 :: nat, 2]"]
    by blast
qed

end
