(* ===== verification/Spec2Isabelle.thy ===== *)
theory Spec2Isabelle
  imports Peat_Prelude Peat_Schema Peat_Error Routing_Table Cell_State Zone_State
    Hierarchy_Maintenance Cell_Messaging Leader_Election Command_Coordinator Policy_Resolver
    Event_Queue Sync_Queue Auth_State User_Auth Device_Auth Geohash_Cells Reconnect
    Transmitter_Runs Aggregator_Runs Flow_Tasks Hierarchical_Router
begin

text \<open>
  Peat is a coordination protocol for autonomous nodes. Nodes form cells, cells form zones; cells
  elect a leader, exchange messages and commands, share state through replicas that are merged, and
  authenticate each other. This library models the parts of the crate \<open>peat-protocol\<close> (paths below are
  relative to \<open>peat-protocol/src\<close> unless they name a crate) that are program logic, and proves what they guarantee, including
  where the guarantee falls short of what the documentation promises.

  \<^bold>\<open>Conventions.\<close> A \<open>HashMap\<close> is an association list with one entry per key, a \<open>HashSet\<close> a list without
  duplicates; both come with their laws in \<open>Peat_Prelude\<close>. A \<open>String\<close> is the list of its UTF-8 bytes.
  Fixed-width integers are words, \<open>usize\<close> is a natural number. A \<open>Result\<close> is a sum with the error on the
  left; a method that changes \<open>self\<close> returns the new state. An operation is one step, without the locks it
  takes; see the end of this text for what that leaves out. Logging is left out. Clocks, random values and UUIDs are arguments. Code outside the repository
  (cryptography, storage backends, the mesh crate) is a parameter, with the behaviour that a theorem
  relies on as a hypothesis. Times are nanoseconds or milliseconds as in the code. Floating point is
  exact rational arithmetic followed by rounding (\<open>Peat_Float\<close>).

  \<^bold>\<open>Replicated state.\<close> \<open>Routing_Table\<close> (\<open>hierarchy/routing_table.rs\<close>), \<open>Cell_State\<close> (\<open>models/cell/mod.rs\<close>) and
  \<open>Zone_State\<close> (\<open>models/zone.rs\<close>) hold last-writer-wins registers and grow-only sets. The locales
  \<open>lww_map\<close> and \<open>replicated\<close> of the prelude give convergence once; the components interpret them. The
  lemmas show when replicas converge, which invariants every operation keeps, and what ties and
  removals break. \<open>Hierarchy_Maintenance\<close> (\<open>hierarchy/maintenance.rs\<close>, with the parts of
  \<open>storage/cell_store.rs\<close> it needs) merges and splits cells: a merge keeps every member, once; a split keeps
  those of each half that fit the maximal size of a cell and drops the others.

  \<^bold>\<open>Inside a cell.\<close> \<open>Cell_Messaging\<close> (\<open>cell/messaging.rs\<close>) is the message bus with sequence numbers,
  expiry and retransmission; \<open>Leader_Election\<close> (\<open>cell/leader_election.rs\<close>) the election state machine.
  Invariants are proved over all runs of their step relations.

  \<^bold>\<open>Commands.\<close> \<open>Command_Routing\<close>, \<open>Conflict_Resolver\<close>, \<open>Timeout_Manager\<close> and \<open>Command_Coordinator\<close> model
  \<open>command/\<close>; \<open>Policy_Resolver\<close> models the generic engine of \<open>policy/\<close> and its instance for commands, and
  proves that it agrees with the dedicated resolver. Both indexes are interpretations of the locale
  \<open>item_index\<close> (\<open>Item_Index\<close>).

  \<^bold>\<open>Queues.\<close> \<open>Event_Queue\<close> (\<open>event/priority_queue.rs\<close>) and \<open>Sync_Queue\<close> (\<open>qos/sync_queue.rs\<close>, with
  \<open>Qos_Classification\<close> for \<open>qos/classification.rs\<close>) share \<open>Priority_Levels\<close>, whose locale \<open>level_queue\<close>
  gives that a drained queue is the stable sort of what was pushed.

  \<^bold>\<open>Rates.\<close> \<open>Token_Bucket\<close> has the arithmetic of a refill in double precision and the locale
  \<open>token_bucket_laws\<close>: what a bucket pays out in a window of time is bounded by its capacity and rate.
  The buckets of \<open>Event_Transmitter\<close> (\<open>event/transmitter.rs\<close>) and \<open>Flow_Control\<close>
  (\<open>hierarchy/flow_control.rs\<close>) interpret it. \<open>Transmitter_Runs\<close> shows the order, the shares, the
  bandwidth and the accounting of the transmitter over all sequences of calls; \<open>Flow_Permits\<close> what one
  call of \<open>acquire_permit\<close> does when no other caller interferes; \<open>Flow_Tasks\<close> cuts the call into the steps
  that hold a lock, shows that these steps in a row are the call, and bounds the rate of the permits for any
  number of concurrent callers; \<open>Hierarchical_Router\<close> (\<open>hierarchy/router.rs\<close>) composes the permits
  with the routing table. The loop that waits for tokens may run for ever and is a partial function; the
  theorems say exactly when it returns.

  \<^bold>\<open>Aggregation.\<close> \<open>Event_Aggregator\<close> (\<open>event/aggregator.rs\<close>, default strategy of \<open>event/summary.rs\<close>)
  composes the event queue with aggregation windows and the local store; \<open>Aggregator_Runs\<close> shows over all
  sequences of calls that no event taken in is lost, repeated or reordered within its level or window. The
  JSON writer and the protobuf encoder are arguments.

  \<^bold>\<open>Security.\<close> \<open>Membership\<close> (\<open>security/membership.rs\<close>): certificates, their binary format and registry;
  \<open>Auth_State\<close> (\<open>auth_state.rs\<close>): their life cycle; \<open>Authorization\<close> (\<open>authorization.rs\<close>): roles and
  permissions; \<open>Totp\<close> and \<open>User_Auth\<close> (\<open>user_auth.rs\<close>): one-time codes, accounts and sessions;
  \<open>Device_Auth\<close> (\<open>authenticator.rs\<close>, \<open>transport.rs\<close>): the challenge-response handshake. Keys, hashes and
  channels are parameters collected in \<open>Security_Base\<close>; \<open>Wire_Bytes\<close> has byte order and UTF-8.

  \<^bold>\<open>Positions.\<close> \<open>Geohash\<close> (\<open>geohash.rs\<close>) encodes, decodes and moves between cells with every f64 rounding
  and the bit pattern tricks of the code; \<open>Float_Rounding\<close> has the error bounds and exactness lemmas it
  rests on, \<open>Geohash_Cells\<close> the round trip, the accuracy and the neighbours.

  \<^bold>\<open>Reconnection.\<close> \<open>Roster\<close> (\<open>peat-ffi/src/roster.rs\<close>) is the persisted list of group members, \<open>Reconnect\<close>
  (\<open>peat-ffi/src/supervisor.rs\<close> and the passes of \<open>peat-ffi/src/lib.rs\<close>) the dial state machine with the eight
  permits for which a spawned dial waits: for which peers a pass spawns a dial, that in any interleaving of
  passes and dials none is given up, and that a dial starts only when a permit is free.

  \<^bold>\<open>Bounds.\<close> No function needs fuel: apart from the waiting loop of \<open>Flow_Control\<close>, every loop of the
  modelled code runs over a list or decreases a counter, and the termination proofs are in the text. Words keep their width, so wrap-around is part
  of the statements; lengths and capacities (\<open>usize\<close>) are unbounded.

  \<^bold>\<open>Not modelled.\<close> Storage and synchronisation over Automerge and redb, the HTTP crate, the bindings of the FFI
  crate, the Cursor-on-Target XML bridge and discovery by great-circle distance: their state lives in external
  engines, or their results are defined by external or transcendental functions. The schema
  validators, capability composition, the event emitter, event queries and distribution records are plain code
  that could be translated in the same way; they are not part of the development, and neither are plain
  read-only accessors that no other operation calls.

  \<^bold>\<open>Concurrency.\<close> The step relations interleave whole operations. Only for the flow controller
  (\<open>Flow_Tasks\<close>) do they interleave the steps inside an operation; the dials of \<open>Reconnect\<close> start and end
  between whole passes. Transmitter, queues and replicas are plain values that one caller at a time changes.
  Other components take several locks in turn, or release one between reading and writing: aggregator,
  message bus, leader election, coordinator, accounts, device authentication, and the passes over the roster.
  Concurrent calls can interfere there in ways that the theorems, which speak of operations that run one
  after another, do not cover. For accounts \<open>stale_login_reactivates\<close> shows such a case.
\<close>

end
